(* ===== verification/Prelude.thy ===== *)
theory Prelude
  imports Main "HOL-Library.Sublist"
begin

text \<open>
  The prelude of the development: the names of the model's basic types, the result
  of a fallible Rust computation, the errors the program raises, the named collections
  of simplification rules, and the facts on lists that several components share.
\<close>

section \<open>Bytes and results\<close>

text \<open>
  A Rust \<open>u8\<close> is a \<^typ>\<open>char\<close> (Isabelle's characters are exactly the 256
  bytes), so a byte-string literal of the source reads as a string literal here, and a
  \<open>&[u8]\<close>, a \<open>Vec<u8>\<close> and the UTF-8 encoding of a \<open>String\<close> are lists of bytes.
\<close>

type_synonym byte = char
type_synonym bytes = "char list"

text \<open>
  The errors, one constructor per place that raises one.  The source builds them with
  \<open>anyhow!\<close> or \<open>bail!\<close>, whose only content is a message for the log; where the
  message quotes data, the constructor carries it.
\<close>

datatype error =
    NotFound
  | InvalidStanza
  | IllegalStanza bytes
  | StanzaTooBig bytes
  | ExpectedBytes nat nat
  | IoError
  | Utf8Error
  | ProgrammingError
  | WebsocketClose
  | InvalidWebsocketMessage
  | WebsocketStreamEnded
  | BadPreStreamStanza bytes
  | StreamEndedBeforeOpen
  | NotEnoughBytes
  | LessThanBytes nat
  | BadPreTlsStanza bytes
  | StreamEndedBeforeProceed
  | PoshExpiresZero
  | PoshIllegalRedirect
  | BadStatus nat
  | HostMetaXmlUnsupported
  | InvalidServerName
  | InvalidDnsName
  | CannotConnect string
  | AllConnectionAttemptsFailed
  | BadEncoding
  | BadSignature
  | GeneralTlsError
  | AllValidationFailed
  | NoClientCert bytes
  | TargetNotDefined bool
  | TlsError
  | WriteZero
  | PidMismatch
  | EnvError string
  | OverlargeFd nat
  | NoDefaultProvider
  | NoQuicSuite
  | IdsDoNotMatch
  | NonMatchingHalf
  | ExternalError
  | TimedOut

text \<open>
  A computation returns a value, an error, or panics (an index out of range, an
  arithmetic underflow, an \<open>unwrap\<close> of nothing); the panic is a value of its own, so
  that its absence is a theorem.
\<close>

datatype 'a outcome = Ok 'a | Err error | Panic

fun bind_ok :: "'a outcome \<Rightarrow> ('a \<Rightarrow> 'b outcome) \<Rightarrow> 'b outcome" where
  "bind_ok (Ok x) k = k x"
| "bind_ok (Err e) k = Err e"
| "bind_ok Panic k = Panic"

fun is_ok :: "'a outcome \<Rightarrow> bool" where
  "is_ok (Ok x) = True"
| "is_ok (Err e) = False"
| "is_ok Panic = False"

text \<open>Rust's \<open>or_else\<close>: the alternative is tried on an error, a panic goes through.\<close>

fun or_else :: "'a outcome \<Rightarrow> 'a outcome \<Rightarrow> 'a outcome" where
  "or_else (Ok x) y = Ok x"
| "or_else (Err e) y = y"
| "or_else Panic y = Panic"

text \<open>Rust's \<open>ok()\<close>: an error becomes \<^const>\<open>None\<close>.  It is applied to
  computations that do not panic.\<close>

fun to_option :: "'a outcome \<Rightarrow> 'a option" where
  "to_option (Ok x) = Some x"
| "to_option (Err e) = None"
| "to_option Panic = None"

section \<open>Collections of rules\<close>

named_theorems outcome_simps
named_theorems slice_simps
named_theorems filter_simps

lemma bind_ok_Ok_iff [outcome_simps]:
  "bind_ok m k = Ok y \<longleftrightarrow> (\<exists>x. m = Ok x \<and> k x = Ok y)"
  by (cases m) auto

lemma bind_ok_Panic_iff [outcome_simps]:
  "bind_ok m k = Panic \<longleftrightarrow> m = Panic \<or> (\<exists>x. m = Ok x \<and> k x = Panic)"
  by (cases m) auto

lemma or_else_Ok_iff [outcome_simps]:
  "or_else m k = Ok y \<longleftrightarrow> m = Ok y \<or> (\<exists>e. m = Err e \<and> k = Ok y)"
  by (cases m) auto

lemma is_ok_iff [outcome_simps]: "is_ok m \<longleftrightarrow> (\<exists>x. m = Ok x)"
  by (cases m) auto

lemma to_option_Some_iff [outcome_simps]: "to_option m = Some x \<longleftrightarrow> m = Ok x"
  by (cases m) auto

lemma map_outcome_iffs [outcome_simps]:
  "map_outcome h m = Panic \<longleftrightarrow> m = Panic"
  "map_outcome h m = Err e \<longleftrightarrow> m = Err e"
  "map_outcome h m = Ok y \<longleftrightarrow> (\<exists>x. m = Ok x \<and> y = h x)"
  by (cases m; auto)+

section \<open>Lists\<close>

lemma take_drop_eq_iff:
  assumes "i + length n \<le> length s"
  shows "take (length n) (drop i s) = n \<longleftrightarrow> (\<exists>p q. s = p @ n @ q \<and> length p = i)"
proof
  assume "take (length n) (drop i s) = n"
  then have "s = take i s @ n @ drop (i + length n) s"
    by (metis append_take_drop_id add.commute drop_drop)
  moreover have "length (take i s) = i" using assms by simp
  ultimately show "\<exists>p q. s = p @ n @ q \<and> length p = i" by blast
next
  assume "\<exists>p q. s = p @ n @ q \<and> length p = i"
  then show "take (length n) (drop i s) = n" by auto
qed

lemma sublist_at_iff:
  "sublist n s \<longleftrightarrow> (\<exists>i. i + length n \<le> length s \<and> take (length n) (drop i s) = n)"
proof
  assume "sublist n s"
  then obtain p q where s: "s = p @ n @ q" by (auto simp: sublist_def)
  then have "length p + length n \<le> length s" and "take (length n) (drop (length p) s) = n"
    by simp_all
  then show "\<exists>i. i + length n \<le> length s \<and> take (length n) (drop i s) = n" by blast
next
  assume "\<exists>i. i + length n \<le> length s \<and> take (length n) (drop i s) = n"
  then obtain i p q where "s = p @ n @ q" by (auto simp: take_drop_eq_iff)
  then show "sublist n s" unfolding sublist_def by blast
qed

lemma take_list_update_at:
  "i < length xs \<Longrightarrow> take (Suc i) (xs[i := x]) = take i xs @ [x]"
  by (simp add: take_Suc_conv_app_nth)

lemma last_take_nth:
  "0 < n \<Longrightarrow> n \<le> length xs \<Longrightarrow> last (take n xs) = xs ! (n - 1)"
  by (subst last_conv_nth) (auto simp: min_def)

lemma prefix_take_iff:
  "prefix p (take n xs) \<longleftrightarrow> prefix p xs \<and> length p \<le> min n (length xs)"
proof
  assume h: "prefix p (take n xs)"
  then have "prefix p xs" using take_is_prefix prefix_order.trans by blast
  moreover have "length p \<le> min n (length xs)" using prefix_length_le [OF h] by simp
  ultimately show "prefix p xs \<and> length p \<le> min n (length xs)" by blast
next
  assume h: "prefix p xs \<and> length p \<le> min n (length xs)"
  then obtain q where "xs = p @ q" by (auto simp: prefix_def)
  with h show "prefix p (take n xs)" by auto
qed

lemma prefix_iff_take:
  "prefix p xs \<longleftrightarrow> length p \<le> length xs \<and> take (length p) xs = p"
  by (metis append_eq_conv_conj prefix_def prefix_length_le append_take_drop_id)

lemma suffix_iff_drop:
  "suffix p xs \<longleftrightarrow> length p \<le> length xs \<and> drop (length xs - length p) xs = p"
  by (metis append_take_drop_id suffix_def suffix_length_le append_eq_conv_conj
      length_append add_diff_cancel_right')

lemma drop_take_window:
  "k \<le> n \<Longrightarrow> n \<le> length xs \<Longrightarrow> take k (drop (n - k) xs) = drop (n - k) (take n xs)"
  by (simp add: drop_take)

lemma append_eq_split_notin:
  "p @ x # q = p' @ x # q' \<Longrightarrow> x \<notin> set p \<Longrightarrow> x \<notin> set p' \<Longrightarrow> p = p' \<and> q = q'"
proof (induction p arbitrary: p')
  case Nil
  then show ?case by (cases p') auto
next
  case (Cons a p)
  then show ?case by (cases p') auto
qed

end
