(* ===== verification/Conn_Order.thy ===== *)
theory Conn_Order
  imports Prelude "HOL-Library.Word" "HOL-Library.List_Lexorder" "HOL-Library.Char_ord"
    "HOL-Library.Product_Lexorder" "HOL-Library.Multiset"
begin

text \<open>
  Model of the connections of \<open>src/srv.rs\<close> and of their order: \<open>XmppConnectionType\<close>,
  \<open>XmppConnection\<close>, their \<open>PartialEq\<close> and \<open>Ord\<close>, and \<open>sort_dedup\<close>, which decides which
  duplicates are kept and in which order connections are tried.

  \<open>'u\<close> is the type \<open>Uri\<close> and \<open>'l\<close> the type \<open>Url\<close> of the two libraries the program uses; the
  functions \<open>uri_str\<close> (\<open>Uri::to_string\<close>), \<open>url_str\<close> (the serialization by which a \<open>Url\<close> is
  compared) and \<open>uri_eq\<close> (\<open>==\<close> of \<open>Uri\<close>) are parameters.
\<close>

section \<open>Comparing\<close>

datatype Ordering = Less | Equal | Greater

definition cmp_of :: "'a::linorder \<Rightarrow> 'a \<Rightarrow> Ordering" where
  "cmp_of x y = (if x < y then Less else if x = y then Equal else Greater)"

text \<open>\<open>if cmp != Ordering::Equal { return cmp; }\<close>\<close>

definition cmp_then :: "Ordering \<Rightarrow> Ordering \<Rightarrow> Ordering" where
  "cmp_then c d = (if c \<noteq> Equal then c else d)"

section \<open>Connections\<close>

datatype IpAddr = V4 "32 word" | V6 "128 word"

datatype ('u, 'l) XmppConnectionType =
    StartTLS
  | DirectTLS
  | QUIC
  | WebSocket 'u bytes
  | WebTransport 'l

fun idx :: "('u, 'l) XmppConnectionType \<Rightarrow> nat" where
  "idx QUIC = 0"
| "idx DirectTLS = 2"
| "idx StartTLS = 3"
| "idx (WebSocket uri origin) = 4"
| "idx (WebTransport url) = 1"

fun conn_type_cmp ::
    "('u \<Rightarrow> bytes) \<Rightarrow> ('l \<Rightarrow> bytes) \<Rightarrow> ('u, 'l) XmppConnectionType \<Rightarrow> ('u, 'l) XmppConnectionType \<Rightarrow> Ordering"
where
  "conn_type_cmp uri_str url_str a b =
     cmp_then (cmp_of (idx a) (idx b))
       (case (a, b) of
          (WebSocket self_uri self_origin, WebSocket other_uri other_origin) \<Rightarrow>
            cmp_then (cmp_of (uri_str self_uri) (uri_str other_uri)) (cmp_of self_origin other_origin)
        | (WebTransport self_url, WebTransport other_url) \<Rightarrow> cmp_of (url_str self_url) (url_str other_url)
        | (_, _) \<Rightarrow> Equal)"

text \<open>The derived equality of \<open>XmppConnectionType\<close>.\<close>

fun conn_type_eq ::
    "('u \<Rightarrow> 'u \<Rightarrow> bool) \<Rightarrow> ('l \<Rightarrow> bytes) \<Rightarrow> ('u, 'l) XmppConnectionType \<Rightarrow> ('u, 'l) XmppConnectionType \<Rightarrow> bool"
where
  "conn_type_eq uri_eq url_str (WebSocket u o1) (WebSocket v o2) = (uri_eq u v \<and> o1 = o2)"
| "conn_type_eq uri_eq url_str (WebTransport u) (WebTransport v) = (url_str u = url_str v)"
| "conn_type_eq uri_eq url_str a b = (idx a = idx b)"

record ('u, 'l) XmppConnection =
  conn_type :: "('u, 'l) XmppConnectionType"
  priority :: "16 word"
  weight :: "16 word"
  port :: "16 word"
  target :: bytes
  secure :: bool
  ips :: "IpAddr list"
  ech :: "bytes option"

definition conn_eq ::
    "('u \<Rightarrow> 'u \<Rightarrow> bool) \<Rightarrow> ('l \<Rightarrow> bytes) \<Rightarrow> ('u, 'l) XmppConnection \<Rightarrow> ('u, 'l) XmppConnection \<Rightarrow> bool"
where
  "conn_eq uri_eq url_str a b \<longleftrightarrow>
     conn_type_eq uri_eq url_str (conn_type a) (conn_type b) \<and> port a = port b \<and> target a = target b"

text \<open>The last comparison is of a weight with a priority, as in the source.\<close>

definition conn_cmp ::
    "('u \<Rightarrow> bytes) \<Rightarrow> ('l \<Rightarrow> bytes) \<Rightarrow> ('u, 'l) XmppConnection \<Rightarrow> ('u, 'l) XmppConnection \<Rightarrow> Ordering"
where
  "conn_cmp uri_str url_str a b =
     cmp_then (conn_type_cmp uri_str url_str (conn_type a) (conn_type b))
    (cmp_then (cmp_of (port a) (port b))
    (cmp_then (cmp_of (target a) (target b))
    (cmp_then (cmp_of (secure b) (secure a))
    (cmp_then (cmp_of (priority a) (priority b))
              (cmp_of (weight b) (priority a))))))"

section \<open>Sorting and removing duplicates\<close>

text \<open>
  The standard library's \<open>sort\<close> and \<open>sort_by\<close>: insertion sort, each element moved left past
  the elements it is less than.  This is the algorithm for at most 20 elements.  For more, the
  library promises the one stable order when the comparison is a total order, which
  \<open>preference_cmp\<close> is; \<open>conn_cmp\<close> is one on connections no two of which agree in everything but
  the weight, and then every algorithm gives the list of this model (\<open>first_sort_any_algorithm\<close>
  below).  For more than 20 connections of which two agree in everything but the weight the
  library leaves the order open and may panic; that is outside of the model.  The sorted part is
  kept in reverse.
\<close>

fun insert_tail :: "('a \<Rightarrow> 'a \<Rightarrow> Ordering) \<Rightarrow> 'a \<Rightarrow> 'a list \<Rightarrow> 'a list" where
  "insert_tail cmp x [] = [x]"
| "insert_tail cmp x (y # ys) = (if cmp x y = Less then y # insert_tail cmp x ys else x # y # ys)"

definition sort_by :: "('a \<Rightarrow> 'a \<Rightarrow> Ordering) \<Rightarrow> 'a list \<Rightarrow> 'a list" where
  "sort_by cmp xs = rev (fold (insert_tail cmp) xs [])"

text \<open>\<open>Vec::dedup\<close>: an element equal to the last one kept is dropped.\<close>

fun dedup_from :: "('a \<Rightarrow> 'a \<Rightarrow> bool) \<Rightarrow> 'a \<Rightarrow> 'a list \<Rightarrow> 'a list" where
  "dedup_from eq x [] = [x]"
| "dedup_from eq x (y # ys) = (if eq y x then dedup_from eq x ys else x # dedup_from eq y ys)"

fun dedup :: "('a \<Rightarrow> 'a \<Rightarrow> bool) \<Rightarrow> 'a list \<Rightarrow> 'a list" where
  "dedup eq [] = []"
| "dedup eq (x # xs) = dedup_from eq x xs"

definition preference_cmp :: "('u, 'l) XmppConnection \<Rightarrow> ('u, 'l) XmppConnection \<Rightarrow> Ordering" where
  "preference_cmp a b =
     cmp_then (cmp_of (priority a) (priority b))
    (cmp_then (cmp_of (idx (conn_type a)) (idx (conn_type b)))
              (cmp_of (weight b) (weight a)))"

definition sort_dedup ::
    "('u \<Rightarrow> bytes) \<Rightarrow> ('l \<Rightarrow> bytes) \<Rightarrow> ('u \<Rightarrow> 'u \<Rightarrow> bool)
      \<Rightarrow> ('u, 'l) XmppConnection list \<Rightarrow> ('u, 'l) XmppConnection list"
where
  "sort_dedup uri_str url_str uri_eq ret =
     sort_by preference_cmp
       (dedup (conn_eq uri_eq url_str) (sort_by (conn_cmp uri_str url_str) ret))"

section \<open>Orders by a key\<close>

lemma cmp_of_simps [simp]:
  "cmp_of x y = Less \<longleftrightarrow> x < y" "cmp_of x y = Equal \<longleftrightarrow> x = y" "cmp_of x y = Greater \<longleftrightarrow> y < x"
  by (auto simp: cmp_of_def)

lemma cmp_of_pair: "cmp_then (cmp_of a c) (cmp_of b d) = cmp_of (a, b) (c, d)"
  by (auto simp: cmp_then_def cmp_of_def less_prod_def')

text \<open>
  What Rust asks of an implementation of \<open>Ord\<close>: a total order up to equality.
\<close>

locale total_cmp =
  fixes cmp :: "'a \<Rightarrow> 'a \<Rightarrow> Ordering"
  assumes cmp_refl: "cmp x x = Equal"
    and cmp_swap: "cmp x y = Less \<longleftrightarrow> cmp y x = Greater"
    and cmp_trans: "cmp x y \<noteq> Greater \<Longrightarrow> cmp y z \<noteq> Greater \<Longrightarrow> cmp x z \<noteq> Greater"
begin

abbreviation leq :: "'a \<Rightarrow> 'a \<Rightarrow> bool" where
  "leq x y \<equiv> cmp x y \<noteq> Greater"

text \<open>
  A comparison that agrees with this one where this one decides still sorts by this one,
  whatever it does on elements that are equal here.
\<close>

lemma insert_tail_leq:
  assumes "\<And>x y. cmp x y = Less \<Longrightarrow> c x y = Less" and "\<And>x y. cmp x y = Greater \<Longrightarrow> c x y \<noteq> Less"
  shows "sorted_wrt (\<lambda>a b. leq b a) ys \<Longrightarrow> sorted_wrt (\<lambda>a b. leq b a) (insert_tail c x ys)
    \<and> set (insert_tail c x ys) = insert x (set ys)"
proof (induction ys)
  case (Cons y ys)
  show ?case
  proof (cases "c x y = Less")
    case True
    then have "leq x y" using assms(2) by auto
    with True Cons show ?thesis by auto
  next
    case False
    then have "leq y x" using assms(1) [of x y] cmp_swap [of x y] by auto
    moreover have "leq z x" if "leq z y" for z
      using that \<open>leq y x\<close> cmp_trans by blast
    ultimately show ?thesis using False Cons.prems by auto
  qed
qed simp

lemma sort_by_leq:
  assumes "\<And>x y. cmp x y = Less \<Longrightarrow> c x y = Less" and "\<And>x y. cmp x y = Greater \<Longrightarrow> c x y \<noteq> Less"
  shows "sorted_wrt leq (sort_by c xs)"
proof -
  have "sorted_wrt (\<lambda>a b. leq b a) ys \<Longrightarrow> sorted_wrt (\<lambda>a b. leq b a) (fold (insert_tail c) xs ys)" for ys
    by (induction xs arbitrary: ys) (simp_all add: insert_tail_leq [OF assms])
  from this [of "[]"] show ?thesis by (simp add: sort_by_def sorted_wrt_rev)
qed

end

interpretation keyed: total_cmp "\<lambda>x y. cmp_of (k x) (k y)" for k :: "'a \<Rightarrow> 'b::linorder"
  by unfold_locales auto

text \<open>The preference is the order of a key, so the last sort is by a total order.\<close>

definition preference_key :: "('u, 'l) XmppConnection \<Rightarrow> 16 word \<times> nat \<times> int" where
  "preference_key a = (priority a, idx (conn_type a), - uint (weight a))"

lemma cmp_of_weight: "cmp_of v w = cmp_of (- uint w) (- uint v)" for v w :: "'n::len word"
  by (simp add: cmp_of_def word_less_def) (auto simp: word_uint_eq_iff)

lemma preference_cmp_key: "preference_cmp a b = cmp_of (preference_key a) (preference_key b)"
  by (simp add: preference_cmp_def preference_key_def cmp_of_pair cmp_of_weight [of "weight b"])

interpretation preference: total_cmp preference_cmp
  by unfold_locales (auto simp: preference_cmp_key)

text \<open>
  What two connections are the same by (the first three comparisons), and the key of the
  order of \<open>XmppConnection\<close> up to its last comparison.
\<close>

fun type_key :: "('u \<Rightarrow> bytes) \<Rightarrow> ('l \<Rightarrow> bytes) \<Rightarrow> ('u, 'l) XmppConnectionType \<Rightarrow> nat \<times> bytes \<times> bytes" where
  "type_key uri_str url_str (WebSocket uri origin) = (4, uri_str uri, origin)"
| "type_key uri_str url_str (WebTransport url) = (1, url_str url, [])"
| "type_key uri_str url_str QUIC = (0, [], [])"
| "type_key uri_str url_str DirectTLS = (2, [], [])"
| "type_key uri_str url_str StartTLS = (3, [], [])"

definition endpoint ::
    "('u \<Rightarrow> bytes) \<Rightarrow> ('l \<Rightarrow> bytes) \<Rightarrow> ('u, 'l) XmppConnection \<Rightarrow> (nat \<times> bytes \<times> bytes) \<times> 16 word \<times> bytes"
where
  "endpoint uri_str url_str a = (type_key uri_str url_str (conn_type a), port a, target a)"

definition conn_key ::
    "('u \<Rightarrow> bytes) \<Rightarrow> ('l \<Rightarrow> bytes) \<Rightarrow> ('u, 'l) XmppConnection
      \<Rightarrow> ((nat \<times> bytes \<times> bytes) \<times> 16 word \<times> bytes) \<times> bool \<times> 16 word"
where
  "conn_key uri_str url_str a = (endpoint uri_str url_str a, \<not> secure a, priority a)"

lemma conn_type_cmp_key:
  "conn_type_cmp uri_str url_str a b = cmp_of (type_key uri_str url_str a) (type_key uri_str url_str b)"
proof -
  have t: "type_key uri_str url_str c = (idx c, snd (type_key uri_str url_str c))" for c
    by (cases c) simp_all
  have "conn_type_cmp uri_str url_str a b
      = cmp_then (cmp_of (idx a) (idx b)) (cmp_of (snd (type_key uri_str url_str a)) (snd (type_key uri_str url_str b)))"
    by (cases a; cases b) (simp_all add: cmp_of_pair, simp_all add: cmp_then_def cmp_of_def)
  then show ?thesis by (subst (1 2) t) (simp only: cmp_of_pair)
qed

lemma cmp_then_assoc: "cmp_then (cmp_then a b) c = cmp_then a (cmp_then b c)"
  by (simp add: cmp_then_def)

lemma cmp_of_not: "cmp_of b a = cmp_of (\<not> a) (\<not> b)"
  by (cases a; cases b) (simp_all add: cmp_of_def)

lemma conn_cmp_key:
  "conn_cmp uri_str url_str a b
     = cmp_then (cmp_of (conn_key uri_str url_str a) (conn_key uri_str url_str b)) (cmp_of (weight b) (priority a))"
  by (simp add: conn_cmp_def conn_key_def endpoint_def conn_type_cmp_key cmp_of_not [of "secure b"]
      cmp_then_assoc flip: cmp_of_pair del: conn_type_cmp.simps)

lemma cmp_then_Less: "c = Less \<Longrightarrow> cmp_then c d = Less"
  by (simp add: cmp_then_def)

lemma cmp_then_Greater: "c = Greater \<Longrightarrow> cmp_then c d \<noteq> Less"
  by (simp add: cmp_then_def)

lemma sort_by_set: "set (sort_by c xs) = set xs"
proof -
  have "set (insert_tail c x ys) = insert x (set ys)" for x ys by (induction ys) auto
  then have "set (fold (insert_tail c) xs ys) = set xs \<union> set ys" for ys
    by (induction xs arbitrary: ys) auto
  then show ?thesis by (simp add: sort_by_def)
qed

lemma sort_by_mset: "mset (sort_by c xs) = mset xs"
proof -
  have "mset (insert_tail c x ys) = add_mset x (mset ys)" for x ys by (induction ys) auto
  then have "mset (fold (insert_tail c) xs ys) = mset xs + mset ys" for ys
    by (induction xs arbitrary: ys) auto
  then show ?thesis by (simp add: sort_by_def)
qed

lemma sort_conn_sorted:
  "sorted (map (conn_key uri_str url_str) (sort_by (conn_cmp uri_str url_str) xs))"
proof -
  let ?k = "conn_key uri_str url_str :: ('a, 'b) XmppConnection \<Rightarrow> _" and ?c = "conn_cmp uri_str url_str"
  have "sorted_wrt (\<lambda>a b. cmp_of (?k a) (?k b) \<noteq> Greater) (sort_by ?c xs)"
    by (rule keyed.sort_by_leq) (simp_all only: conn_cmp_key cmp_then_Less cmp_then_Greater not_False_eq_True)
  then show ?thesis by (simp add: sorted_wrt_map not_less)
qed

text \<open>
  What the library promises of a sort, that the elements stay and none is less than one before it,
  leaves one list only, when no two connections have the same key.
\<close>

lemma first_sort_any_algorithm:
  assumes "distinct (map (conn_key uri_str url_str) xs)" and "mset ys = mset xs"
    and "sorted_wrt (\<lambda>a b. conn_cmp uri_str url_str b a \<noteq> Less) ys"
  shows "ys = sort_by (conn_cmp uri_str url_str) xs"
proof -
  let ?k = "conn_key uri_str url_str" and ?s = "sort_by (conn_cmp uri_str url_str) xs"
  have "sorted_wrt (\<lambda>a b. ?k a \<le> ?k b) ys"
    using assms(3) by (rule sorted_wrt_mono_rel [rotated]) (auto simp: conn_cmp_key cmp_then_Less not_less [symmetric])
  then have y: "sorted (map ?k ys)" by (simp add: sorted_wrt_map)
  have d: "distinct (map ?k ys)" "distinct (map ?k ?s)"
    using assms(1) mset_eq_imp_distinct_iff [of "map ?k ys" "map ?k xs"] mset_eq_imp_distinct_iff [of "map ?k ?s" "map ?k xs"]
    by (simp_all add: assms(2) sort_by_mset)
  have s: "set ys = set ?s" using mset_eq_setD [OF assms(2)] by (simp add: sort_by_set)
  have "inj_on ?k (set ys \<union> set ?s)" using d(1) by (simp add: s [symmetric] distinct_map)
  from map_sorted_distinct_set_unique [OF this y d(1) sort_conn_sorted d(2) s] show ?thesis .
qed

text \<open>
  Removing duplicates from a list sorted by a key: elements that agree in the first part of
  the key are equal.
\<close>

lemma dedup_from_spec:
  assumes "sorted (map k (x # xs))" and "\<And>a b. fst (k a) = fst (k b) \<Longrightarrow> eq a b"
  shows "sorted (map (fst \<circ> k) (dedup_from eq x xs)) \<and> distinct (map (fst \<circ> k) (dedup_from eq x xs))
    \<and> set (dedup_from eq x xs) \<subseteq> set (x # xs) \<and> x \<in> set (dedup_from eq x xs)
    \<and> (\<forall>a\<in>set (x # xs). \<exists>b\<in>set (dedup_from eq x xs). eq a b \<and> k b \<le> k a)"
  using assms(1)
proof (induction xs arbitrary: x)
  case (Cons y ys)
  show ?case
  proof (cases "eq y x")
    case True
    from Cons.prems have "sorted (map k (x # ys))" and "k x \<le> k y" by auto
    from Cons.IH [OF this(1)] this(2) True show ?thesis by auto
  next
    case False
    have s: "sorted (map k (y # ys))" and le: "k x \<le> k y" using Cons.prems by auto
    let ?d = "dedup_from eq y ys"
    from Cons.IH [OF s] have IH: "sorted (map (fst \<circ> k) ?d)" "distinct (map (fst \<circ> k) ?d)"
      "set ?d \<subseteq> set (y # ys)" "\<forall>a\<in>set (y # ys). \<exists>b\<in>set ?d. eq a b \<and> k b \<le> k a" by blast+
    have lt: "fst (k x) < fst (k b)" if "b \<in> set ?d" for b
    proof -
      from that IH(3) s have "k y \<le> k b" by auto
      moreover from False assms(2) have "fst (k y) \<noteq> fst (k x)" by blast
      ultimately show ?thesis using le by (auto simp: less_eq_prod_def)
    qed
    have "eq x x" using assms(2) by simp
    with IH lt False show ?thesis by (auto simp: less_imp_le o_def dest: lt)
  qed
qed (use assms(2) in simp)

section \<open>What \<open>sort_dedup\<close> returns\<close>

lemma conn_eq_endpoint:
  assumes "\<And>u v. uri_str u = uri_str v \<Longrightarrow> uri_eq u v" and "endpoint uri_str url_str a = endpoint uri_str url_str b"
  shows "conn_eq uri_eq url_str a b"
proof -
  have "type_key uri_str url_str s = type_key uri_str url_str t \<Longrightarrow> conn_type_eq uri_eq url_str s t" for s t
    by (cases s; cases t) (simp_all add: assms(1))
  with assms(2) show ?thesis by (simp add: conn_eq_def endpoint_def)
qed

lemma dedup_spec:
  assumes "sorted (map k xs)" and "\<forall>a b. fst (k a) = fst (k b) \<longrightarrow> eq a b"
  shows "distinct (map (fst \<circ> k) (dedup eq xs)) \<and> set (dedup eq xs) \<subseteq> set xs
    \<and> (\<forall>a\<in>set xs. \<exists>b\<in>set (dedup eq xs). eq a b \<and> k b \<le> k a)"
proof (cases xs)
  case (Cons x ys)
  with dedup_from_spec [of k x ys eq] assms show ?thesis by auto
qed simp

lemma distinct_map_mset: "mset xs = mset ys \<Longrightarrow> distinct (map g xs) = distinct (map g ys)"
  by (metis mset_map mset_eq_imp_distinct_iff)

lemma sort_dedup_spec:
  fixes xs :: "('u, 'l) XmppConnection list" and uri_str :: "'u \<Rightarrow> bytes" and url_str :: "'l \<Rightarrow> bytes"
  assumes "\<forall>u v. uri_str u = uri_str v \<longrightarrow> uri_eq u v"
  defines "out \<equiv> sort_dedup uri_str url_str uri_eq xs"
  shows "set out \<subseteq> set xs" and "distinct (map (endpoint uri_str url_str) out)"
    and "a \<in> set xs \<Longrightarrow> \<exists>b\<in>set out. conn_eq uri_eq url_str a b
        \<and> conn_key uri_str url_str b \<le> conn_key uri_str url_str a"
    and "sorted (map preference_key out)"
proof -
  let ?k = "conn_key uri_str url_str :: ('u, 'l) XmppConnection \<Rightarrow> _" and ?c = "conn_cmp uri_str url_str"
  let ?d = "dedup (conn_eq uri_eq url_str) (sort_by ?c xs)"
  have e: "fst (?k a) = endpoint uri_str url_str a" for a by (simp add: conn_key_def)
  then have e': "fst \<circ> ?k = endpoint uri_str url_str" by (simp add: fun_eq_iff)
  have "\<forall>a b. fst (?k a) = fst (?k b) \<longrightarrow> conn_eq uri_eq url_str a b"
    using conn_eq_endpoint [where uri_eq = uri_eq and uri_str = uri_str and url_str = url_str] assms(1) by (simp add: e)
  from dedup_spec [OF sort_conn_sorted [of uri_str url_str xs] this]
  have d: "distinct (map (endpoint uri_str url_str) ?d)" "set ?d \<subseteq> set xs"
    "\<forall>a\<in>set xs. \<exists>b\<in>set ?d. conn_eq uri_eq url_str a b \<and> ?k b \<le> ?k a"
    unfolding e' sort_by_set by blast+
  have m: "mset out = mset ?d" by (simp add: out_def sort_dedup_def sort_by_mset)
  then have s: "set out = set ?d" by (rule mset_eq_setD)
  from d(2) s show "set out \<subseteq> set xs" by simp
  from d(1) show "distinct (map (endpoint uri_str url_str) out)" by (simp only: distinct_map_mset [OF m])
  from d(3) s show "a \<in> set xs \<Longrightarrow> \<exists>b\<in>set out. conn_eq uri_eq url_str a b
        \<and> conn_key uri_str url_str b \<le> conn_key uri_str url_str a" by simp
  have "sorted_wrt (\<lambda>a b. preference_cmp a b \<noteq> Greater) out"
    unfolding out_def sort_dedup_def by (rule preference.sort_by_leq) simp_all
  then show "sorted (map preference_key out)" by (simp add: preference_cmp_key sorted_wrt_map not_less)
qed

section \<open>Properties\<close>

text \<open>C20: \<open>sort_dedup\<close> invents no connection, leaves no two to the same endpoint (type with its
  address, port and target), and keeps for every connection one that is equal to it;
  when the two have the same endpoint, the one kept is secure if the other was, and has at
  most its priority when they are equally secure.\<close>

theorem sort_dedup_keeps_best:
  assumes "\<forall>u v. uri_str u = uri_str v \<longrightarrow> uri_eq u v"
  shows "set (sort_dedup uri_str url_str uri_eq xs) \<subseteq> set xs
    \<and> distinct (map (endpoint uri_str url_str) (sort_dedup uri_str url_str uri_eq xs))
    \<and> (\<forall>a\<in>set xs. \<exists>b\<in>set (sort_dedup uri_str url_str uri_eq xs).
          conn_eq uri_eq url_str a b \<and> (endpoint uri_str url_str b = endpoint uri_str url_str a \<longrightarrow>
            (secure a \<longrightarrow> secure b) \<and> (secure a = secure b \<longrightarrow> priority b \<le> priority a)))"
proof (intro conjI ballI)
  note s = sort_dedup_spec [where uri_eq = uri_eq and uri_str = uri_str and url_str = url_str and xs = xs,
      OF assms]
  show "set (sort_dedup uri_str url_str uri_eq xs) \<subseteq> set xs"
    and "distinct (map (endpoint uri_str url_str) (sort_dedup uri_str url_str uri_eq xs))" by (rule s)+
  fix a assume "a \<in> set xs"
  from s(3) [OF this] obtain b where "b \<in> set (sort_dedup uri_str url_str uri_eq xs)"
    "conn_eq uri_eq url_str a b"
    "conn_key uri_str url_str b \<le> conn_key uri_str url_str a" by blast
  then show "\<exists>b\<in>set (sort_dedup uri_str url_str uri_eq xs).
          conn_eq uri_eq url_str a b \<and> (endpoint uri_str url_str b = endpoint uri_str url_str a \<longrightarrow>
            (secure a \<longrightarrow> secure b) \<and> (secure a = secure b \<longrightarrow> priority b \<le> priority a))"
    by (intro bexI [of _ b]) (auto simp: conn_key_def less_eq_prod_def less_le)
qed

definition example_conn :: "bool \<Rightarrow> 16 word \<Rightarrow> 16 word \<Rightarrow> (bytes, bytes) XmppConnection" where
  "example_conn sec prio w =
     \<lparr>conn_type = WebSocket ''wss://a/ws'' ''https://a'', priority = prio, weight = w, port = 443,
      target = ''a'', secure = sec, ips = [], ech = None\<rparr>"

lemma sort_dedup_keeps_best_witness:
  "let xs = [example_conn False 1 2, example_conn True 7 2]; ys = sort_dedup id id (=) xs
   in set ys \<subseteq> set xs \<and> distinct (map (endpoint id id) ys)
    \<and> (\<exists>b\<in>set ys. conn_eq (=) id (example_conn False 1 2) b) \<and> (\<exists>b\<in>set ys. conn_eq (=) id (example_conn True 7 2) b)"
proof -
  have "\<forall>u v. id u = id v \<longrightarrow> u = (v :: bytes)" by simp
  from sort_dedup_keeps_best [OF this, of id "[example_conn False 1 2, example_conn True 7 2]"]
  show ?thesis unfolding Let_def by (meson list.set_intros)
qed

text \<open>C21: the connections are tried in the order of their priorities; among those of one
  priority QUIC, WebTransport, direct TLS, STARTTLS and WebSocket in this order; and among
  those of one priority and type by decreasing weight.\<close>

theorem sort_dedup_in_order_of_preference:
  assumes "i < j" and "j < length (sort_dedup uri_str url_str uri_eq xs)"
    and "a = sort_dedup uri_str url_str uri_eq xs ! i" and "b = sort_dedup uri_str url_str uri_eq xs ! j"
  shows "priority a < priority b
    \<or> priority a = priority b \<and> (idx (conn_type a) < idx (conn_type b)
        \<or> idx (conn_type a) = idx (conn_type b) \<and> weight b \<le> weight a)"
proof -
  have "sorted_wrt (\<lambda>a b. preference_cmp a b \<noteq> Greater) (sort_dedup uri_str url_str uri_eq xs)"
    unfolding sort_dedup_def by (rule preference.sort_by_leq) simp_all
  with assms have "preference_cmp a b \<noteq> Greater" by (simp add: sorted_wrt_iff_nth_less)
  then show ?thesis
    by (auto simp: preference_cmp_key preference_key_def not_less less_eq_prod_def word_le_def word_uint_eq_iff)
qed

lemma sort_dedup_in_order_of_preference_witness:
  "let s = sort_dedup id id (=) [(example_conn True 7 2)\<lparr>port := 444\<rparr>, example_conn True 7 9];
       a = s ! 0; b = s ! 1
   in priority a < priority b
    \<or> priority a = priority b \<and> (idx (conn_type a) < idx (conn_type b)
        \<or> idx (conn_type a) = idx (conn_type b) \<and> weight b \<le> weight a)"
proof -
  have "1 < length (sort_dedup id id (=) [(example_conn True 7 2)\<lparr>port := 444\<rparr>, example_conn True 7 9])"
    by code_simp
  from sort_dedup_in_order_of_preference [OF _ this refl refl, of 0] show ?thesis
    by (simp add: Let_def)
qed

text \<open>C37: the order of connections is not an order: it compares the weight of one connection
  with the priority of the other, so of two connections that differ only in their weights,
  both below the priority, each is less than the other, and the one kept is the one that
  came last, whatever its weight.\<close>

theorem connection_order_not_antisymmetric:
  assumes "\<forall>u. uri_eq u u" and "b = a\<lparr>weight := w\<rparr>" and "weight a < priority a" and "w < priority a"
  shows "conn_cmp uri_str url_str a b = Less \<and> conn_cmp uri_str url_str b a = Less
    \<and> sort_dedup uri_str url_str uri_eq [a, b] = [b] \<and> sort_dedup uri_str url_str uri_eq [b, a] = [a]"
proof -
  have "conn_key uri_str url_str b = conn_key uri_str url_str a"
    by (simp add: assms(2) conn_key_def endpoint_def)
  then have c: "conn_cmp uri_str url_str a b = Less" "conn_cmp uri_str url_str b a = Less"
    using assms(2-4) by (simp_all add: conn_cmp_key) (simp_all add: cmp_then_def)
  have "conn_type_eq uri_eq url_str t t" for t using assms(1) by (cases t) simp_all
  then have "conn_eq uri_eq url_str a b" "conn_eq uri_eq url_str b a"
    by (simp_all add: conn_eq_def assms(2))
  with c show ?thesis by (simp add: sort_dedup_def sort_by_def)
qed

lemma connection_order_not_antisymmetric_witness:
  "sort_dedup id id (=) [example_conn True 9 8, (example_conn True 9 8)\<lparr>weight := 1\<rparr>]
     = [(example_conn True 9 8)\<lparr>weight := 1\<rparr>]"
  using connection_order_not_antisymmetric [where uri_eq = "(=)" and a = "example_conn True 9 8" and w = 1
      and uri_str = id and url_str = id, OF _ refl]
  by (simp add: example_conn_def)

end
