(* ===== verification/Posh_Fingerprints.thy ===== *)
theory Posh_Fingerprints
  imports Conn_Order
begin

text \<open>
  Model of PKIX over Secure HTTP (RFC 7711) in \<open>src/srv.rs\<close>: fetching the fingerprints of a
  domain, merging those of its two services, and checking a certificate against them.

  Parameters: \<open>https_get\<close> returns the status and the body of a URL, \<open>posh_json\<close> parses a body,
  and \<open>dig256\<close> and \<open>dig512\<close> are \<open>digest(&SHA256, ..)\<close> and \<open>digest(&SHA512, ..)\<close>, hashing and
  Base64 of other libraries.
\<close>

section \<open>HTTP\<close>

record 'b response =
  status :: nat
  body :: 'b

definition is_success :: "'b response \<Rightarrow> bool" where
  "is_success r \<longleftrightarrow> 200 \<le> status r \<and> status r \<le> 299"

section \<open>Fingerprints\<close>

record Fingerprint =
  sha_256 :: "bytes option"
  sha_512 :: "bytes option"

datatype PoshJson =
    PoshFingerprints "Fingerprint list" "64 word"
  | PoshRedirect bytes "64 word"

record Posh =
  sha_256_fingerprints :: "bytes list"
  sha_512_fingerprints :: "bytes list"
  expires :: "64 word"

definition min_expires :: "64 word \<Rightarrow> 64 word \<Rightarrow> 64 word" where
  "min_expires a b = (if a < b then a else b)"

definition combine_uniq :: "bytes list \<Rightarrow> bytes list \<Rightarrow> bytes list" where
  "combine_uniq xs other = dedup (=) (sort_by cmp_of (xs @ other))"

text \<open>The two vectors of \<open>Posh::new\<close>, filled in one loop.\<close>

fun push_fingerprints :: "Fingerprint list \<Rightarrow> bytes list \<Rightarrow> bytes list \<Rightarrow> bytes list \<times> bytes list" where
  "push_fingerprints [] s256 s512 = (s256, s512)"
| "push_fingerprints (f # fs) s256 s512 =
     push_fingerprints fs
       (case sha_256 f of Some h \<Rightarrow> s256 @ [h] | None \<Rightarrow> s256)
       (case sha_512 f of Some h \<Rightarrow> s512 @ [h] | None \<Rightarrow> s512)"

definition Posh_new :: "Fingerprint list \<Rightarrow> 64 word \<Rightarrow> Posh outcome" where
  "Posh_new fingerprints e =
     (if e = 0 then Err PoshExpiresZero
      else (case push_fingerprints fingerprints [] [] of (s256, s512) \<Rightarrow>
        Ok \<lparr>sha_256_fingerprints = s256, sha_512_fingerprints = s512, expires = e\<rparr>))"

definition Posh_append :: "Posh \<Rightarrow> Posh \<Rightarrow> Posh" where
  "Posh_append a b =
     \<lparr>sha_256_fingerprints = combine_uniq (sha_256_fingerprints a) (sha_256_fingerprints b),
      sha_512_fingerprints = combine_uniq (sha_512_fingerprints a) (sha_512_fingerprints b),
      expires = min_expires (expires a) (expires b)\<rparr>"

definition Posh_valid_cert :: "(bytes \<Rightarrow> bytes) \<Rightarrow> (bytes \<Rightarrow> bytes) \<Rightarrow> Posh \<Rightarrow> bytes \<Rightarrow> bool" where
  "Posh_valid_cert dig256 dig512 p cert \<longleftrightarrow>
     (sha_256_fingerprints p \<noteq> [] \<and> dig256 cert \<in> set (sha_256_fingerprints p))
     \<or> (sha_512_fingerprints p \<noteq> [] \<and> dig512 cert \<in> set (sha_512_fingerprints p))"

section \<open>Collecting\<close>

text \<open>The status of the second response, after a redirect, is not looked at.\<close>

definition collect_posh_service ::
    "(bytes \<Rightarrow> 'b response outcome) \<Rightarrow> ('b \<Rightarrow> PoshJson outcome) \<Rightarrow> bytes \<Rightarrow> bytes \<Rightarrow> Posh outcome"
where
  "collect_posh_service https_get posh_json domain service_name =
     bind_ok (https_get (''https://'' @ domain @ ''/.well-known/posh/'' @ service_name @ ''.json'')) (\<lambda>resp.
       if is_success resp then
         bind_ok (posh_json (body resp)) (\<lambda>j.
           case j of
             PoshFingerprints fingerprints e \<Rightarrow> Posh_new fingerprints e
           | PoshRedirect url e \<Rightarrow>
               bind_ok (https_get url) (\<lambda>resp.
                 bind_ok (posh_json (body resp)) (\<lambda>j.
                   case j of
                     PoshRedirect url2 e2 \<Rightarrow> Err PoshIllegalRedirect
                   | PoshFingerprints fingerprints e2 \<Rightarrow> Posh_new fingerprints (min_expires e e2))))
       else Err (BadStatus (status resp)))"

definition collect_posh ::
    "(bytes \<Rightarrow> 'b response outcome) \<Rightarrow> ('b \<Rightarrow> PoshJson outcome) \<Rightarrow> bytes \<Rightarrow> Posh outcome"
where
  "collect_posh https_get posh_json domain =
     (let client = collect_posh_service https_get posh_json domain ''xmpp-client'';
          server = collect_posh_service https_get posh_json domain ''xmpp-server''
      in case (client, server) of
           (Ok c, Ok s) \<Rightarrow> Ok (Posh_append c s)
         | (_, Ok s) \<Rightarrow> Ok s
         | (c, _) \<Rightarrow> c)"

section \<open>What the operations do\<close>

lemma dedup_from_set: "(\<And>a b. eq a b \<longleftrightarrow> a = b) \<Longrightarrow> set (dedup_from eq x xs) = insert x (set xs)"
  by (induction xs arbitrary: x) auto

lemma combine_uniq_set [simp]: "set (combine_uniq a b) = set a \<union> set b"
proof -
  have "set (dedup (=) xs) = set xs" for xs :: "bytes list"
    by (cases xs) (simp_all add: dedup_from_set)
  then show ?thesis by (simp add: combine_uniq_def sort_by_set)
qed

lemma sorted_map_pair: "sorted xs \<Longrightarrow> sorted (map (\<lambda>x. (x, ())) xs)"
  by (induction xs) (auto simp: less_eq_prod_def le_less)

lemma combine_uniq_sorted: "sorted (combine_uniq a b) \<and> distinct (combine_uniq a b)"
proof -
  let ?s = "sort_by cmp_of (a @ b)"
  have "sorted_wrt (\<lambda>x y. cmp_of x y \<noteq> Greater) ?s"
    by (rule keyed.sort_by_leq [of "\<lambda>x. x"]) simp_all
  then have s: "sorted ?s" by (simp add: not_less)
  have k: "sorted (map (\<lambda>x. (x, ())) ?s)"
    by (rule sorted_map_pair [OF s])
  show ?thesis
  proof (cases ?s)
    case (Cons x xs)
    with k dedup_from_spec [of "\<lambda>x. (x, ())" x xs "(=)"] show ?thesis
      by (simp add: combine_uniq_def o_def)
  qed (simp add: combine_uniq_def)
qed

lemma Posh_valid_cert_iff [simp]:
  "Posh_valid_cert dig256 dig512 p cert \<longleftrightarrow>
     dig256 cert \<in> set (sha_256_fingerprints p) \<or> dig512 cert \<in> set (sha_512_fingerprints p)"
  by (auto simp: Posh_valid_cert_def)

lemma append_valid:
  "Posh_valid_cert d1 d2 (Posh_append a b) cert
     \<longleftrightarrow> Posh_valid_cert d1 d2 a cert \<or> Posh_valid_cert d1 d2 b cert"
  by (auto simp: Posh_append_def)

lemma push_fingerprints_set:
  "push_fingerprints fs x y = (a, b) \<Longrightarrow>
     set a = set x \<union> {h. \<exists>f\<in>set fs. sha_256 f = Some h} \<and> set b = set y \<union> {h. \<exists>f\<in>set fs. sha_512 f = Some h}"
  by (induction fs x y rule: push_fingerprints.induct) (auto split: option.splits)

lemma Posh_new_Ok:
  "Posh_new fs e = Ok p \<longleftrightarrow> e \<noteq> 0 \<and> expires p = e
     \<and> (sha_256_fingerprints p, sha_512_fingerprints p) = push_fingerprints fs [] []"
  by (cases p) (auto simp: Posh_new_def split: prod.splits)

lemma Posh_new_valid:
  assumes "Posh_new fs e = Ok p"
  shows "Posh_valid_cert d1 d2 p cert
    \<longleftrightarrow> (\<exists>f\<in>set fs. sha_256 f = Some (d1 cert) \<or> sha_512 f = Some (d2 cert))"
proof -
  from assms have "push_fingerprints fs [] [] = (sha_256_fingerprints p, sha_512_fingerprints p)"
    by (simp add: Posh_new_Ok)
  from push_fingerprints_set [OF this] show ?thesis by auto
qed

lemma Posh_new_no_panic: "Posh_new fs e \<noteq> Panic"
  by (simp add: Posh_new_def split: prod.splits)

lemma min_expires_le: "min_expires a b \<le> a \<and> min_expires a b \<le> b"
  by (auto simp: min_expires_def)

lemma collect_service_Ok:
  assumes "collect_posh_service https_get posh_json domain service = Ok p"
  shows "\<exists>fs e. Posh_new fs e = Ok p \<and>
    (\<exists>r. https_get (''https://'' @ domain @ ''/.well-known/posh/'' @ service @ ''.json'') = Ok r \<and> is_success r
       \<and> (posh_json (body r) = Ok (PoshFingerprints fs e)
          \<or> (\<exists>url e1 e2 r2. posh_json (body r) = Ok (PoshRedirect url e1) \<and> https_get url = Ok r2
              \<and> posh_json (body r2) = Ok (PoshFingerprints fs e2) \<and> e = min_expires e1 e2)))"
proof -
  from assms obtain r j where r: "https_get (''https://'' @ domain @ ''/.well-known/posh/'' @ service @ ''.json'') = Ok r"
      "is_success r" and j: "posh_json (body r) = Ok j"
    and k: "(case j of PoshFingerprints fs e \<Rightarrow> Posh_new fs e
       | PoshRedirect url e \<Rightarrow> bind_ok (https_get url) (\<lambda>resp. bind_ok (posh_json (body resp)) (\<lambda>j.
           case j of PoshRedirect url2 e2 \<Rightarrow> Err PoshIllegalRedirect
           | PoshFingerprints fs e2 \<Rightarrow> Posh_new fs (min_expires e e2)))) = Ok p"
    by (auto simp: collect_posh_service_def bind_ok_Ok_iff split: if_splits)
  show ?thesis
  proof (cases j)
    case (PoshFingerprints fs e)
    with r j k show ?thesis by auto
  next
    case (PoshRedirect url e1)
    with k obtain r2 j2 where r2: "https_get url = Ok r2" "posh_json (body r2) = Ok j2"
      and k2: "(case j2 of PoshRedirect url2 e2 \<Rightarrow> Err PoshIllegalRedirect
           | PoshFingerprints fs e2 \<Rightarrow> Posh_new fs (min_expires e1 e2)) = Ok p"
      by (auto simp: bind_ok_Ok_iff)
    then obtain fs e2 where "j2 = PoshFingerprints fs e2" "Posh_new fs (min_expires e1 e2) = Ok p"
      by (cases j2) auto
    with r j r2 PoshRedirect show ?thesis by blast
  qed
qed

section \<open>Properties\<close>

text \<open>C27: a certificate is accepted by the fingerprints collected for a domain exactly when it
  is accepted by those of one of its two services that could be collected; these expire no
  later than either, and collecting fails only when both services fail.\<close>

theorem collect_posh_merges:
  assumes "client = collect_posh_service https_get posh_json domain ''xmpp-client''"
    and "server = collect_posh_service https_get posh_json domain ''xmpp-server''"
    and "client \<noteq> Panic" and "server \<noteq> Panic"
  shows "(case collect_posh https_get posh_json domain of
       Ok p \<Rightarrow> (Posh_valid_cert d1 d2 p cert \<longleftrightarrow>
             (\<exists>q. (client = Ok q \<or> server = Ok q) \<and> Posh_valid_cert d1 d2 q cert))
         \<and> (\<forall>q. client = Ok q \<or> server = Ok q \<longrightarrow> expires p \<le> expires q)
     | Err e \<Rightarrow> (\<nexists>q. client = Ok q \<or> server = Ok q)
     | Panic \<Rightarrow> False)"
  using assms(3,4)
  by (cases client; cases server)
    (auto simp: collect_posh_def Let_def append_valid min_expires_le Posh_append_def
       simp flip: assms(1,2))

text \<open>The fingerprints of a service come from its own URL or, through at most one redirect,
  from the URL named there, and they are the ones listed, with the lesser of the two
  expirations, which is never zero.\<close>

theorem collect_posh_service_sound:
  assumes "collect_posh_service https_get posh_json domain service = Ok p"
  shows "expires p \<noteq> 0 \<and> (\<exists>r fs e.
      https_get (''https://'' @ domain @ ''/.well-known/posh/'' @ service @ ''.json'') = Ok r \<and> is_success r
      \<and> (\<forall>d1 d2 cert. Posh_valid_cert d1 d2 p cert
           \<longleftrightarrow> (\<exists>f\<in>set fs. sha_256 f = Some (d1 cert) \<or> sha_512 f = Some (d2 cert)))
      \<and> (posh_json (body r) = Ok (PoshFingerprints fs e) \<and> expires p = e
         \<or> (\<exists>url e1 r2. posh_json (body r) = Ok (PoshRedirect url e1) \<and> https_get url = Ok r2
              \<and> posh_json (body r2) = Ok (PoshFingerprints fs e) \<and> expires p = min_expires e1 e)))"
proof -
  from collect_service_Ok [OF assms] obtain fs e r where n: "Posh_new fs e = Ok p"
    and r: "https_get (''https://'' @ domain @ ''/.well-known/posh/'' @ service @ ''.json'') = Ok r" "is_success r"
    and j: "posh_json (body r) = Ok (PoshFingerprints fs e)
          \<or> (\<exists>url e1 e2 r2. posh_json (body r) = Ok (PoshRedirect url e1) \<and> https_get url = Ok r2
              \<and> posh_json (body r2) = Ok (PoshFingerprints fs e2) \<and> e = min_expires e1 e2)" by blast
  from n have x: "expires p = e" "e \<noteq> 0" by (simp_all add: Posh_new_Ok)
  have v: "\<forall>d1 d2 cert. Posh_valid_cert d1 d2 p cert
      \<longleftrightarrow> (\<exists>f\<in>set fs. sha_256 f = Some (d1 cert) \<or> sha_512 f = Some (d2 cert))"
    using Posh_new_valid [OF n] by blast
  from j show ?thesis
  proof
    assume "posh_json (body r) = Ok (PoshFingerprints fs e)"
    with x r v show ?thesis by blast
  next
    assume "\<exists>url e1 e2 r2. posh_json (body r) = Ok (PoshRedirect url e1) \<and> https_get url = Ok r2
              \<and> posh_json (body r2) = Ok (PoshFingerprints fs e2) \<and> e = min_expires e1 e2"
    with x r v show ?thesis by blast
  qed
qed

text \<open>A server with one service, behind a redirect.\<close>

definition example_https :: "bytes \<Rightarrow> bytes response outcome" where
  "example_https url =
     (if url = ''https://a/.well-known/posh/xmpp-server.json'' then Ok \<lparr>status = 200, body = ''redirect''\<rparr>
      else if url = ''https://b/'' then Ok \<lparr>status = 200, body = ''prints''\<rparr>
      else Err IoError)"

definition example_json :: "bytes \<Rightarrow> PoshJson outcome" where
  "example_json b =
     (if b = ''redirect'' then Ok (PoshRedirect ''https://b/'' 60)
      else Ok (PoshFingerprints [\<lparr>sha_256 = Some ''f'', sha_512 = None\<rparr>] 86400))"

lemma collect_posh_service_sound_witness:
  "expires \<lparr>sha_256_fingerprints = [''f''], sha_512_fingerprints = [], expires = 60\<rparr> \<noteq> 0"
proof -
  have "collect_posh_service example_https example_json ''a'' ''xmpp-server''
      = Ok \<lparr>sha_256_fingerprints = [''f''], sha_512_fingerprints = [], expires = 60\<rparr>" by code_simp
  from collect_posh_service_sound [OF this] show ?thesis by blast
qed

lemma collect_posh_merges_witness:
  "case collect_posh example_https example_json ''a'' of
       Ok p \<Rightarrow> (Posh_valid_cert id id p ''f'' \<longleftrightarrow>
             (\<exists>q. (collect_posh_service example_https example_json ''a'' ''xmpp-client'' = Ok q
                  \<or> collect_posh_service example_https example_json ''a'' ''xmpp-server'' = Ok q) \<and> Posh_valid_cert id id q ''f''))
         \<and> (\<forall>q. collect_posh_service example_https example_json ''a'' ''xmpp-client'' = Ok q
                \<or> collect_posh_service example_https example_json ''a'' ''xmpp-server'' = Ok q \<longrightarrow> expires p \<le> expires q)
     | Err e \<Rightarrow> (\<nexists>q. collect_posh_service example_https example_json ''a'' ''xmpp-client'' = Ok q
                  \<or> collect_posh_service example_https example_json ''a'' ''xmpp-server'' = Ok q)
     | Panic \<Rightarrow> False"
proof -
  have "collect_posh_service example_https example_json ''a'' ''xmpp-client'' = Err IoError"
    and "collect_posh_service example_https example_json ''a'' ''xmpp-server''
      = Ok \<lparr>sha_256_fingerprints = [''f''], sha_512_fingerprints = [], expires = 60\<rparr>" by code_simp+
  then show ?thesis by (intro collect_posh_merges [OF refl refl]) simp_all
qed

end
