(* ===== verification/Verify.thy ===== *)
theory Verify
  imports Posh_Fingerprints
begin

text \<open>
  Model of \<open>src/verify.rs\<close>: what is accepted as the certificate of the other server.

  The certificate library is a parameter: a record of the operations that are called, on
  certificates in DER, with \<open>'n\<close> the type of server names and \<open>'t\<close> that of times.
\<close>

section \<open>Errors\<close>

datatype webpki_error =
    BadDer
  | BadDerTime
  | InvalidSignatureForPublicKey
  | UnsupportedSignatureAlgorithm
  | UnsupportedSignatureAlgorithmForPublicKey
  | OtherWebpkiError

fun pki_error :: "webpki_error \<Rightarrow> error" where
  "pki_error BadDer = BadEncoding"
| "pki_error BadDerTime = BadEncoding"
| "pki_error InvalidSignatureForPublicKey = BadSignature"
| "pki_error UnsupportedSignatureAlgorithm = BadSignature"
| "pki_error UnsupportedSignatureAlgorithmForPublicKey = BadSignature"
| "pki_error OtherWebpkiError = GeneralTlsError"

definition map_pki_err :: "webpki_error + 'a \<Rightarrow> 'a outcome" where
  "map_pki_err r = (case r of Inl e \<Rightarrow> Err (pki_error e) | Inr x \<Rightarrow> Ok x)"

section \<open>Verifiers\<close>

record ('n, 't) webpki =
  ee_try_from :: "bytes \<Rightarrow> webpki_error + unit"
  verify_for_usage :: "bytes \<Rightarrow> bytes list \<Rightarrow> 't \<Rightarrow> webpki_error + unit"
  valid_for_subject_name :: "bytes \<Rightarrow> 'n \<Rightarrow> bool"
  spki_of_trusted_cert :: "bytes \<Rightarrow> webpki_error + bytes"

text \<open>The certificate that \<open>verify_is_valid_tls_server_cert\<close> returns is its argument, parsed.\<close>

definition verify_is_valid_tls_server_cert ::
    "('n, 't) webpki \<Rightarrow> bytes \<Rightarrow> bytes list \<Rightarrow> 't \<Rightarrow> bytes outcome"
where
  "verify_is_valid_tls_server_cert lib end_entity intermediates now =
     bind_ok (map_pki_err (ee_try_from lib end_entity)) (\<lambda>u.
       bind_ok (map_pki_err (verify_for_usage lib end_entity intermediates now)) (\<lambda>u.
         Ok end_entity))"

record 'n XmppServerCertVerifier =
  names :: "'n list"
  posh :: "Posh option"
  sha256_pinnedpubkeys :: "bytes list"

text \<open>Client certificates are asked for, and any is accepted during the handshake.\<close>

definition offer_client_auth :: bool where
  "offer_client_auth = True"

definition client_auth_mandatory :: bool where
  "client_auth_mandatory = False"

definition verify_client_cert :: "bytes \<Rightarrow> bytes list \<Rightarrow> 't \<Rightarrow> unit outcome" where
  "verify_client_cert end_entity intermediates now = Ok ()"

definition root_hint_subjects :: "bytes list" where
  "root_hint_subjects = []"

text \<open>The four bytes put in front of the public key information before it is hashed.\<close>

definition pubkey_of :: "bytes \<Rightarrow> bytes" where
  "pubkey_of spki = map char_of [48 :: nat, 130, 1, 34] @ spki"

fun first_valid_name :: "('n \<Rightarrow> bool) \<Rightarrow> 'n list \<Rightarrow> unit outcome" where
  "first_valid_name valid [] = Err AllValidationFailed"
| "first_valid_name valid (name # ns) = (if valid name then Ok () else first_valid_name valid ns)"

definition verify_cert ::
    "('n, 't) webpki \<Rightarrow> (bytes \<Rightarrow> bytes) \<Rightarrow> (bytes \<Rightarrow> bytes) \<Rightarrow> 'n XmppServerCertVerifier
      \<Rightarrow> bytes \<Rightarrow> bytes list \<Rightarrow> 't \<Rightarrow> unit outcome"
where
  "verify_cert lib dig256 dig512 v end_entity intermediates now =
     (let rest =
        (if case posh v of Some p \<Rightarrow> Posh_valid_cert dig256 dig512 p end_entity | None \<Rightarrow> False
         then Ok ()
         else bind_ok (verify_is_valid_tls_server_cert lib end_entity intermediates now) (\<lambda>cert.
                first_valid_name (valid_for_subject_name lib cert) (names v)))
      in if sha256_pinnedpubkeys v \<noteq> [] then
           bind_ok (map_pki_err (spki_of_trusted_cert lib end_entity)) (\<lambda>spki.
             if dig256 (pubkey_of spki) \<in> set (sha256_pinnedpubkeys v) then Ok () else rest)
         else rest)"

text \<open>What the library asks: the name it connected under and the OCSP response are not looked at.\<close>

definition verify_server_cert ::
    "('n, 't) webpki \<Rightarrow> (bytes \<Rightarrow> bytes) \<Rightarrow> (bytes \<Rightarrow> bytes) \<Rightarrow> 'n XmppServerCertVerifier
      \<Rightarrow> bytes \<Rightarrow> bytes list \<Rightarrow> 'n \<Rightarrow> bytes \<Rightarrow> 't \<Rightarrow> unit outcome"
where
  "verify_server_cert lib dig256 dig512 v end_entity intermediates server_name ocsp_response now =
     verify_cert lib dig256 dig512 v end_entity intermediates now"

section \<open>What is accepted\<close>

lemma map_pki_err_iff [outcome_simps]:
  "map_pki_err r = Ok x \<longleftrightarrow> r = Inr x" "map_pki_err r \<noteq> Panic"
  by (auto simp: map_pki_err_def split: sum.splits)

lemma first_valid_name_iff: "first_valid_name valid ns = Ok u \<longleftrightarrow> (\<exists>n\<in>set ns. valid n)"
  by (induction ns) auto

lemma first_valid_name_no_panic: "first_valid_name valid ns \<noteq> Panic"
  by (induction ns) auto

definition ca_valid :: "('n, 't) webpki \<Rightarrow> bytes \<Rightarrow> bytes list \<Rightarrow> 't \<Rightarrow> bool" where
  "ca_valid lib cert chain now \<longleftrightarrow>
     ee_try_from lib cert = Inr () \<and> verify_for_usage lib cert chain now = Inr ()"

lemma verify_tls_server_cert_Ok:
  "verify_is_valid_tls_server_cert lib cert chain now = Ok c \<longleftrightarrow> c = cert \<and> ca_valid lib cert chain now"
  by (auto simp: verify_is_valid_tls_server_cert_def ca_valid_def outcome_simps)

lemma verify_tls_server_cert_no_panic: "verify_is_valid_tls_server_cert lib cert chain now \<noteq> Panic"
  by (auto simp: verify_is_valid_tls_server_cert_def outcome_simps)

section \<open>Properties\<close>

text \<open>C6: a server certificate is accepted exactly when its public key is pinned, or its
  fingerprint is published through POSH, or it chains to a trusted authority and is valid
  for one of the verifier's names; when there are pins it must also be a certificate the
  library can read.  Verification never panics.\<close>

theorem verify_cert_accepts_iff:
  shows "(verify_cert lib dig256 dig512 v cert chain now = Ok () \<longleftrightarrow>
      (if sha256_pinnedpubkeys v = [] then False
       else \<exists>spki. spki_of_trusted_cert lib cert = Inr spki \<and> dig256 (pubkey_of spki) \<in> set (sha256_pinnedpubkeys v))
      \<or> ((sha256_pinnedpubkeys v = [] \<or> (\<exists>spki. spki_of_trusted_cert lib cert = Inr spki))
         \<and> ((\<exists>p. posh v = Some p \<and> Posh_valid_cert dig256 dig512 p cert)
            \<or> (ca_valid lib cert chain now \<and> (\<exists>n\<in>set (names v). valid_for_subject_name lib cert n)))))
    \<and> verify_cert lib dig256 dig512 v cert chain now \<noteq> Panic"
proof -
  define rest where "rest =
        (if case posh v of Some p \<Rightarrow> Posh_valid_cert dig256 dig512 p cert | None \<Rightarrow> False
         then Ok ()
         else bind_ok (verify_is_valid_tls_server_cert lib cert chain now) (\<lambda>cert.
                first_valid_name (valid_for_subject_name lib cert) (names v)))"
  have r: "rest = Ok () \<longleftrightarrow> (\<exists>p. posh v = Some p \<and> Posh_valid_cert dig256 dig512 p cert)
            \<or> (ca_valid lib cert chain now \<and> (\<exists>n\<in>set (names v). valid_for_subject_name lib cert n))"
    by (auto simp: rest_def outcome_simps verify_tls_server_cert_Ok first_valid_name_iff split: option.splits)
  have np: "rest \<noteq> Panic"
    by (auto simp: rest_def outcome_simps verify_tls_server_cert_no_panic first_valid_name_no_panic)
  have "verify_cert lib dig256 dig512 v cert chain now =
      (if sha256_pinnedpubkeys v \<noteq> [] then
           bind_ok (map_pki_err (spki_of_trusted_cert lib cert)) (\<lambda>spki.
             if dig256 (pubkey_of spki) \<in> set (sha256_pinnedpubkeys v) then Ok () else rest)
         else rest)"
    by (simp only: verify_cert_def rest_def Let_def)
  then show ?thesis using r np by (auto simp: outcome_simps split: if_splits)
qed

end
