(* ===== verification/Slices.thy ===== *)
theory Slices
  imports Prelude
begin

text \<open>
  Model of \<open>src/slicesubsequence.rs\<close>: searching a slice for a subsequence, and the
  three operations built on the search.  Slices are lists; a \<open>Result<usize>\<close> is an
  \<^typ>\<open>nat outcome\<close>.
\<close>

section \<open>The operations\<close>

text \<open>
  \<open>last_index_of\<close>: the length of the longest prefix whose elements all occur in the
  needle.  The loop's counter is the second argument of the recursion.
\<close>

fun last_index_of_loop :: "'a list \<Rightarrow> nat \<Rightarrow> 'a list \<Rightarrow> nat" where
  "last_index_of_loop needle len [] = len"
| "last_index_of_loop needle len (i # s) =
     (if i \<in> set needle then last_index_of_loop needle (len + 1) s else len)"

definition last_index_of :: "'a list \<Rightarrow> 'a list \<Rightarrow> nat" where
  "last_index_of s needle = last_index_of_loop needle 0 s"

definition trim_start :: "'a list \<Rightarrow> 'a list \<Rightarrow> 'a list" where
  "trim_start s needle = drop (last_index_of s needle) s"

text \<open>
  \<open>first_index_of\<close>: the loop over the candidate positions, in order, with the early
  return at the first match.
\<close>

fun first_index_of_loop :: "'a list \<Rightarrow> 'a list \<Rightarrow> nat list \<Rightarrow> nat outcome" where
  "first_index_of_loop s needle [] = Err NotFound"
| "first_index_of_loop s needle (i # is) =
     (if take (length needle) (drop i s) = needle then Ok i
      else first_index_of_loop s needle is)"

definition first_index_of :: "'a list \<Rightarrow> 'a list \<Rightarrow> nat outcome" where
  "first_index_of s needle =
     (if length needle \<le> length s
      then first_index_of_loop s needle [0..<length s - length needle + 1]
      else Err NotFound)"

definition contains_seq :: "'a list \<Rightarrow> 'a list \<Rightarrow> bool" where
  "contains_seq s needle = is_ok (first_index_of s needle)"

definition replace_first :: "'a list \<Rightarrow> 'a list \<Rightarrow> 'a list \<Rightarrow> 'a list" where
  "replace_first s needle replacement =
     (case first_index_of s needle of
        Ok idx \<Rightarrow>
          (let second = drop (idx + length needle) s
           in take idx s @ replacement @ second)
      | Err e \<Rightarrow> s
      | Panic \<Rightarrow> s)"

text \<open>
  \<open>extract_between\<close>: the end of the returned slice is
  \<open>first_index_of(after)? + after.len() - 1\<close>, a \<open>usize\<close> expression that underflows,
  and so panics, for an empty \<open>after\<close> found at position 0.
\<close>

definition extract_between :: "'a list \<Rightarrow> 'a list \<Rightarrow> 'a list \<Rightarrow> 'a list outcome" where
  "extract_between s before after =
     bind_ok (first_index_of s before) (\<lambda>i.
       let first = drop (i + length before) s in
       bind_ok (first_index_of first after) (\<lambda>j.
         if j + length after = 0 then Panic
         else Ok (take (j + length after - 1) first)))"

section \<open>The interface of a leftmost search\<close>

text \<open>
  What the rest of the program relies on: the search returns the least position at which
  the needle occurs, and fails exactly when there is none.
\<close>

locale leftmost_search =
  fixes find :: "'a list \<Rightarrow> 'a list \<Rightarrow> nat outcome"
  assumes find_ok: "find s n = Ok i \<Longrightarrow> i + length n \<le> length s \<and> take (length n) (drop i s) = n"
    and find_least: "find s n = Ok i \<Longrightarrow> j < i \<Longrightarrow> take (length n) (drop j s) \<noteq> n"
    and find_err: "find s n = Err e \<Longrightarrow> \<not> sublist n s"
    and find_no_panic: "find s n \<noteq> Panic"
begin

lemma found_iff_sublist: "(\<exists>i. find s n = Ok i) \<longleftrightarrow> sublist n s"
proof
  assume "\<exists>i. find s n = Ok i"
  then obtain i where "find s n = Ok i" ..
  from find_ok [OF this] show "sublist n s" by (auto simp: sublist_at_iff)
next
  assume "sublist n s"
  then show "\<exists>i. find s n = Ok i"
    using find_err find_no_panic by (cases "find s n") auto
qed

lemma found_split:
  assumes "find s n = Ok i"
  shows "s = take i s @ n @ drop (i + length n) s"
  using find_ok [OF assms]
  by (metis append_take_drop_id add.commute drop_drop)

lemma find_eqI:
  assumes "s = p @ n @ q"
    and "\<And>j. j < length p \<Longrightarrow> take (length n) (drop j s) \<noteq> n"
  shows "find s n = Ok (length p)"
proof -
  have sub: "sublist n s" using assms(1) by (auto simp: sublist_def)
  then obtain i where i: "find s n = Ok i" using found_iff_sublist by blast
  have at: "take (length n) (drop (length p) s) = n" using assms(1) by simp
  have "\<not> length p < i" using find_least [OF i] at by blast
  moreover have "\<not> i < length p" using assms(2) find_ok [OF i] by blast
  ultimately show ?thesis using i by simp
qed

text \<open>A needle that starts with an element absent from what precedes it.\<close>

lemma find_fresh_head:
  assumes "s = p @ (c # n) @ q" and "c \<notin> set p"
  shows "find s (c # n) = Ok (length p)"
proof (rule find_eqI [OF assms(1)])
  fix j assume j: "j < length p"
  have "drop j s ! 0 = p ! j" using assms(1) j by (simp add: nth_append)
  moreover have "p ! j \<noteq> c" using assms(2) j by (metis nth_mem)
  moreover have "drop j s \<noteq> []" using assms(1) j by simp
  ultimately show "take (length (c # n)) (drop j s) \<noteq> c # n"
    by (cases "drop j s") auto
qed

lemma find_single:
  assumes "c \<notin> set p"
  shows "find (p @ c # q) [c] = Ok (length p)"
  by (rule find_fresh_head [of _ p c "[]" q]) (use assms in simp_all)

lemma find_single_least:
  assumes "find s [c] = Ok i"
  shows "i < length s \<and> s ! i = c \<and> c \<notin> set (take i s)"
proof -
  from find_ok [OF assms] have i: "i < length s" and at: "take (Suc 0) (drop i s) = [c]"
    by simp_all
  have "s ! i = c" using at i by (simp add: Cons_nth_drop_Suc [symmetric])
  moreover have "c \<notin> set (take i s)"
  proof
    assume "c \<in> set (take i s)"
    then obtain j where j: "j < i" and "s ! j = c" using i by (auto simp: in_set_conv_nth)
    moreover have "take (Suc 0) (drop j s) = [s ! j]" using i j
      by (simp add: Cons_nth_drop_Suc [symmetric])
    ultimately show False using find_least [OF assms j] by simp
  qed
  ultimately show ?thesis using i by simp
qed

end

section \<open>The search is a leftmost search\<close>

lemma first_index_of_loop_Ok:
  assumes "first_index_of_loop s n is = Ok i"
  shows "\<exists>p q. is = p @ i # q \<and> take (length n) (drop i s) = n
               \<and> (\<forall>j\<in>set p. take (length n) (drop j s) \<noteq> n)"
  using assms
proof (induction "is")
  case Nil
  then show ?case by simp
next
  case (Cons k ks)
  show ?case
  proof (cases "take (length n) (drop k s) = n")
    case True
    with Cons.prems have "i = k" by simp
    with True show ?thesis by (intro exI [of _ "[]"] exI [of _ ks]) simp
  next
    case False
    with Cons.prems have "first_index_of_loop s n ks = Ok i" by simp
    from Cons.IH [OF this] obtain p q where "ks = p @ i # q"
      and "take (length n) (drop i s) = n"
      and "\<forall>j\<in>set p. take (length n) (drop j s) \<noteq> n" by blast
    with False show ?thesis by (intro exI [of _ "k # p"] exI [of _ q]) simp
  qed
qed

lemma first_index_of_loop_Err:
  "first_index_of_loop s n is = Err e \<Longrightarrow> j \<in> set is \<Longrightarrow> take (length n) (drop j s) \<noteq> n"
  by (induction "is") (auto split: if_splits)

lemma first_index_of_loop_no_panic: "first_index_of_loop s n is \<noteq> Panic"
  by (induction "is") auto

lemma upt_split_less:
  assumes "[a..<b] = p @ i # q"
  shows "set p = {a..<i} \<and> i < b"
proof -
  have "i = [a..<b] ! length p" and lp: "length p < b - a"
    using assms by (metis nth_append_length, metis add_Suc_right length_Cons length_append
        length_upt less_add_Suc1)
  then have i: "i = a + length p" by simp
  have "p = take (length p) [a..<b]" using assms by simp
  also have "\<dots> = [a..<a + length p]" using lp by (simp add: take_upt)
  finally have "set p = {a..<i}" using i by (metis set_upt)
  with i lp show ?thesis by simp
qed

lemma first_index_of_Ok:
  assumes "first_index_of s n = Ok i"
  shows "i + length n \<le> length s" and "take (length n) (drop i s) = n"
    and "j < i \<Longrightarrow> take (length n) (drop j s) \<noteq> n"
proof -
  from assms have len: "length n \<le> length s"
    and loop: "first_index_of_loop s n [0..<length s - length n + 1] = Ok i"
    by (auto simp: first_index_of_def split: if_splits)
  from first_index_of_loop_Ok [OF loop] obtain p q
    where split: "[0..<length s - length n + 1] = p @ i # q"
      and at: "take (length n) (drop i s) = n"
      and before: "\<forall>j\<in>set p. take (length n) (drop j s) \<noteq> n" by blast
  from upt_split_less [OF split] have p: "set p = {0..<i}" and i: "i < length s - length n + 1"
    by simp_all
  from i len show "i + length n \<le> length s" by simp
  from at show "take (length n) (drop i s) = n" .
  from before p show "j < i \<Longrightarrow> take (length n) (drop j s) \<noteq> n" by simp
qed

lemma first_index_of_Err:
  assumes "first_index_of s n = Err e"
  shows "\<not> sublist n s"
proof
  assume "sublist n s"
  then obtain i where i: "i + length n \<le> length s" and at: "take (length n) (drop i s) = n"
    by (auto simp: sublist_at_iff)
  from i have "i \<in> set [0..<length s - length n + 1]" by (simp del: upt_Suc)
  moreover have "first_index_of_loop s n [0..<length s - length n + 1] = Err e"
    using assms i by (simp add: first_index_of_def)
  ultimately show False using first_index_of_loop_Err at by blast
qed

lemma first_index_of_no_panic: "first_index_of s n \<noteq> Panic"
  by (simp add: first_index_of_def first_index_of_loop_no_panic)

interpretation slice_find: leftmost_search first_index_of
  by unfold_locales
    (auto simp: first_index_of_Ok first_index_of_Err first_index_of_no_panic)

text \<open>
  A needle none of whose proper suffixes is one of its prefixes cannot start inside the text
  in front of it and end inside itself.
\<close>

definition borderless :: "'a list \<Rightarrow> bool" where
  "borderless n \<longleftrightarrow> (\<forall>d\<in>set [1..<length n]. drop d n \<noteq> take (length n - d) n)"

lemma find_borderless:
  assumes "borderless n" and "\<not> sublist n p"
  shows "first_index_of (p @ n @ q) n = Ok (length p)"
proof (rule slice_find.find_eqI [OF refl], rule notI)
  fix j assume j: "j < length p" and at: "take (length n) (drop j (p @ n @ q)) = n"
  show False
  proof (cases "j + length n \<le> length p")
    case True
    then have "take (length n) (drop j p) = n" using at by simp
    with True assms(2) show False by (auto simp: sublist_at_iff)
  next
    case False
    define d where "d = length p - j"
    have d: "1 \<le> d" "d < length n" using False j by (auto simp: d_def)
    have "n = take (length n) (drop j p @ n @ q)" using at j by simp
    also have "\<dots> = drop j p @ take (length n - d) n" using d by (simp add: d_def)
    finally have "drop d n = take (length n - d) n"
      by (metis append_eq_conv_conj d_def length_drop)
    with d assms(1) show False by (simp add: borderless_def)
  qed
qed

section \<open>What the operations compute\<close>

lemma contains_seq_sublist [slice_simps]: "contains_seq s n \<longleftrightarrow> sublist n s"
  by (simp add: contains_seq_def is_ok_iff slice_find.found_iff_sublist)

lemma last_index_of_loop_add: "last_index_of_loop n (k + m) s = k + last_index_of_loop n m s"
proof (induction s arbitrary: m)
  case Nil
  then show ?case by simp
next
  case (Cons x s)
  from Cons.IH [of "m + 1"] show ?case by (simp add: add.assoc)
qed

lemma last_index_of_Nil [slice_simps]: "last_index_of [] n = 0"
  by (simp add: last_index_of_def)

lemma last_index_of_Cons [slice_simps]:
  "last_index_of (x # s) n = (if x \<in> set n then Suc (last_index_of s n) else 0)"
  using last_index_of_loop_add [of n 1 0 s] by (simp add: last_index_of_def)

lemma last_index_of_takeWhile: "last_index_of s n = length (takeWhile (\<lambda>x. x \<in> set n) s)"
  by (induction s) (simp_all add: slice_simps)

lemma replace_first_miss: "\<not> sublist n s \<Longrightarrow> replace_first s n r = s"
  using slice_find.found_iff_sublist [of s n]
  by (cases "first_index_of s n") (auto simp: replace_first_def)

lemma replace_first_hit:
  assumes "first_index_of (p @ n @ q) n = Ok (length p)"
  shows "replace_first (p @ n @ q) n r = p @ r @ q"
  using assms by (simp add: replace_first_def)

lemma replace_first_fresh:
  assumes "c \<notin> set p"
  shows "replace_first (p @ (c # n) @ q) (c # n) r = p @ r @ q"
  by (rule replace_first_hit) (rule slice_find.find_fresh_head [OF refl assms])

lemma extract_between_no_panic: "after \<noteq> [] \<Longrightarrow> extract_between s before after \<noteq> Panic"
  by (auto simp: extract_between_def outcome_simps first_index_of_no_panic Let_def)

lemma extract_between_Ok_iff:
  "extract_between s before [c] = Ok x \<longleftrightarrow>
     (\<exists>p q. s = p @ before @ x @ c # q \<and> c \<notin> set x \<and> first_index_of s before = Ok (length p))"
proof
  assume "extract_between s before [c] = Ok x"
  then obtain i j where i: "first_index_of s before = Ok i"
    and j: "first_index_of (drop (i + length before) s) [c] = Ok j"
    and x: "x = take j (drop (i + length before) s)"
    by (auto simp: extract_between_def outcome_simps Let_def split: if_splits)
  let ?f = "drop (i + length before) s"
  define r where "r = drop (Suc j) ?f"
  from slice_find.find_single_least [OF j]
  have f: "?f = x @ c # r" and c: "c \<notin> set x"
    using x id_take_nth_drop [of j ?f] by (auto simp: r_def)
  have len: "length (take i s) = i" using first_index_of_Ok(1) [OF i] by simp
  have "s = take i s @ before @ x @ c # r"
    using slice_find.found_split [OF i] by (simp only: f)
  with c i len show "\<exists>p q. s = p @ before @ x @ c # q \<and> c \<notin> set x
      \<and> first_index_of s before = Ok (length p)" by metis
next
  assume "\<exists>p q. s = p @ before @ x @ c # q \<and> c \<notin> set x
      \<and> first_index_of s before = Ok (length p)"
  then obtain p q where s: "s = p @ before @ x @ c # q" and c: "c \<notin> set x"
    and i: "first_index_of s before = Ok (length p)" by blast
  from s have "drop (length p + length before) s = x @ c # q" by simp
  with i slice_find.find_single [OF c, of q] show "extract_between s before [c] = Ok x"
    by (simp add: extract_between_def)
qed

end
