(* ===== verification/Stanza_Filter.thy ===== *)
theory Stanza_Filter
  imports Slices
begin

text \<open>
  Model of \<open>src/stanzafilter.rs\<close>: the byte-at-a-time recogniser that cuts a stream into
  stanzas without an XML parser, its buffer, and the two reader loops over it.

  The buffer is a list of \<open>buf_size\<close> bytes, written in place at \<open>cnt\<close>, so bytes of
  earlier stanzas stay behind the current one exactly as in the source.  Indices are
  natural numbers: they are bounded by the length of a vector (and that plus 7), far
  below the range of \<open>usize\<close>.
\<close>

section \<open>State\<close>

datatype StanzaState =
    OutsideStanza
  | StanzaFirstChar
  | InsideTagFirstChar
  | InsideTag
  | InsideAttribute byte
  | BetweenTags
  | ExclamationTag nat
  | InsideCDATA
  | QuestionTag nat
  | InsideXmlTag
  | EndStream

record StanzaFilter =
  buf_size :: nat
  buf :: bytes
  end_of_first_tag :: nat
  cnt :: nat
  tag_cnt :: nat
  state :: StanzaState

definition checked_sub :: "nat \<Rightarrow> nat \<Rightarrow> nat outcome" where
  "checked_sub i s = (if s > i then Err InvalidStanza else Ok (i - s))"

definition StanzaFilter_new :: "nat \<Rightarrow> StanzaFilter" where
  "StanzaFilter_new n =
     \<lparr>buf_size = n, buf = replicate n (CHR 0x00), end_of_first_tag = 0, cnt = 0,
      tag_cnt = 0, state = OutsideStanza\<rparr>"

section \<open>One byte\<close>

text \<open>
  Every operation returns its result together with the filter, whose fields may have
  changed before an error was raised.
\<close>

definition stanza_end :: "StanzaFilter \<Rightarrow> nat option outcome \<times> StanzaFilter" where
  "stanza_end f =
     (let ret = Ok (Some (cnt f + 1))
      in (ret, f\<lparr>tag_cnt := 0, cnt := 0, state := OutsideStanza\<rparr>))"

definition last_num_bytes :: "StanzaFilter \<Rightarrow> nat \<Rightarrow> bytes outcome" where
  "last_num_bytes f num =
     (if num = 0 then Panic else
      let num = num - 1 in
      if num \<le> cnt f then Ok (take (cnt f + 1 - (cnt f - num)) (drop (cnt f - num) (buf f)))
      else Err (ExpectedBytes num (cnt f + 1)))"

definition last_equals :: "StanzaFilter \<Rightarrow> bytes \<Rightarrow> bool outcome" where
  "last_equals f needle = bind_ok (last_num_bytes f (length needle)) (\<lambda>l. Ok (needle = l))"

text \<open>The message of an \<open>illegal stanza\<close> error quotes the stanza read so far.\<close>

definition illegal_stanza :: "StanzaFilter \<Rightarrow> nat option outcome \<times> StanzaFilter" where
  "illegal_stanza f = (Err (IllegalStanza (take (cnt f + 1) (buf f))), f)"

text \<open>The end of \<open>process_next_byte_idx\<close>, reached by every branch that does not return.\<close>

definition advance :: "StanzaFilter \<Rightarrow> nat option outcome \<times> StanzaFilter" where
  "advance f =
     (let f = f\<lparr>cnt := cnt f + 1\<rparr> in
      if cnt f = buf_size f then (Err (StanzaTooBig (buf f)), f) else (Ok None, f))"

text \<open>
  The branch of \<open>InsideTag\<close> for the byte that closes a tag, from the check for a
  self-closing tag on; \<open>self.buf[self.cnt - 1]\<close> panics for \<open>cnt\<close> = 0.
\<close>

definition stream_stream :: bytes where
  "stream_stream = ''<stream:stream ''"

definition tag_closed :: "StanzaFilter \<Rightarrow> nat option outcome \<times> StanzaFilter" where
  "tag_closed f =
     (if tag_cnt f = 0 then stanza_end f
      else if tag_cnt f = 1 \<and> 15 \<le> length (buf f) \<and> stream_stream = take 15 (buf f)
      then stanza_end f
      else advance (f\<lparr>state := BetweenTags\<rparr>))"

definition close_tag :: "StanzaFilter \<Rightarrow> nat option outcome \<times> StanzaFilter" where
  "close_tag f =
     (let f = (if end_of_first_tag f = 0 then f\<lparr>end_of_first_tag := cnt f\<rparr> else f) in
      if cnt f = 0 then (Panic, f)
      else if buf f ! (cnt f - 1) = CHR ''/''
      then (case checked_sub (tag_cnt f) 1 of
              Ok n \<Rightarrow> tag_closed (f\<lparr>tag_cnt := n\<rparr>)
            | Err e \<Rightarrow> (Err e, f)
            | Panic \<Rightarrow> (Panic, f))
      else tag_closed f)"

definition process_next_byte_idx :: "StanzaFilter \<Rightarrow> nat option outcome \<times> StanzaFilter" where
  "process_next_byte_idx f =
     (if \<not> cnt f < length (buf f) then (Panic, f) else
      let b = buf f ! cnt f in
      case state f of
        OutsideStanza \<Rightarrow>
          if b = CHR ''<'' then advance (f\<lparr>tag_cnt := tag_cnt f + 1, state := StanzaFirstChar\<rparr>)
          else (Ok None, f)
      | BetweenTags \<Rightarrow>
          if b = CHR ''<''
          then advance (f\<lparr>tag_cnt := tag_cnt f + 1, state := InsideTagFirstChar\<rparr>)
          else advance f
      | StanzaFirstChar \<Rightarrow>
          if b = CHR ''/'' then advance (f\<lparr>state := EndStream\<rparr>)
          else if b \<in> {CHR ''!'', CHR ''>'', CHR 0x27, CHR 0x22} then illegal_stanza f
          else if b = CHR ''?'' then advance (f\<lparr>state := QuestionTag (cnt f + 4)\<rparr>)
          else advance (f\<lparr>state := InsideTag\<rparr>)
      | InsideTagFirstChar \<Rightarrow>
          if b = CHR ''/'' then
            (case checked_sub (tag_cnt f) 2 of
               Ok n \<Rightarrow> advance (f\<lparr>tag_cnt := n\<rparr>)
             | Err e \<Rightarrow> (Err e, f)
             | Panic \<Rightarrow> (Panic, f))
          else if b = CHR ''!'' then advance (f\<lparr>state := ExclamationTag (cnt f + 7)\<rparr>)
          else if b \<in> {CHR ''?'', CHR ''>'', CHR 0x27, CHR 0x22} then illegal_stanza f
          else advance (f\<lparr>state := InsideTag\<rparr>)
      | InsideTag \<Rightarrow>
          if b = CHR ''>'' then close_tag f
          else if b \<in> {CHR 0x27, CHR 0x22} then advance (f\<lparr>state := InsideAttribute b\<rparr>)
          else advance f
      | InsideAttribute end \<Rightarrow>
          if b = end then advance (f\<lparr>state := InsideTag\<rparr>) else advance f
      | QuestionTag idx \<Rightarrow>
          if idx = cnt f then
            (case last_equals f ''xml '' of
               Ok True \<Rightarrow> advance (f\<lparr>state := InsideXmlTag\<rparr>)
             | Ok False \<Rightarrow> illegal_stanza f
             | Err e \<Rightarrow> (Err e, f)
             | Panic \<Rightarrow> (Panic, f))
          else advance f
      | InsideXmlTag \<Rightarrow>
          if b = CHR ''>'' then stanza_end f else advance f
      | ExclamationTag idx \<Rightarrow>
          if idx = cnt f then
            (case last_equals f ''[CDATA['' of
               Ok True \<Rightarrow>
                 (case checked_sub (tag_cnt f) 1 of
                    Ok n \<Rightarrow> advance (f\<lparr>state := InsideCDATA, tag_cnt := n\<rparr>)
                  | Err e \<Rightarrow> (Err e, f\<lparr>state := InsideCDATA\<rparr>)
                  | Panic \<Rightarrow> (Panic, f))
             | Ok False \<Rightarrow> illegal_stanza f
             | Err e \<Rightarrow> (Err e, f)
             | Panic \<Rightarrow> (Panic, f))
          else advance f
      | InsideCDATA \<Rightarrow>
          if b = CHR ''>'' then
            (case last_equals f '']]>'' of
               Ok True \<Rightarrow> advance (f\<lparr>state := BetweenTags\<rparr>)
             | Ok False \<Rightarrow> advance f
             | Err e \<Rightarrow> (Err e, f)
             | Panic \<Rightarrow> (Panic, f))
          else advance f
      | EndStream \<Rightarrow>
          if b = CHR ''>'' then
            (case last_equals f ''</stream:stream>'' of
               Ok True \<Rightarrow>
                 stanza_end (if end_of_first_tag f = 0 then f\<lparr>end_of_first_tag := cnt f\<rparr> else f)
             | Ok False \<Rightarrow> illegal_stanza f
             | Err e \<Rightarrow> (Err e, f)
             | Panic \<Rightarrow> (Panic, f))
          else advance f)"

text \<open>
  \<open>current_buf\<close> is the one-byte window the reader fills, at \<open>cnt\<close>; taking it panics
  when the window is not in the buffer.  \<open>feed\<close> is one turn of a reader loop that
  received a byte: the byte is written into the window and processed.
\<close>

definition current_buf :: "StanzaFilter \<Rightarrow> bytes outcome" where
  "current_buf f =
     (if cnt f + 1 \<le> length (buf f) then Ok (take 1 (drop (cnt f) (buf f))) else Panic)"

definition feed :: "StanzaFilter \<Rightarrow> byte \<Rightarrow> nat option outcome \<times> StanzaFilter" where
  "feed f b =
     (case current_buf f of
        Ok w \<Rightarrow> process_next_byte_idx (f\<lparr>buf := (buf f)[cnt f := b]\<rparr>)
      | Err e \<Rightarrow> (Err e, f)
      | Panic \<Rightarrow> (Panic, f))"

definition process_next_byte :: "StanzaFilter \<Rightarrow> bytes option outcome \<times> StanzaFilter" where
  "process_next_byte f =
     (case process_next_byte_idx f of
        (Ok (Some idx), f) \<Rightarrow> (Ok (Some (take idx (buf f))), f)
      | (Ok None, f) \<Rightarrow> (Ok None, f)
      | (Err e, f) \<Rightarrow> (Err e, f)
      | (Panic, f) \<Rightarrow> (Panic, f))"

section \<open>The reader loops\<close>

text \<open>
  A reader is the sequence of what its successive reads return: a byte, or an I/O error;
  the empty sequence is the end of the stream, where a read returns 0.  The window holds
  one byte, so a read returns at most one.
\<close>

datatype rd_event = RByte byte | RErr

type_synonym reader = "rd_event list"

fun next_loop :: "reader \<Rightarrow> StanzaFilter \<Rightarrow> nat option outcome \<times> reader \<times> StanzaFilter" where
  "next_loop [] f =
     (case current_buf f of
        Ok w \<Rightarrow> (Ok None, [], f)
      | Err e \<Rightarrow> (Err e, [], f)
      | Panic \<Rightarrow> (Panic, [], f))"
| "next_loop (RErr # rd) f =
     (case current_buf f of
        Ok w \<Rightarrow> (Err IoError, rd, f)
      | Err e \<Rightarrow> (Err e, RErr # rd, f)
      | Panic \<Rightarrow> (Panic, RErr # rd, f))"
| "next_loop (RByte b # rd) f =
     (case feed f b of
        (Ok None, f') \<Rightarrow> next_loop rd f'
      | (Ok (Some idx), f') \<Rightarrow> (Ok (Some idx), rd, f')
      | (Err e, f') \<Rightarrow> (Err e, rd, f')
      | (Panic, f') \<Rightarrow> (Panic, rd, f'))"

text \<open>\<open>StanzaReader::next\<close> and \<open>StanzaReader::next_eoft\<close>.\<close>

definition reader_next :: "reader \<Rightarrow> StanzaFilter \<Rightarrow> bytes option outcome \<times> reader \<times> StanzaFilter" where
  "reader_next rd f =
     (case next_loop rd f of
        (Ok (Some idx), rd', f') \<Rightarrow> (Ok (Some (take idx (buf f'))), rd', f')
      | (Ok None, rd', f') \<Rightarrow> (Ok None, rd', f')
      | (Err e, rd', f') \<Rightarrow> (Err e, rd', f')
      | (Panic, rd', f') \<Rightarrow> (Panic, rd', f'))"

definition reader_next_eoft ::
    "reader \<Rightarrow> StanzaFilter \<Rightarrow> (bytes \<times> nat) option outcome \<times> reader \<times> StanzaFilter" where
  "reader_next_eoft rd f =
     (case next_loop rd f of
        (Ok (Some idx), rd', f') \<Rightarrow>
          (let eoft = end_of_first_tag f'; f'' = f'\<lparr>end_of_first_tag := 0\<rparr>
           in (Ok (Some (take idx (buf f''), eoft)), rd', f''))
      | (Ok None, rd', f') \<Rightarrow> (Ok None, rd', f')
      | (Err e, rd', f') \<Rightarrow> (Err e, rd', f')
      | (Panic, rd', f') \<Rightarrow> (Panic, rd', f'))"

text \<open>
  The loop that reads stanzas until the stream ends, as \<open>into_vec\<close> does: an error is
  passed on.  It ends because every stanza consumes input.
\<close>

lemma next_loop_consumes:
  "next_loop rd f = (Ok (Some idx), rd', f') \<Longrightarrow> length rd' < length rd"
proof (induction rd arbitrary: f)
  case Nil
  then show ?case by (auto split: outcome.splits)
next
  case (Cons e rd)
  then show ?case
    by (cases e) (fastforce split: outcome.splits option.splits prod.splits intro: less_SucI)+
qed

lemma reader_next_consumes:
  "reader_next rd f = (Ok (Some s), rd', f') \<Longrightarrow> length rd' < length rd"
  by (auto simp: reader_next_def split: prod.splits outcome.splits option.splits
      dest: next_loop_consumes)

lemma reader_next_eoft_consumes:
  "reader_next_eoft rd f = (Ok (Some x), rd', f') \<Longrightarrow> length rd' < length rd"
  by (auto simp: reader_next_eoft_def Let_def split: prod.splits outcome.splits option.splits
      dest: next_loop_consumes)

function read_all :: "reader \<Rightarrow> StanzaFilter \<Rightarrow> bytes list \<Rightarrow> bytes list outcome \<times> reader \<times> StanzaFilter" where
  "read_all rd f ret =
     (case reader_next rd f of
        (Ok (Some stanza), rd', f') \<Rightarrow> read_all rd' f' (ret @ [stanza])
      | (Ok None, rd', f') \<Rightarrow> (Ok ret, rd', f')
      | (Err e, rd', f') \<Rightarrow> (Err e, rd', f')
      | (Panic, rd', f') \<Rightarrow> (Panic, rd', f'))"
  by pat_completeness auto
termination
  by (relation "measure (\<lambda>(rd, f, ret). length rd)") (auto dest: reader_next_consumes [OF sym])

declare read_all.simps [simp del]

end
