(* ===== verification/Stanza_Framing.thy ===== *)
theory Stanza_Framing
  imports Stanza_Filter
begin

text \<open>
  The abstract contract of the stanza filter and the proof that the buffer machine of
  \<open>src/stanzafilter.rs\<close> implements it.

  The abstract machine has no buffer and no counter: its state is the list of bytes of
  the stanza being read.  It never sees the bytes an earlier stanza left in the buffer,
  so the simulation shows in particular that those stale bytes have no influence, although
  the source compares \<open>buf[0..15]\<close> whether or not fifteen bytes have been read.
\<close>

section \<open>The abstract machine\<close>

record frame =
  acc :: bytes
  depth :: nat
  mode :: StanzaState
  eoft :: nat

definition frame_init :: frame where
  "frame_init = \<lparr>acc = [], depth = 0, mode = OutsideStanza, eoft = 0\<rparr>"

text \<open>In the three endings, \<open>s\<close> is the stanza read so far, the new byte included.\<close>

definition frame_more :: "nat \<Rightarrow> bytes \<Rightarrow> frame \<Rightarrow> bytes option outcome \<times> frame" where
  "frame_more n s fr =
     (if length s = n then (Err (StanzaTooBig s), fr\<lparr>acc := s\<rparr>) else (Ok None, fr\<lparr>acc := s\<rparr>))"

definition frame_emit :: "bytes \<Rightarrow> frame \<Rightarrow> bytes option outcome \<times> frame" where
  "frame_emit s fr = (Ok (Some s), fr\<lparr>acc := [], depth := 0, mode := OutsideStanza\<rparr>)"

definition frame_illegal :: "bytes \<Rightarrow> frame \<Rightarrow> bytes option outcome \<times> frame" where
  "frame_illegal s fr = (Err (IllegalStanza s), fr)"

definition frame_closed :: "nat \<Rightarrow> bytes \<Rightarrow> frame \<Rightarrow> bytes option outcome \<times> frame" where
  "frame_closed n s fr =
     (if depth fr = 0 \<or> depth fr = 1 \<and> prefix stream_stream s then frame_emit s fr
      else frame_more n s (fr\<lparr>mode := BetweenTags\<rparr>))"

definition frame_close :: "nat \<Rightarrow> bytes \<Rightarrow> frame \<Rightarrow> bytes option outcome \<times> frame" where
  "frame_close n s fr =
     (let fr' = (if eoft fr = 0 then fr\<lparr>eoft := length s - 1\<rparr> else fr) in
      if suffix ''/>'' s
      then (if depth fr' = 0 then (Err InvalidStanza, fr')
            else frame_closed n s (fr'\<lparr>depth := depth fr' - 1\<rparr>))
      else frame_closed n s fr')"

definition frame_step :: "nat \<Rightarrow> frame \<Rightarrow> byte \<Rightarrow> bytes option outcome \<times> frame" where
  "frame_step n fr b =
     (let s = acc fr @ [b] in
      case mode fr of
        OutsideStanza \<Rightarrow>
          if b = CHR ''<'' then frame_more n s (fr\<lparr>depth := depth fr + 1, mode := StanzaFirstChar\<rparr>)
          else (Ok None, fr)
      | BetweenTags \<Rightarrow>
          if b = CHR ''<''
          then frame_more n s (fr\<lparr>depth := depth fr + 1, mode := InsideTagFirstChar\<rparr>)
          else frame_more n s fr
      | StanzaFirstChar \<Rightarrow>
          if b = CHR ''/'' then frame_more n s (fr\<lparr>mode := EndStream\<rparr>)
          else if b \<in> {CHR ''!'', CHR ''>'', CHR 0x27, CHR 0x22} then frame_illegal s fr
          else if b = CHR ''?'' then frame_more n s (fr\<lparr>mode := QuestionTag (length s + 3)\<rparr>)
          else frame_more n s (fr\<lparr>mode := InsideTag\<rparr>)
      | InsideTagFirstChar \<Rightarrow>
          if b = CHR ''/'' then
            (if depth fr < 2 then (Err InvalidStanza, fr)
             else frame_more n s (fr\<lparr>depth := depth fr - 2\<rparr>))
          else if b = CHR ''!'' then frame_more n s (fr\<lparr>mode := ExclamationTag (length s + 6)\<rparr>)
          else if b \<in> {CHR ''?'', CHR ''>'', CHR 0x27, CHR 0x22} then frame_illegal s fr
          else frame_more n s (fr\<lparr>mode := InsideTag\<rparr>)
      | InsideTag \<Rightarrow>
          if b = CHR ''>'' then frame_close n s fr
          else if b \<in> {CHR 0x27, CHR 0x22} then frame_more n s (fr\<lparr>mode := InsideAttribute b\<rparr>)
          else frame_more n s fr
      | InsideAttribute q \<Rightarrow>
          if b = q then frame_more n s (fr\<lparr>mode := InsideTag\<rparr>) else frame_more n s fr
      | QuestionTag k \<Rightarrow>
          if length s = k + 1 then
            (if suffix ''xml '' s then frame_more n s (fr\<lparr>mode := InsideXmlTag\<rparr>)
             else frame_illegal s fr)
          else frame_more n s fr
      | InsideXmlTag \<Rightarrow>
          if b = CHR ''>'' then frame_emit s fr else frame_more n s fr
      | ExclamationTag k \<Rightarrow>
          if length s = k + 1 then
            (if suffix ''[CDATA['' s
             then (if depth fr = 0 then (Err InvalidStanza, fr\<lparr>mode := InsideCDATA\<rparr>)
                   else frame_more n s (fr\<lparr>mode := InsideCDATA, depth := depth fr - 1\<rparr>))
             else frame_illegal s fr)
          else frame_more n s fr
      | InsideCDATA \<Rightarrow>
          if suffix '']]>'' s then frame_more n s (fr\<lparr>mode := BetweenTags\<rparr>)
          else frame_more n s fr
      | EndStream \<Rightarrow>
          if b = CHR ''>'' then
            (if length s < 16 then (Err (ExpectedBytes 15 (length s)), fr)
             else if suffix ''</stream:stream>'' s
             then frame_emit s (if eoft fr = 0 then fr\<lparr>eoft := length s - 1\<rparr> else fr)
             else frame_illegal s fr)
          else frame_more n s fr)"

section \<open>The invariant of the buffer machine\<close>

definition state_inv :: "StanzaFilter \<Rightarrow> bool" where
  "state_inv f \<longleftrightarrow>
     (case state f of
        OutsideStanza \<Rightarrow> cnt f = 0 \<and> tag_cnt f = 0
      | StanzaFirstChar \<Rightarrow> cnt f = 1
      | QuestionTag k \<Rightarrow> 2 \<le> cnt f \<and> cnt f \<le> k \<and> 4 \<le> k
      | ExclamationTag k \<Rightarrow> 2 \<le> cnt f \<and> cnt f \<le> k \<and> 7 \<le> k
      | InsideCDATA \<Rightarrow> 2 \<le> cnt f
      | _ \<Rightarrow> 1 \<le> cnt f)"

definition filter_inv :: "StanzaFilter \<Rightarrow> bool" where
  "filter_inv f \<longleftrightarrow>
     length (buf f) = buf_size f \<and> cnt f < buf_size f \<and>
     state_inv f"

definition filter_abs :: "StanzaFilter \<Rightarrow> frame" where
  "filter_abs f =
     \<lparr>acc = take (cnt f) (buf f), depth = tag_cnt f, mode = state f, eoft = end_of_first_tag f\<rparr>"

definition feed_bytes :: "StanzaFilter \<Rightarrow> byte \<Rightarrow> bytes option outcome \<times> StanzaFilter" where
  "feed_bytes f b =
     (case feed f b of (r, f') \<Rightarrow> (map_outcome (map_option (\<lambda>idx. take idx (buf f'))) r, f'))"

lemma filter_inv_new: "0 < n \<Longrightarrow> filter_inv (StanzaFilter_new n)"
  by (simp add: filter_inv_def state_inv_def StanzaFilter_new_def)

lemma filter_abs_new: "filter_abs (StanzaFilter_new n) = frame_init"
  by (simp add: filter_abs_def StanzaFilter_new_def frame_init_def)

text \<open>
  The window: after the byte \<open>b\<close> has been written at \<open>cnt\<close>, the buffer starts with the
  stanza read so far, \<open>s\<close>, which ends in \<open>b\<close>.
\<close>

definition window :: "StanzaFilter \<Rightarrow> bytes \<Rightarrow> bool" where
  "window f s \<longleftrightarrow> length s = Suc (cnt f) \<and> cnt f < length (buf f)
     \<and> length (buf f) = buf_size f \<and> take (Suc (cnt f)) (buf f) = s"

lemma window_update:
  "filter_inv f \<Longrightarrow> window (f\<lparr>buf := (buf f)[cnt f := b]\<rparr>) (take (cnt f) (buf f) @ [b])"
  by (simp add: window_def filter_inv_def take_list_update_at)

lemma window_nth: "window f s \<Longrightarrow> i \<le> cnt f \<Longrightarrow> buf f ! i = s ! i"
  unfolding window_def by (metis less_Suc_eq_le nth_take)

lemma window_frame [filter_simps]:
  "window (f\<lparr>state := x\<rparr>) s = window f s"
  "window (f\<lparr>tag_cnt := y\<rparr>) s = window f s"
  "window (f\<lparr>end_of_first_tag := z\<rparr>) s = window f s"
  by (simp_all add: window_def)

lemma last_equals_window:
  assumes w: "window f s" and "needle \<noteq> []" and len: "length needle \<le> length s"
  shows "last_equals f needle = Ok (suffix needle s)"
proof -
  let ?k = "length needle - 1"
  have k: "Suc ?k = length needle" using assms(2) by (cases needle) simp_all
  from w have c: "length s = Suc (cnt f)" "cnt f < length (buf f)" and s: "take (Suc (cnt f)) (buf f) = s"
    by (simp_all add: window_def)
  from len c(1) k have le: "?k \<le> cnt f" by simp
  then have e: "cnt f - ?k = Suc (cnt f) - length needle" using k by simp
  have "take (Suc ?k) (drop (cnt f - ?k) (buf f)) = drop (length s - length needle) s"
    unfolding k e using drop_take_window [of "length needle" "Suc (cnt f)" "buf f"] len c s by simp
  then have "last_num_bytes f (length needle) = Ok (drop (length s - length needle) s)"
    using le assms(2) by (simp add: last_num_bytes_def)
  then show ?thesis using len by (auto simp add: last_equals_def suffix_iff_drop)
qed

lemma last_equals_short:
  "window f s \<Longrightarrow> length s < length needle \<Longrightarrow>
     last_equals f needle = Err (ExpectedBytes (length needle - 1) (length s))"
  by (auto simp: last_equals_def last_num_bytes_def window_def Let_def)

lemma suffix_two_nth:
  "2 \<le> length s \<Longrightarrow> suffix [x, y] s \<longleftrightarrow> s ! (length s - 2) = x \<and> s ! (length s - 1) = y"
proof -
  assume l: "2 \<le> length s"
  then obtain p u v where s: "s = p @ [u, v]"
    by (metis append_butlast_last_id append.assoc append_Cons append_Nil
        length_0_conv length_butlast list.size(3) not_numeral_le_zero
        numeral_2_eq_2 diff_Suc_1 Suc_le_mono not_less_eq_eq le_0_eq zero_less_Suc nat.distinct(1)
        One_nat_def diff_is_0_eq)
  then show ?thesis by (simp add: nth_append suffix_def)
qed

text \<open>The comparison of the first fifteen bytes of the buffer sees the current stanza only.\<close>

lemma stream_stream_no_gt: "CHR ''>'' \<notin> set stream_stream"
  by (simp add: stream_stream_def)

lemma length_stream_stream: "length stream_stream = 15"
  by (simp add: stream_stream_def)

lemma stream_check_window:
  assumes w: "window f s" and last: "s ! cnt f = CHR ''>''"
  shows "15 \<le> length (buf f) \<and> stream_stream = take 15 (buf f) \<longleftrightarrow> prefix stream_stream s"
proof (cases "15 \<le> length s")
  case True
  have "take 15 (buf f) = take 15 s"
    using w True by (metis min.absorb1 take_take window_def)
  moreover have "15 \<le> length (buf f)" using w True by (simp add: window_def)
  ultimately show ?thesis using True by (auto simp: prefix_iff_take length_stream_stream)
next
  case False
  have "cnt f < 15" using w False by (simp add: window_def)
  have "stream_stream \<noteq> take 15 (buf f)"
  proof
    assume eq: "stream_stream = take 15 (buf f)"
    have "buf f ! cnt f = CHR ''>''" using window_nth [OF w, of "cnt f"] last by simp
    then have "stream_stream ! cnt f = CHR ''>''" unfolding eq using \<open>cnt f < 15\<close> by simp
    moreover have "cnt f < length stream_stream" using \<open>cnt f < 15\<close> by (simp add: length_stream_stream)
    ultimately show False using stream_stream_no_gt by (metis nth_mem)
  qed
  moreover have "\<not> prefix stream_stream s" using False prefix_length_le length_stream_stream by fastforce
  ultimately show ?thesis by simp
qed


section \<open>The simulation\<close>

text \<open>Each ending of the buffer machine, at a window \<open>s\<close>, is the abstract one.\<close>

definition result_of :: "nat option outcome \<times> StanzaFilter \<Rightarrow> bytes option outcome \<times> frame" where
  "result_of = (\<lambda>(r, f'). (map_outcome (map_option (\<lambda>idx. take idx (buf f'))) r, filter_abs f'))"

lemma result_advance [filter_simps]:
  "window f s \<Longrightarrow> result_of (advance f) = frame_more (buf_size f) s (filter_abs f)"
  by (auto simp: result_of_def advance_def frame_more_def window_def filter_abs_def Let_def)

lemma result_end [filter_simps]:
  "window f s \<Longrightarrow> result_of (stanza_end f) = frame_emit s (filter_abs f)"
  by (auto simp: result_of_def stanza_end_def frame_emit_def window_def filter_abs_def Let_def)

lemma result_illegal [filter_simps]:
  "window f s \<Longrightarrow> result_of (illegal_stanza f) = frame_illegal s (filter_abs f)"
  by (auto simp: result_of_def illegal_stanza_def frame_illegal_def window_def filter_abs_def)

lemma result_plain [filter_simps]:
  "result_of (Err e, f) = (Err e, filter_abs f)" "result_of (Ok None, f) = (Ok None, filter_abs f)"
  by (simp_all add: result_of_def)

lemma filter_abs_frame [filter_simps]:
  "filter_abs (f\<lparr>state := x\<rparr>) = (filter_abs f)\<lparr>mode := x\<rparr>"
  "filter_abs (f\<lparr>tag_cnt := y\<rparr>) = (filter_abs f)\<lparr>depth := y\<rparr>"
  "filter_abs (f\<lparr>end_of_first_tag := z\<rparr>) = (filter_abs f)\<lparr>eoft := z\<rparr>"
  "mode (filter_abs f) = state f" "depth (filter_abs f) = tag_cnt f"
  "eoft (filter_abs f) = end_of_first_tag f"
  by (simp_all add: filter_abs_def)

lemma result_closed [filter_simps]:
  assumes "window f s" and "s ! cnt f = CHR ''>''"
  shows "result_of (tag_closed f) = frame_closed (buf_size f) s (filter_abs f)"
  using stream_check_window [OF assms] assms(1)
  by (auto simp: tag_closed_def frame_closed_def filter_simps)

lemma result_close:
  assumes w: "window f s" and b: "s ! cnt f = CHR ''>''" and c: "1 \<le> cnt f"
  shows "result_of (close_tag f) = frame_close (buf_size f) s (filter_abs f)"
proof -
  have len: "length s = Suc (cnt f)" using w by (simp add: window_def)
  have slash: "buf f ! (cnt f - 1) = CHR ''/'' \<longleftrightarrow> suffix ''/>'' s"
    using window_nth [OF w, of "cnt f - 1"] suffix_two_nth [of s "CHR ''/''" "CHR ''>''"] len c b by simp
  have w': "window (f\<lparr>end_of_first_tag := cnt f\<rparr>) s" using w by (simp add: filter_simps)
  show ?thesis
    using w w' b c slash len
    by (auto simp: close_tag_def frame_close_def checked_sub_def filter_simps Let_def)
qed

lemma process_simulates:
  assumes w: "window f s" and s: "s = acc (filter_abs f) @ [b]" and inv: "state_inv f"
  shows "result_of (process_next_byte_idx f) = frame_step (buf_size f) (filter_abs f) b"
proof -
  have c: "cnt f < length (buf f)" and len: "length s = Suc (cnt f)"
    and b: "buf f ! cnt f = b" "s ! cnt f = b"
    using w s window_nth [OF w, of "cnt f"] by (auto simp: window_def nth_append filter_abs_def)
  have gt: "suffix '']]>'' s \<Longrightarrow> b = CHR ''>''" using s by (auto simp: suffix_def)
  note [simp] = c b s [symmetric] len
  note xml = last_equals_window [OF w, of "''xml ''"]
    and cd = last_equals_window [OF w, of "''[CDATA[''"]
    and ce = last_equals_window [OF w, of "'']]>''"]
    and es = last_equals_window [OF w, of "''</stream:stream>''"]
      last_equals_short [OF w, of "''</stream:stream>''"]
  note pd = process_next_byte_idx_def frame_step_def
  show ?thesis
  proof (cases "state f")
    case OutsideStanza
    then show ?thesis using w by (auto simp: pd filter_simps)
  next
    case StanzaFirstChar
    then show ?thesis using w by (auto simp: pd filter_simps add.commute)
  next
    case InsideTagFirstChar
    then show ?thesis using w by (auto simp: pd filter_simps checked_sub_def add.commute)
  next
    case InsideTag
    then show ?thesis using w inv result_close [OF w]
      by (auto simp: pd filter_simps state_inv_def)
  next
    case (InsideAttribute x)
    then show ?thesis using w by (auto simp: pd filter_simps)
  next
    case BetweenTags
    then show ?thesis using w by (auto simp: pd filter_simps)
  next
    case (ExclamationTag x)
    then show ?thesis using w inv cd
      by (auto simp: pd filter_simps checked_sub_def state_inv_def split: bool.splits)
  next
    case InsideCDATA
    then show ?thesis using w inv ce gt
      by (auto simp: pd filter_simps state_inv_def split: bool.splits)
  next
    case (QuestionTag x)
    then show ?thesis using w inv xml
      by (auto simp: pd filter_simps state_inv_def split: bool.splits)
  next
    case InsideXmlTag
    then show ?thesis using w by (auto simp: pd filter_simps)
  next
    case EndStream
    then show ?thesis using w es
      by (auto simp: pd filter_simps split: bool.splits)
  qed
qed

section \<open>The invariant is kept, and nothing panics\<close>

text \<open>
  \<open>settled n\<close> holds of the outcome of a byte when it is not a panic and either the
  invariant holds again or the stanza was too big, which leaves \<open>cnt\<close> past the buffer.
\<close>

definition overrun :: "StanzaFilter \<Rightarrow> bool" where
  "overrun f \<longleftrightarrow> length (buf f) = buf_size f \<and> cnt f = buf_size f"

definition settled :: "nat \<Rightarrow> 'r outcome \<times> StanzaFilter \<Rightarrow> bool" where
  "settled n = (\<lambda>(r, f'). r \<noteq> Panic \<and> buf_size f' = n \<and>
     (filter_inv f' \<or> r = Err (StanzaTooBig (buf f')) \<and> overrun f'))"

lemma settled_advance:
  "window f s \<Longrightarrow> state_inv (f\<lparr>cnt := Suc (cnt f)\<rparr>) \<Longrightarrow> n = buf_size f \<Longrightarrow> settled n (advance f)"
  by (auto simp: settled_def advance_def window_def filter_inv_def overrun_def Let_def)

lemma settled_end: "window f s \<Longrightarrow> n = buf_size f \<Longrightarrow> settled n (stanza_end f)"
  by (auto simp: settled_def stanza_end_def window_def filter_inv_def state_inv_def)

lemma settled_same:
  assumes "window f s" and "state_inv f" and "n = buf_size f"
  shows "settled n (Err e, f)" and "settled n (Ok None, f)"
  using assms by (auto simp: settled_def window_def filter_inv_def)

lemma settled_illegal: "window f s \<Longrightarrow> state_inv f \<Longrightarrow> settled (buf_size f) (illegal_stanza f)"
  unfolding illegal_stanza_def by (rule settled_same(1)) simp_all

lemma settled_closed:
  assumes "window f s" and "1 \<le> cnt f"
  shows "settled (buf_size f) (tag_closed f)"
  using assms settled_end [OF assms(1) refl] settled_advance [of "f\<lparr>state := BetweenTags\<rparr>" s]
  by (auto simp: tag_closed_def filter_simps state_inv_def)

lemma settled_close:
  assumes w: "window f s" and c: "1 \<le> cnt f" and st: "state f = InsideTag"
  shows "settled (buf_size f) (close_tag f)"
proof -
  define g where "g = (if end_of_first_tag f = 0 then f\<lparr>end_of_first_tag := cnt f\<rparr> else f)"
  have g: "window g s" "1 \<le> cnt g" "buf_size g = buf_size f" "state g = InsideTag"
    using w c st by (auto simp: g_def filter_simps)
  have err: "settled (buf_size f) (Err e, g)" for e
    by (rule settled_same(1) [OF g(1)]) (use g in \<open>simp_all add: state_inv_def\<close>)
  have closed: "settled (buf_size f) (tag_closed (g\<lparr>tag_cnt := k\<rparr>))"
      "settled (buf_size f) (tag_closed g)" for k
    using settled_closed [of "g\<lparr>tag_cnt := k\<rparr>" s] settled_closed [OF g(1)] g
    by (simp_all add: filter_simps)
  show ?thesis
    using err closed g(2)
    by (auto simp: close_tag_def g_def [symmetric] checked_sub_def Let_def)
qed

lemma process_settled:
  assumes w: "window f s" and inv: "state_inv f"
  shows "settled (buf_size f) (process_next_byte_idx f)"
proof -
  have c: "cnt f < length (buf f)" and len: "length s = Suc (cnt f)"
    using w by (simp_all add: window_def)
  note adv = settled_advance [where s = s] and fin = settled_end [where s = s]
  note ill = settled_illegal [OF w inv] and err = settled_same [OF w inv refl]
    and close = settled_close [OF w]
  note le = last_equals_window [OF w] and short = last_equals_short [OF w]
  note pd = process_next_byte_idx_def state_inv_def Let_def
  show ?thesis
  proof (cases "state f")
    case OutsideStanza
    then show ?thesis using w c inv
      err by (auto simp: pd filter_simps intro!: adv)
  next
    case StanzaFirstChar
    then show ?thesis using w c inv ill by (auto simp: pd filter_simps intro!: adv)
  next
    case InsideTagFirstChar
    then show ?thesis using w c inv ill err
      by (auto simp: pd filter_simps checked_sub_def intro!: adv)
  next
    case InsideTag
    then show ?thesis using w c inv close by (auto simp: pd filter_simps intro!: adv)
  next
    case (InsideAttribute x)
    then show ?thesis using w c inv by (auto simp: pd filter_simps intro!: adv)
  next
    case BetweenTags
    then show ?thesis using w c inv by (auto simp: pd filter_simps intro!: adv)
  next
    case (ExclamationTag x)
    then have "settled (buf_size f) (Err e, f\<lparr>state := InsideCDATA\<rparr>)" for e
      using w inv by (auto simp: pd filter_simps intro!: settled_same [where s = s])
    with ExclamationTag show ?thesis using w c inv ill len le [of "''[CDATA[''"]
      by (auto simp: pd filter_simps checked_sub_def split: bool.splits intro!: adv)
  next
    case InsideCDATA
    then show ?thesis using w c inv len le [of "'']]>''"]
      by (auto simp: pd filter_simps split: bool.splits intro!: adv)
  next
    case (QuestionTag x)
    then show ?thesis using w c inv ill len le [of "''xml ''"]
      by (auto simp: pd filter_simps split: bool.splits intro!: adv)
  next
    case InsideXmlTag
    then show ?thesis using w c inv by (auto simp: pd filter_simps intro!: adv fin)
  next
    case EndStream
    then show ?thesis
      using w c inv ill err len le [of "''</stream:stream>''"] short [of "''</stream:stream>''"]
      by (cases "length s < 16") (auto simp: pd filter_simps split: bool.splits intro!: adv fin)
  qed
qed

section \<open>Refinement, as an interface\<close>

text \<open>
  \<open>until_output\<close> runs a step function over an input until it outputs, fails or the
  input ends; it is the shape of the reader loops.
\<close>

fun until_output ::
    "('s \<Rightarrow> 'i \<Rightarrow> 'o option outcome \<times> 's) \<Rightarrow> 's \<Rightarrow> 'i list \<Rightarrow> 'o option outcome \<times> 'i list \<times> 's"
where
  "until_output step st [] = (Ok None, [], st)"
| "until_output step st (i # is) =
     (case step st i of
        (Ok None, st') \<Rightarrow> until_output step st' is
      | (Ok (Some x), st') \<Rightarrow> (Ok (Some x), is, st')
      | (Err e, st') \<Rightarrow> (Err e, is, st')
      | (Panic, st') \<Rightarrow> (Panic, is, st'))"

locale step_refinement =
  fixes cstep :: "'c \<Rightarrow> 'i \<Rightarrow> 'o option outcome \<times> 'c"
    and astep :: "'a \<Rightarrow> 'i \<Rightarrow> 'o option outcome \<times> 'a"
    and inv :: "'c \<Rightarrow> bool"
    and abs :: "'c \<Rightarrow> 'a"
  assumes simulates: "inv c \<Longrightarrow> cstep c i = (r, c') \<Longrightarrow> astep (abs c) i = (r, abs c')"
    and keeps: "inv c \<Longrightarrow> cstep c i = (Ok x, c') \<Longrightarrow> inv c'"
    and no_panic: "inv c \<Longrightarrow> cstep c i \<noteq> (Panic, c')"
begin

lemma run_simulates:
  "inv c \<Longrightarrow> until_output cstep c is = (r, rest, c') \<Longrightarrow>
     until_output astep (abs c) is = (r, rest, abs c')"
proof (induction "is" arbitrary: c)
  case Nil
  then show ?case by simp
next
  case (Cons i "is")
  obtain r1 c1 where step: "cstep c i = (r1, c1)" by (cases "cstep c i")
  note abs = simulates [OF Cons.prems(1) step] and keep = keeps [OF Cons.prems(1)]
  from Cons.prems(2) step abs keep Cons.IH [of c1] show ?case
    by (auto split: outcome.splits option.splits)
qed

lemma run_no_panic: "inv c \<Longrightarrow> until_output cstep c is \<noteq> (Panic, rest, c')"
proof (induction "is" arbitrary: c)
  case Nil
  then show ?case by simp
next
  case (Cons i "is")
  obtain r1 c1 where step: "cstep c i = (r1, c1)" by (cases "cstep c i")
  from Cons.prems step no_panic [of c i c1] keeps [of c i] Cons.IH [of c1] show ?case
    by (auto split: outcome.splits option.splits)
qed

lemma run_keeps: "inv c \<Longrightarrow> until_output cstep c is = (Ok x, rest, c') \<Longrightarrow> inv c'"
proof (induction "is" arbitrary: c)
  case Nil
  then show ?case by simp
next
  case (Cons i "is")
  obtain r1 c1 where step: "cstep c i = (r1, c1)" by (cases "cstep c i")
  from Cons.prems step keeps [of c i] Cons.IH [of c1] show ?case
    by (auto split: outcome.splits option.splits)
qed

end

definition serves :: "nat \<Rightarrow> StanzaFilter \<Rightarrow> bool" where
  "serves n f \<longleftrightarrow> filter_inv f \<and> buf_size f = n"

lemma feed_as_process:
  "filter_inv f \<Longrightarrow> feed f b = process_next_byte_idx (f\<lparr>buf := (buf f)[cnt f := b]\<rparr>)"
  by (simp add: feed_def current_buf_def filter_inv_def)

lemma state_inv_buf: "state_inv (f\<lparr>buf := x\<rparr>) = state_inv f"
  by (cases "state f") (simp_all add: state_inv_def)

lemma feed_bytes_simulates:
  assumes "filter_inv f"
  shows "result_of (feed f b) = frame_step (buf_size f) (filter_abs f) b"
proof -
  let ?f = "f\<lparr>buf := (buf f)[cnt f := b]\<rparr>"
  have abs: "filter_abs ?f = filter_abs f" by (simp add: filter_abs_def)
  have w: "window ?f (acc (filter_abs f) @ [b])"
    using window_update [OF assms, of b] by (simp add: filter_abs_def)
  show ?thesis
    using process_simulates [OF w] assms abs
    by (simp add: feed_as_process filter_inv_def state_inv_buf)
qed

lemma feed_settled: "filter_inv f \<Longrightarrow> settled (buf_size f) (feed f b)"
  using process_settled [OF window_update, of f b]
  by (simp add: feed_as_process filter_inv_def state_inv_buf)

lemma feed_bytes_result: "feed_bytes f b = (r, f') \<Longrightarrow> result_of (feed f b) = (r, filter_abs f')"
  by (cases "feed f b") (auto simp: feed_bytes_def result_of_def)

interpretation framing: step_refinement feed_bytes "frame_step n" "serves n" filter_abs for n
proof unfold_locales
  fix c i r c'
  assume "serves n c" and "feed_bytes c i = (r, c')"
  then show "frame_step n (filter_abs c) i = (r, filter_abs c')"
    using feed_bytes_simulates [of c i] feed_bytes_result by (auto simp: serves_def)
next
  fix c i x c'
  assume "serves n c" and "feed_bytes c i = (Ok x, c')"
  then show "serves n c'"
    using feed_settled [of c i]
    by (cases "feed c i") (auto simp: serves_def settled_def feed_bytes_def outcome_simps)
next
  fix c i c'
  assume "serves n c"
  then show "feed_bytes c i \<noteq> (Panic, c')"
    using feed_settled [of c i]
    by (cases "feed c i") (auto simp: serves_def settled_def feed_bytes_def outcome_simps)
qed

section \<open>The reader loops over the abstract machine\<close>

lemma next_loop_bytes:
  assumes "filter_inv f"
  shows "next_loop (map RByte bs) f =
     (case until_output feed f bs of (r, rest, f') \<Rightarrow> (r, map RByte rest, f'))"
  using assms
proof (induction bs arbitrary: f)
  case Nil
  then show ?case by (simp add: current_buf_def filter_inv_def)
next
  case (Cons b bs)
  obtain r f1 where step: "feed f b = (r, f1)" by (cases "feed f b")
  have "r = Ok None \<Longrightarrow> filter_inv f1"
    using feed_settled [OF Cons.prems, of b] step by (simp add: settled_def)
  with step Cons.IH [of f1] show ?case by (auto split: outcome.splits option.splits)
qed

lemma until_output_feed_bytes:
  "(case until_output feed f bs of (r, rest, f') \<Rightarrow>
      (map_outcome (map_option (\<lambda>idx. take idx (buf f'))) r, rest, f'))
   = until_output feed_bytes f bs"
proof (induction bs arbitrary: f)
  case Nil
  then show ?case by simp
next
  case (Cons b bs)
  obtain r f1 where "feed f b = (r, f1)" by (cases "feed f b")
  with Cons.IH [of f1] show ?case
    by (auto simp: feed_bytes_def split: outcome.splits option.splits)
qed

text \<open>Over bytes alone, both readers are the refined loop.\<close>

lemma reader_next_bytes:
  assumes "filter_inv f"
  shows "reader_next (map RByte bs) f =
     (case until_output feed_bytes f bs of (r, rest, f') \<Rightarrow> (r, map RByte rest, f'))"
  unfolding reader_next_def next_loop_bytes [OF assms] until_output_feed_bytes [symmetric]
  by (auto split: outcome.splits option.splits prod.splits)

lemma reader_next_eoft_bytes:
  assumes "filter_inv f"
  shows "reader_next_eoft (map RByte bs) f =
     (case until_output feed_bytes f bs of
        (Ok (Some s), rest, f') \<Rightarrow>
          (Ok (Some (s, end_of_first_tag f')), map RByte rest, f'\<lparr>end_of_first_tag := 0\<rparr>)
      | (Ok None, rest, f') \<Rightarrow> (Ok None, map RByte rest, f')
      | (Err e, rest, f') \<Rightarrow> (Err e, map RByte rest, f')
      | (Panic, rest, f') \<Rightarrow> (Panic, map RByte rest, f'))"
  unfolding reader_next_eoft_def next_loop_bytes [OF assms] until_output_feed_bytes [symmetric]
  by (auto split: outcome.splits option.splits prod.splits simp: Let_def)

section \<open>What the abstract machine emits\<close>

definition frame_inv :: "frame \<Rightarrow> bool" where
  "frame_inv fr \<longleftrightarrow>
     (if mode fr = OutsideStanza then acc fr = [] \<and> depth fr = 0
      else acc fr \<noteq> [] \<and> hd (acc fr) = CHR ''<'')"

lemma frame_inv_abs:
  "filter_inv f \<Longrightarrow> hd (take (cnt f) (buf f)) = CHR ''<'' \<or> cnt f = 0 \<Longrightarrow> frame_inv (filter_abs f)"
  by (auto simp: frame_inv_def filter_abs_def filter_inv_def state_inv_def split: StanzaState.splits)

text \<open>One step either leaves the accumulator alone (only outside a stanza), extends it by the
  byte, or emits it.\<close>

lemma frame_step_None:
  assumes "frame_step n fr b = (Ok None, fr')"
  shows "(mode fr = OutsideStanza \<and> b \<noteq> CHR ''<'' \<and> fr' = fr)
       \<or> (acc fr' = acc fr @ [b] \<and> mode fr' \<noteq> OutsideStanza \<and> length (acc fr') \<noteq> n
           \<and> (mode fr = OutsideStanza \<longrightarrow> b = CHR ''<''))"
  using assms
  by (auto simp: frame_step_def frame_more_def frame_emit_def frame_illegal_def frame_close_def
      frame_closed_def Let_def split: StanzaState.splits if_splits)

lemma frame_step_Some:
  assumes "frame_step n fr b = (Ok (Some s), fr')"
  shows "s = acc fr @ [b] \<and> b = CHR ''>'' \<and> mode fr \<noteq> OutsideStanza
       \<and> acc fr' = [] \<and> depth fr' = 0 \<and> mode fr' = OutsideStanza"
  using assms
  by (auto simp: frame_step_def frame_more_def frame_emit_def frame_illegal_def frame_close_def
      frame_closed_def Let_def split: StanzaState.splits if_splits)

lemma frame_step_inv:
  "frame_inv fr \<Longrightarrow> frame_step n fr b = (Ok x, fr') \<Longrightarrow> frame_inv fr'"
  using frame_step_None [of n fr b fr'] frame_step_Some [of n fr b _ fr']
  by (cases x) (auto simp: frame_inv_def split: if_splits)

lemma frame_run_emits:
  assumes "until_output (frame_step n) fr bs = (Ok (Some s), rest, fr')"
    and "frame_inv fr"
  shows "\<exists>junk used. bs = junk @ used @ rest \<and> CHR ''<'' \<notin> set junk \<and> s = acc fr @ used
       \<and> (mode fr \<noteq> OutsideStanza \<longrightarrow> junk = [])
       \<and> hd s = CHR ''<'' \<and> last s = CHR ''>'' \<and> fr' = frame_init\<lparr>eoft := eoft fr'\<rparr>"
  using assms
proof (induction bs arbitrary: fr)
  case Nil
  then show ?case by simp
next
  case (Cons b bs)
  obtain r f1 where step: "frame_step n fr b = (r, f1)" by (cases "frame_step n fr b")
  show ?case
  proof (cases "\<exists>x. r = Ok (Some x)")
    case True
    with step Cons.prems(1) have r: "r = Ok (Some s)" "rest = bs" "fr' = f1" by auto
    from frame_step_Some [OF step [unfolded r(1)]] Cons.prems(2) r show ?thesis
      by (intro exI [of _ "[]"] exI [of _ "[b]"]) (auto simp: frame_inv_def frame_init_def)
  next
    case False
    with step Cons.prems(1) have r: "r = Ok None"
      and run: "until_output (frame_step n) f1 bs = (Ok (Some s), rest, fr')"
      by (auto split: outcome.splits option.splits)
    note step' = step [unfolded r]
    from Cons.IH [OF run frame_step_inv [OF Cons.prems(2) step']]
    obtain junk used where IH: "bs = junk @ used @ rest" "CHR ''<'' \<notin> set junk" "s = acc f1 @ used"
      "mode f1 \<noteq> OutsideStanza \<longrightarrow> junk = []" "hd s = CHR ''<''" "last s = CHR ''>''"
      "fr' = frame_init\<lparr>eoft := eoft fr'\<rparr>" by blast
    from frame_step_None [OF step'] show ?thesis
    proof
      assume h: "mode fr = OutsideStanza \<and> b \<noteq> CHR ''<'' \<and> f1 = fr"
      with IH show ?thesis by (intro exI [of _ "b # junk"] exI [of _ used]) auto
    next
      assume h: "acc f1 = acc fr @ [b] \<and> mode f1 \<noteq> OutsideStanza \<and> length (acc f1) \<noteq> n
        \<and> (mode fr = OutsideStanza \<longrightarrow> b = CHR ''<'')"
      with IH show ?thesis by (intro exI [of _ "[]"] exI [of _ "b # used"]) auto
    qed
  qed
qed

lemma frame_run_bound:
  assumes "until_output (frame_step n) fr bs = (Ok (Some s), rest, fr')" and "length (acc fr) < n"
  shows "length s \<le> n"
  using assms
proof (induction bs arbitrary: fr)
  case Nil
  then show ?case by simp
next
  case (Cons b bs)
  obtain r f1 where step: "frame_step n fr b = (r, f1)" by (cases "frame_step n fr b")
  with Cons.prems Cons.IH [of f1] frame_step_None [of n fr b f1] frame_step_Some [of n fr b s f1]
  show ?case by (auto split: outcome.splits option.splits)
qed

end
