(* ===== verification/Stanza_Xml.thy ===== *)
theory Stanza_Xml
  imports Stanza_Framing
begin

text \<open>
  The language of stanzas: what the filter is meant to recognise.  A small grammar of XML
  (elements with attributes in either kind of quote, character data, CDATA sections) with
  its printer, and the proof that the filter, fed a printed element, emits exactly that
  element at its last byte and not before, with the index of the end of its first tag.
\<close>

section \<open>The grammar\<close>

text \<open>
  Inside a tag, after its first byte: bytes outside quotes, and quoted strings (the flag
  is true for double quotes).  An end tag has a text of its own, because the filter counts
  tags and does not compare names.
\<close>

datatype piece = Plain byte | Quoted bool bytes

type_synonym tag = "byte \<times> piece list"

datatype node =
    Text bytes
  | CData bytes
  | Elem tag "node list" tag
  | EmptyElem tag

definition quote :: "bool \<Rightarrow> byte" where
  "quote d = (if d then CHR 0x22 else CHR 0x27)"

fun show_piece :: "piece \<Rightarrow> bytes" where
  "show_piece (Plain b) = [b]"
| "show_piece (Quoted d s) = quote d # s @ [quote d]"

definition show_tag :: "tag \<Rightarrow> bytes" where
  "show_tag t = fst t # concat (map show_piece (snd t))"

fun show_node :: "node \<Rightarrow> bytes" where
  "show_node (Text s) = s"
| "show_node (CData s) = ''<![CDATA['' @ s @ '']]>''"
| "show_node (Elem t ns u) =
     CHR ''<'' # show_tag t @ CHR ''>'' # concat (map show_node ns) @ ''</'' @ show_tag u @ ''>''"
| "show_node (EmptyElem t) = CHR ''<'' # show_tag t @ ''/>''"

fun ok_piece :: "piece \<Rightarrow> bool" where
  "ok_piece (Plain b) = (b \<notin> {CHR ''>'', CHR 0x27, CHR 0x22})"
| "ok_piece (Quoted d s) = (quote d \<notin> set s)"

text \<open>The first byte of a tag decides what it is, so these are excluded.\<close>

definition ok_tag :: "tag \<Rightarrow> bool" where
  "ok_tag t \<longleftrightarrow> fst t \<notin> {CHR ''/'', CHR ''!'', CHR ''?'', CHR ''>'', CHR 0x27, CHR 0x22}
     \<and> list_all ok_piece (snd t)"

definition ok_open_tag :: "tag \<Rightarrow> bool" where
  "ok_open_tag t \<longleftrightarrow> ok_tag t \<and> last (show_tag t) \<noteq> CHR ''/''"

fun ok_node :: "node \<Rightarrow> bool" where
  "ok_node (Text s) = (CHR ''<'' \<notin> set s)"
| "ok_node (CData s) = (\<not> sublist '']]>'' s)"
| "ok_node (Elem t ns u) = (ok_open_tag t \<and> list_all ok_node ns \<and> ok_open_tag u)"
| "ok_node (EmptyElem t) = ok_tag t"

text \<open>A stanza is an element; the position of the end of its first tag.\<close>

fun is_elem :: "node \<Rightarrow> bool" where
  "is_elem (Elem t ns u) = True"
| "is_elem (EmptyElem t) = True"
| "is_elem (Text s) = False"
| "is_elem (CData s) = False"

fun first_tag_end :: "node \<Rightarrow> nat" where
  "first_tag_end (Elem t ns u) = length (show_tag t) + 1"
| "first_tag_end (EmptyElem t) = length (show_tag t) + 2"
| "first_tag_end (Text s) = 0"
| "first_tag_end (CData s) = 0"

text \<open>A stream header is cut off after its first tag, so an element must not look like one.\<close>

definition stanza_node :: "node \<Rightarrow> bool" where
  "stanza_node x \<longleftrightarrow> is_elem x \<and> ok_node x \<and> \<not> prefix stream_stream (show_node x)"

section \<open>Runs without output\<close>

abbreviation Fr :: "bytes \<Rightarrow> nat \<Rightarrow> StanzaState \<Rightarrow> nat \<Rightarrow> frame" where
  "Fr a d m e \<equiv> \<lparr>acc = a, depth = d, mode = m, eoft = e\<rparr>"

fun silent :: "nat \<Rightarrow> frame \<Rightarrow> bytes \<Rightarrow> frame option" where
  "silent n fr [] = Some fr"
| "silent n fr (b # bs) =
     (case frame_step n fr b of
        (Ok None, fr') \<Rightarrow> silent n fr' bs
      | _ \<Rightarrow> None)"

lemma silent_append:
  "silent n fr xs = Some fr' \<Longrightarrow> silent n fr (xs @ ys) = silent n fr' ys"
  by (induction xs arbitrary: fr) (auto split: prod.splits outcome.splits option.splits)

lemma until_output_silent:
  "silent n fr xs = Some fr' \<Longrightarrow>
     until_output (frame_step n) fr (xs @ ys) = until_output (frame_step n) fr' ys"
  by (induction xs arbitrary: fr) (auto split: prod.splits outcome.splits option.splits)

lemma silent_plain:
  assumes "\<And>a b. b \<in> set bs \<Longrightarrow> length a + 1 < n \<Longrightarrow>
      frame_step n (Fr a d m e) b = (Ok None, Fr (a @ [b]) d m e)"
    and "length a + length bs < n"
  shows "silent n (Fr a d m e) bs = Some (Fr (a @ bs) d m e)"
  using assms
proof (induction bs arbitrary: a)
  case Nil
  then show ?case by simp
next
  case (Cons b bs)
  from Cons.prems Cons.IH [of "a @ [b]"] show ?case by simp
qed

lemma silent_piece:
  assumes ok: "ok_piece p" and len: "length a + length (show_piece p) < n"
  shows "silent n (Fr a d InsideTag e) (show_piece p) = Some (Fr (a @ show_piece p) d InsideTag e)"
proof (cases p)
  case (Plain b)
  with assms show ?thesis by (simp add: frame_step_def frame_more_def Let_def)
next
  case (Quoted q s)
  have one: "frame_step n (Fr a d InsideTag e) (quote q)
      = (Ok None, Fr (a @ [quote q]) d (InsideAttribute (quote q)) e)"
    using len Quoted by (auto simp: frame_step_def frame_more_def Let_def quote_def)
  have body: "silent n (Fr (a @ [quote q]) d (InsideAttribute (quote q)) e) s
      = Some (Fr ((a @ [quote q]) @ s) d (InsideAttribute (quote q)) e)"
    by (rule silent_plain) (use ok len Quoted in \<open>auto simp: frame_step_def frame_more_def Let_def\<close>)
  show ?thesis
    using one silent_append [OF body, of "[quote q]"] len Quoted
    by (simp add: frame_step_def frame_more_def Let_def)
qed

lemma silent_pieces:
  "list_all ok_piece ps \<Longrightarrow> length a + length (concat (map show_piece ps)) < n \<Longrightarrow>
     silent n (Fr a d InsideTag e) (concat (map show_piece ps))
       = Some (Fr (a @ concat (map show_piece ps)) d InsideTag e)"
proof (induction ps arbitrary: a)
  case Nil
  then show ?case by simp
next
  case (Cons p ps)
  from Cons.prems silent_piece [of p a n d e] Cons.IH [of "a @ show_piece p"] show ?case
    by (simp add: silent_append)
qed

text \<open>The text of a tag, from the state at its first byte.\<close>

lemma silent_tag:
  assumes ok: "ok_tag t" and len: "length a + length (show_tag t) < n"
    and m: "m = StanzaFirstChar \<or> m = InsideTagFirstChar"
  shows "silent n (Fr a d m e) (show_tag t) = Some (Fr (a @ show_tag t) d InsideTag e)"
proof -
  have "frame_step n (Fr a d m e) (fst t) = (Ok None, Fr (a @ [fst t]) d InsideTag e)"
    using ok len m by (auto simp: frame_step_def frame_more_def Let_def ok_tag_def show_tag_def)
  then show ?thesis
    using silent_pieces [of "snd t" "a @ [fst t]" n d e] ok len
    by (simp add: show_tag_def ok_tag_def)
qed

section \<open>Closing a tag\<close>

text \<open>\<open>ordinary a\<close>: no continuation of \<open>a\<close> is a stream header.\<close>

definition ordinary :: "bytes \<Rightarrow> bool" where
  "ordinary a \<longleftrightarrow> \<not> prefix stream_stream a \<and> CHR ''>'' \<in> set a"

lemma ordinary_append: "ordinary a \<Longrightarrow> ordinary (a @ b)"
proof -
  assume o: "ordinary a"
  have "\<not> prefix stream_stream (a @ b)"
  proof
    assume "prefix stream_stream (a @ b)"
    then have "prefix stream_stream a \<or> prefix a stream_stream"
      by (metis prefixI prefix_same_cases)
    with o have "prefix a stream_stream" by (simp add: ordinary_def)
    with o stream_stream_no_gt show False
      by (meson ordinary_def set_mono_prefix subsetD)
  qed
  with o show ?thesis by (simp add: ordinary_def)
qed

lemma close_open_tag:
  assumes "last a \<noteq> CHR ''/''" and "a \<noteq> []" and "length a + 1 < n"
    and "0 < d" and "d = 1 \<Longrightarrow> \<not> prefix stream_stream (a @ ''>'')"
  shows "frame_step n (Fr a d InsideTag e) (CHR ''>'')
     = (Ok None, Fr (a @ ''>'') d BetweenTags (if e = 0 then length a else e))"
proof -
  have "\<not> suffix ''/>'' (a @ ''>'')"
    using assms(1,2) by (cases a rule: rev_cases) (auto simp: suffix_def)
  with assms show ?thesis
    by (auto simp: frame_step_def frame_close_def frame_closed_def frame_more_def Let_def)
qed

lemma close_empty_tag:
  assumes "length a + 2 < n" and "1 < d" and "d - 1 = 1 \<Longrightarrow> \<not> prefix stream_stream (a @ ''/>'')"
  shows "frame_step n (Fr (a @ ''/'') d InsideTag e) (CHR ''>'')
     = (Ok None, Fr (a @ ''/>'') (d - 1) BetweenTags (if e = 0 then length a + 1 else e))"
  using assms
  by (auto simp: frame_step_def frame_close_def frame_closed_def frame_more_def suffix_def Let_def)

lemma close_last:
  "a \<noteq> [] \<Longrightarrow> last a \<noteq> CHR ''/'' \<Longrightarrow> frame_step n (Fr a 0 InsideTag e) (CHR ''>'')
     = (Ok (Some (a @ ''>'')), Fr [] 0 OutsideStanza (if e = 0 then length a else e))"
  by (cases a rule: rev_cases)
    (auto simp: frame_step_def frame_close_def frame_closed_def frame_emit_def suffix_def Let_def)

lemma close_last_empty:
  "frame_step n (Fr (a @ ''/'') 1 InsideTag e) (CHR ''>'')
     = (Ok (Some (a @ ''/>'')), Fr [] 0 OutsideStanza (if e = 0 then length a + 1 else e))"
  by (auto simp: frame_step_def frame_close_def frame_closed_def frame_emit_def suffix_def Let_def)

section \<open>CDATA sections\<close>

lemma silent_prefixes:
  assumes "\<And>u b. prefix (u @ [b]) bs \<Longrightarrow>
      frame_step n (Fr (a @ u) d m e) b = (Ok None, Fr (a @ u @ [b]) d m e)"
  shows "silent n (Fr a d m e) bs = Some (Fr (a @ bs) d m e)"
  using assms
proof (induction bs arbitrary: a)
  case Nil
  then show ?case by simp
next
  case (Cons b bs)
  from Cons.prems [of "[]" b] have "frame_step n (Fr a d m e) b = (Ok None, Fr (a @ [b]) d m e)"
    by simp
  moreover have "silent n (Fr (a @ [b]) d m e) bs = Some (Fr ((a @ [b]) @ bs) d m e)"
    using Cons.prems by (intro Cons.IH) (metis append.assoc append_Cons append_Nil Cons_prefix_Cons)
  ultimately show ?case by simp
qed

lemma cdata_end_not_early:
  assumes no: "\<not> sublist '']]>'' s" and u: "prefix u (s @ '']]'')"
  shows "\<not> suffix '']]>'' (c @ ''['' @ u)"
proof
  assume suf: "suffix '']]>'' (c @ ''['' @ u)"
  show False
  proof (cases "length u < 3")
    case True
    then consider "u = []" | x where "u = [x]" | x y where "u = [x, y]"
      by (cases u rule: rev_cases; cases "butlast u" rule: rev_cases) auto
    then show False using suf by cases (auto simp: suffix_def append_eq_append_conv2 append_eq_Cons_conv)
  next
    case False
    then have in_u: "suffix '']]>'' u"
      using suf by (metis append.assoc length_Cons list.size(3) numeral_3_eq_3 not_less
          suffix_length_suffix suffixI)
    then obtain v where v: "u = v @ '']]>''" by (auto simp: suffix_def)
    from u v have "prefix u s"
      by (auto simp: prefix_append append_eq_append_conv2 append_eq_Cons_conv Cons_eq_append_conv prefix_Cons)
    then have "sublist '']]>'' s" using v by (auto simp: prefix_def sublist_def)
    with no show False by simp
  qed
qed

lemma silent_cdata_body:
  assumes no: "\<not> sublist '']]>'' s" and len: "length c + 1 + length s + 3 < n"
  shows "silent n (Fr (c @ ''['') d InsideCDATA e) (s @ '']]>'')
     = Some (Fr (c @ ''['' @ s @ '']]>'') d BetweenTags e)"
proof -
  have "silent n (Fr (c @ ''['') d InsideCDATA e) (s @ '']]'')
      = Some (Fr ((c @ ''['') @ s @ '']]'') d InsideCDATA e)"
  proof (rule silent_prefixes)
    fix u b assume pre: "prefix (u @ [b]) (s @ '']]'')"
    have "length (u @ [b]) \<le> length s + 2" using prefix_length_le [OF pre] by simp
    with cdata_end_not_early [OF no pre, of c] len
    show "frame_step n (Fr ((c @ ''['') @ u) d InsideCDATA e) b
        = (Ok None, Fr ((c @ ''['') @ u @ [b]) d InsideCDATA e)"
      by (simp add: frame_step_def frame_more_def Let_def)
  qed
  from silent_append [OF this, of "''>''"] len show ?thesis
    by (simp add: frame_step_def frame_more_def Let_def suffix_def)
qed

lemma silent_cdata:
  assumes no: "\<not> sublist '']]>'' s" and len: "length a + length s + 12 < n"
  shows "silent n (Fr a d BetweenTags e) (''<![CDATA['' @ s @ '']]>'')
     = Some (Fr (a @ ''<![CDATA['' @ s @ '']]>'') d BetweenTags e)"
proof -
  have "silent n (Fr a d BetweenTags e) ''<![CDATA[''
      = Some (Fr ((a @ ''<![CDATA'') @ ''['') d InsideCDATA e)"
    using len by (simp add: frame_step_def frame_more_def Let_def suffix_def)
  from silent_append [OF this, of "s @ '']]>''"]
    silent_cdata_body [OF no, of "a @ ''<![CDATA''" n d e] len
  show ?thesis by simp
qed

section \<open>Nodes\<close>

text \<open>What the proof shows of each node, and of a list of nodes.\<close>

definition passes :: "node \<Rightarrow> bool" where
  "passes x \<longleftrightarrow> (\<forall>n a d e. ok_node x \<and> 0 < d \<and> 0 < e \<and> ordinary a
      \<and> length a + length (show_node x) < n \<longrightarrow>
      silent n (Fr a d BetweenTags e) (show_node x)
        = Some (Fr (a @ show_node x) d BetweenTags e))"

lemma silent_nodes:
  assumes "\<forall>x\<in>set xs. passes x" and "list_all ok_node xs" and "0 < d" and "0 < e" and "ordinary a"
    and "length a + length (concat (map show_node xs)) < n"
  shows "silent n (Fr a d BetweenTags e) (concat (map show_node xs))
     = Some (Fr (a @ concat (map show_node xs)) d BetweenTags e)"
  using assms
proof (induction xs arbitrary: a)
  case Nil
  then show ?case by simp
next
  case (Cons x xs)
  from Cons.prems have "silent n (Fr a d BetweenTags e) (show_node x)
      = Some (Fr (a @ show_node x) d BetweenTags e)" by (simp add: passes_def)
  from silent_append [OF this] Cons.prems Cons.IH [of "a @ show_node x"] ordinary_append
  show ?case by simp
qed

text \<open>The opening bracket and the text of a tag, then of an end tag, inside a stanza.\<close>

lemma silent_open:
  assumes "ok_tag t" and "length a + 1 + length (show_tag t) < n"
  shows "silent n (Fr a d BetweenTags e) (CHR ''<'' # show_tag t)
     = Some (Fr (a @ CHR ''<'' # show_tag t) (d + 1) InsideTag e)"
proof -
  have "silent n (Fr a d BetweenTags e) ''<'' = Some (Fr (a @ ''<'') (d + 1) InsideTagFirstChar e)"
    using assms(2) by (simp add: frame_step_def frame_more_def Let_def)
  from silent_append [OF this, of "show_tag t"] silent_tag [OF assms(1), of "a @ ''<''"] assms(2)
  show ?thesis by simp
qed

lemma silent_end_tag:
  assumes "ok_tag t" and "0 < d" and "length a + 2 + length (show_tag t) < n"
  shows "silent n (Fr a d BetweenTags e) (''</'' @ show_tag t)
     = Some (Fr (a @ ''</'' @ show_tag t) (d - 1) InsideTag e)"
proof -
  have "silent n (Fr a d BetweenTags e) ''</'' = Some (Fr (a @ ''</'') (d - 1) InsideTagFirstChar e)"
    using assms(2,3) by (simp add: frame_step_def frame_more_def Let_def)
  from silent_append [OF this, of "show_tag t"] silent_tag [OF assms(1), of "a @ ''</''"] assms(3)
  show ?thesis by simp
qed

lemma show_tag_nonempty: "show_tag t \<noteq> []"
  by (simp add: show_tag_def)

lemma passes_elem:
  assumes sub: "\<forall>x\<in>set xs. passes x"
  shows "passes (Elem t xs u)"
  unfolding passes_def
proof (intro allI impI)
  fix n :: nat and a :: bytes and d e :: nat
  assume h: "ok_node (Elem t xs u) \<and> 0 < d \<and> 0 < e \<and> ordinary a
      \<and> length a + length (show_node (Elem t xs u)) < n"
  let ?k = "concat (map show_node xs)"
  let ?b = "a @ CHR ''<'' # show_tag t" and ?c = "(a @ CHR ''<'' # show_tag t) @ ''>''"
  let ?g = "(?c @ ?k) @ ''</'' @ show_tag u"
  have t: "ok_tag t" "last (show_tag t) \<noteq> CHR ''/''" and u: "ok_tag u" "last (show_tag u) \<noteq> CHR ''/''"
    using h by (simp_all add: ok_open_tag_def)
  note ord = ordinary_append [of a]
  have 1: "silent n (Fr a d BetweenTags e) (CHR ''<'' # show_tag t) = Some (Fr ?b (d + 1) InsideTag e)"
    using silent_open [OF t(1)] h by simp
  have 2: "silent n (Fr ?b (d + 1) InsideTag e) ''>'' = Some (Fr ?c (d + 1) BetweenTags e)"
    using close_open_tag [of ?b n "d + 1" e] h t(2) show_tag_nonempty by simp
  have 3: "silent n (Fr ?c (d + 1) BetweenTags e) ?k = Some (Fr (?c @ ?k) (d + 1) BetweenTags e)"
    using silent_nodes [OF sub, of "d + 1" e ?c n] h ord by simp
  have 4: "silent n (Fr (?c @ ?k) (d + 1) BetweenTags e) (''</'' @ show_tag u) = Some (Fr ?g d InsideTag e)"
    using silent_end_tag [OF u(1), of "d + 1" "?c @ ?k" n e] h by simp
  have "ordinary (?g @ ''>'')" using ord [of "CHR ''<'' # show_tag t @ ''>'' @ ?k @ ''</'' @ show_tag u @ ''>''"] h
    by simp
  then have 5: "silent n (Fr ?g d InsideTag e) ''>'' = Some (Fr (?g @ ''>'') d BetweenTags e)"
    using close_open_tag [of ?g n d e] h u(2) show_tag_nonempty by (simp add: ordinary_def)
  from silent_append [OF 1] silent_append [OF 2] silent_append [OF 3] silent_append [OF 4] 5
  have "silent n (Fr a d BetweenTags e) ((CHR ''<'' # show_tag t) @ ''>'' @ ?k @ (''</'' @ show_tag u) @ ''>'')
      = Some (Fr (?g @ ''>'') d BetweenTags e)" by simp
  then show "silent n (Fr a d BetweenTags e) (show_node (Elem t xs u))
      = Some (Fr (a @ show_node (Elem t xs u)) d BetweenTags e)" by simp
qed

lemma passes_empty: "passes (EmptyElem t)"
  unfolding passes_def
proof (intro allI impI)
  fix n :: nat and a :: bytes and d e :: nat
  assume h: "ok_node (EmptyElem t) \<and> 0 < d \<and> 0 < e \<and> ordinary a
      \<and> length a + length (show_node (EmptyElem t)) < n"
  let ?b = "a @ CHR ''<'' # show_tag t"
  have 1: "silent n (Fr a d BetweenTags e) (CHR ''<'' # show_tag t) = Some (Fr ?b (d + 1) InsideTag e)"
    using silent_open [of t a n d e] h by simp
  have "\<not> prefix stream_stream (?b @ ''/>'')"
    using ordinary_append [of a "CHR ''<'' # show_tag t @ ''/>''"] h by (simp add: ordinary_def)
  then have 2: "silent n (Fr ?b (d + 1) InsideTag e) ''/>'' = Some (Fr (?b @ ''/>'') d BetweenTags e)"
    using close_empty_tag [of ?b n "d + 1" e] h by (simp add: frame_step_def frame_more_def Let_def)
  from silent_append [OF 1, of "''/>''"] 2
  show "silent n (Fr a d BetweenTags e) (show_node (EmptyElem t))
      = Some (Fr (a @ show_node (EmptyElem t)) d BetweenTags e)" by simp
qed

lemma all_pass: "passes x"
proof (induction x)
  case (Text s)
  have "silent n (Fr a d BetweenTags e) s = Some (Fr (a @ s) d BetweenTags e)"
    if "CHR ''<'' \<notin> set s" "length a + length s < n" for n a and d e :: nat
    by (rule silent_plain) (use that in \<open>auto simp: frame_step_def frame_more_def Let_def\<close>)
  then show ?case by (simp add: passes_def)
next
  case (CData s)
  then show ?case using silent_cdata by (simp add: passes_def)
next
  case (Elem t xs u)
  then show ?case by (intro passes_elem) blast
next
  case (EmptyElem t)
  then show ?case by (rule passes_empty)
qed

section \<open>A stream\<close>

text \<open>
  What a peer sends: an XML declaration, a stream header, stanzas, the closing tag.
\<close>

datatype item = XmlDecl bytes | Header tag | Stanza node | StreamEnd

fun show_item :: "item \<Rightarrow> bytes" where
  "show_item (XmlDecl s) = ''<?xml '' @ s @ ''>''"
| "show_item (Header t) = CHR ''<'' # show_tag t @ ''>''"
| "show_item (Stanza x) = show_node x"
| "show_item StreamEnd = ''</stream:stream>''"

fun ok_item :: "item \<Rightarrow> bool" where
  "ok_item (XmlDecl s) = (CHR ''>'' \<notin> set s)"
| "ok_item (Header t) = (ok_open_tag t \<and> prefix stream_stream (show_item (Header t)))"
| "ok_item (Stanza x) = stanza_node x"
| "ok_item StreamEnd = True"

text \<open>The index of the end of the first tag reported with the item; 0 stands for none.\<close>

fun item_eoft :: "item \<Rightarrow> nat" where
  "item_eoft (XmlDecl s) = 0"
| "item_eoft (Header t) = length (show_tag t) + 1"
| "item_eoft (Stanza x) = first_tag_end x"
| "item_eoft StreamEnd = 15"

abbreviation idle_frame :: "nat \<Rightarrow> frame" where
  "idle_frame e \<equiv> Fr [] 0 OutsideStanza e"

lemma silent_first_tag:
  assumes "ok_tag t" and "length (show_tag t) + 1 < n"
  shows "silent n (idle_frame e) (CHR ''<'' # show_tag t)
     = Some (Fr (CHR ''<'' # show_tag t) 1 InsideTag e)"
proof -
  have "silent n (idle_frame e) ''<'' = Some (Fr ''<'' 1 StanzaFirstChar e)"
    using assms(2) by (simp add: frame_step_def frame_more_def Let_def)
  from silent_append [OF this, of "show_tag t"] silent_tag [OF assms(1), of "''<''"] assms(2)
  show ?thesis by simp
qed

lemma emits_elem:
  assumes x: "stanza_node (Elem t xs u)" and len: "length (show_node (Elem t xs u)) \<le> n"
  shows "until_output (frame_step n) (idle_frame e) (show_node (Elem t xs u) @ rest)
     = (Ok (Some (show_node (Elem t xs u))), rest,
        idle_frame (if e = 0 then length (show_tag t) + 1 else e))"
proof -
  define e' where "e' = (if e = 0 then length (show_tag t) + 1 else e)"
  let ?k = "concat (map show_node xs)"
  let ?b = "CHR ''<'' # show_tag t" and ?c = "(CHR ''<'' # show_tag t) @ ''>''"
  let ?g = "(?c @ ?k) @ ''</'' @ show_tag u"
  let ?z = "?k @ (''</'' @ show_tag u) @ ''>''"
  have t: "ok_tag t" "last (show_tag t) \<noteq> CHR ''/''" and u: "ok_tag u" "last (show_tag u) \<noteq> CHR ''/''"
    and xs: "list_all ok_node xs"
    using x by (simp_all add: stanza_node_def ok_open_tag_def)
  have c: "ordinary ?c"
    using x by (auto simp: stanza_node_def ordinary_def dest: prefix_prefix [of _ _ ?z])
  have 1: "silent n (idle_frame e) ?b = Some (Fr ?b 1 InsideTag e)"
    using silent_first_tag [OF t(1)] len by simp
  have 2: "silent n (Fr ?b 1 InsideTag e) ''>'' = Some (Fr ?c 1 BetweenTags e')"
    using close_open_tag [of ?b n 1 e] len t(2) show_tag_nonempty c by (simp add: ordinary_def e'_def)
  have 3: "silent n (Fr ?c 1 BetweenTags e') ?k = Some (Fr (?c @ ?k) 1 BetweenTags e')"
    using silent_nodes [of xs 1 e' ?c n] all_pass xs len c by (simp add: e'_def)
  have 4: "silent n (Fr (?c @ ?k) 1 BetweenTags e') (''</'' @ show_tag u) = Some (Fr ?g 0 InsideTag e')"
    using silent_end_tag [OF u(1), of 1 "?c @ ?k" n e'] len by simp
  from silent_append [OF 1] silent_append [OF 2] silent_append [OF 3] 4
  have run: "silent n (idle_frame e) (?b @ ''>'' @ ?k @ ''</'' @ show_tag u) = Some (Fr ?g 0 InsideTag e')"
    by simp
  have "e' \<noteq> 0" by (simp add: e'_def)
  then have fin: "frame_step n (Fr ?g 0 InsideTag e') (CHR ''>'') = (Ok (Some (?g @ ''>'')), idle_frame e')"
    using close_last [of ?g n e'] u(2) show_tag_nonempty by simp
  have "until_output (frame_step n) (idle_frame e)
      ((?b @ ''>'' @ ?k @ ''</'' @ show_tag u) @ CHR ''>'' # rest)
      = (Ok (Some (?g @ ''>'')), rest, idle_frame e')"
    unfolding until_output_silent [OF run] using fin by simp
  then show ?thesis by (simp add: e'_def)
qed

lemma emits_empty:
  assumes x: "stanza_node (EmptyElem t)" and len: "length (show_node (EmptyElem t)) \<le> n"
  shows "until_output (frame_step n) (idle_frame e) (show_node (EmptyElem t) @ rest)
     = (Ok (Some (show_node (EmptyElem t))), rest,
        idle_frame (if e = 0 then length (show_tag t) + 2 else e))"
proof -
  let ?b = "CHR ''<'' # show_tag t"
  have "silent n (idle_frame e) ?b = Some (Fr ?b 1 InsideTag e)"
    using silent_first_tag [of t n e] x len by (simp add: stanza_node_def)
  from silent_append [OF this, of "''/''"] len
  have run: "silent n (idle_frame e) (?b @ ''/'') = Some (Fr (?b @ ''/'') 1 InsideTag e)"
    by (simp add: frame_step_def frame_more_def Let_def)
  have "until_output (frame_step n) (idle_frame e) ((?b @ ''/'') @ CHR ''>'' # rest)
      = (Ok (Some (?b @ ''/>'')), rest, idle_frame (if e = 0 then length ?b + 1 else e))"
    unfolding until_output_silent [OF run] using close_last_empty [of n ?b e] by simp
  then show ?thesis by simp
qed

lemma emits_header:
  assumes ok: "ok_item (Header t)" and len: "length (show_item (Header t)) \<le> n"
  shows "until_output (frame_step n) (idle_frame e) (show_item (Header t) @ rest)
     = (Ok (Some (show_item (Header t))), rest,
        idle_frame (if e = 0 then length (show_tag t) + 1 else e))"
proof -
  let ?b = "CHR ''<'' # show_tag t"
  have run: "silent n (idle_frame e) ?b = Some (Fr ?b 1 InsideTag e)"
    using silent_first_tag [of t n e] ok len by (simp add: ok_open_tag_def)
  have "\<not> suffix ''/>'' (?b @ ''>'')"
    using ok by (cases "show_tag t" rule: rev_cases) (auto simp: suffix_def ok_open_tag_def)
  then have fin: "frame_step n (Fr ?b 1 InsideTag e) (CHR ''>'')
      = (Ok (Some (?b @ ''>'')), idle_frame (if e = 0 then length ?b else e))"
    using ok by (auto simp: frame_step_def frame_close_def frame_closed_def frame_emit_def Let_def)
  have "until_output (frame_step n) (idle_frame e) (?b @ CHR ''>'' # rest)
      = (Ok (Some (?b @ ''>'')), rest, idle_frame (if e = 0 then length ?b else e))"
    unfolding until_output_silent [OF run] using fin by simp
  then show ?thesis by simp
qed

lemma emits_decl:
  assumes ok: "CHR ''>'' \<notin> set s" and len: "length s + 7 \<le> n"
  shows "until_output (frame_step n) (idle_frame e) (show_item (XmlDecl s) @ rest)
     = (Ok (Some (show_item (XmlDecl s))), rest, idle_frame e)"
proof -
  have 1: "silent n (idle_frame e) ''<?xml '' = Some (Fr ''<?xml '' 1 InsideXmlTag e)"
    using len by (simp add: frame_step_def frame_more_def Let_def suffix_def)
  have "silent n (Fr ''<?xml '' 1 InsideXmlTag e) s = Some (Fr (''<?xml '' @ s) 1 InsideXmlTag e)"
    by (rule silent_plain) (use ok len in \<open>auto simp: frame_step_def frame_more_def Let_def\<close>)
  with silent_append [OF 1, of s]
  have run: "silent n (idle_frame e) (''<?xml '' @ s) = Some (Fr (''<?xml '' @ s) 1 InsideXmlTag e)"
    by simp
  have "until_output (frame_step n) (idle_frame e) ((''<?xml '' @ s) @ CHR ''>'' # rest)
      = (Ok (Some ((''<?xml '' @ s) @ ''>'')), rest, idle_frame e)"
    unfolding until_output_silent [OF run] by (simp add: frame_step_def frame_emit_def)
  then show ?thesis by simp
qed

lemma emits_end:
  assumes len: "16 \<le> n"
  shows "until_output (frame_step n) (idle_frame e) (show_item StreamEnd @ rest)
     = (Ok (Some (show_item StreamEnd)), rest, idle_frame (if e = 0 then 15 else e))"
proof -
  have 1: "silent n (idle_frame e) ''</'' = Some (Fr ''</'' 1 EndStream e)"
    using len by (simp add: frame_step_def frame_more_def Let_def)
  have 2: "silent n (Fr ''</'' 1 EndStream e) ''stream:stream''
      = Some (Fr (''</'' @ ''stream:stream'') 1 EndStream e)"
    by (rule silent_plain) (use len in \<open>auto simp: frame_step_def frame_more_def Let_def\<close>)
  from silent_append [OF 1, of "''stream:stream''"] 2
  have run: "silent n (idle_frame e) ''</stream:stream'' = Some (Fr ''</stream:stream'' 1 EndStream e)"
    by simp
  have "until_output (frame_step n) (idle_frame e) (''</stream:stream'' @ CHR ''>'' # rest)
      = (Ok (Some ''</stream:stream>''), rest, idle_frame (if e = 0 then 15 else e))"
    unfolding until_output_silent [OF run] by (simp add: frame_step_def frame_emit_def)
  then show ?thesis by simp
qed

lemma emits_item:
  assumes "ok_item x" and "length (show_item x) \<le> n"
  shows "until_output (frame_step n) (idle_frame e) (show_item x @ rest)
     = (Ok (Some (show_item x)), rest, idle_frame (if e = 0 then item_eoft x else e))"
proof (cases x)
  case (XmlDecl s)
  with assms emits_decl [of s n e rest] show ?thesis by simp
next
  case (Header t)
  with assms emits_header [of t n e rest] show ?thesis by simp
next
  case (Stanza y)
  with assms emits_elem [of _ _ _ n e rest] emits_empty [of _ n e rest] show ?thesis
    by (cases y) (simp_all add: stanza_node_def)
next
  case StreamEnd
  with assms emits_end [of n e rest] show ?thesis by simp
qed

text \<open>Bytes before a stanza, up to the next opening bracket, are dropped.\<close>

lemma silent_junk:
  "CHR ''<'' \<notin> set ws \<Longrightarrow> silent n (idle_frame e) ws = Some (idle_frame e)"
  by (induction ws) (auto simp: frame_step_def Let_def)

lemma emits_after_junk:
  assumes "ok_item x" and "length (show_item x) \<le> n" and "CHR ''<'' \<notin> set ws"
  shows "until_output (frame_step n) (idle_frame e) (ws @ show_item x @ rest)
     = (Ok (Some (show_item x)), rest, idle_frame (if e = 0 then item_eoft x else e))"
  using emits_item [OF assms(1,2)] until_output_silent [OF silent_junk [OF assms(3)]] by simp

section \<open>The readers on a stream\<close>

text \<open>A filter between stanzas: what is left in its buffer does not matter.\<close>

definition idle :: "nat \<Rightarrow> nat \<Rightarrow> StanzaFilter \<Rightarrow> bool" where
  "idle n e f \<longleftrightarrow> serves n f \<and> filter_abs f = idle_frame e"

lemma idle_new: "0 < n \<Longrightarrow> idle n 0 (StanzaFilter_new n)"
proof -
  have "buf_size (StanzaFilter_new n) = n" by (simp add: StanzaFilter_new_def)
  then show "0 < n \<Longrightarrow> idle n 0 (StanzaFilter_new n)"
    by (simp add: idle_def serves_def filter_inv_new filter_abs_new frame_init_def)
qed

lemma idle_eoft: "idle n e f \<Longrightarrow> end_of_first_tag f = e"
  by (auto simp: idle_def filter_abs_def)

lemma idle_reset: "idle n e f \<Longrightarrow> idle n 0 (f\<lparr>end_of_first_tag := 0\<rparr>)"
  by (auto simp: idle_def serves_def filter_inv_def state_inv_def filter_abs_def split: StanzaState.splits)

lemma run_concrete:
  assumes f: "idle n e f"
    and run: "until_output (frame_step n) (idle_frame e) bs = (Ok x, rest, idle_frame e')"
  shows "\<exists>f'. until_output feed_bytes f bs = (Ok x, rest, f') \<and> idle n e' f'"
proof -
  obtain r1 rest1 f1 where u: "until_output feed_bytes f bs = (r1, rest1, f1)"
    by (cases "until_output feed_bytes f bs") auto
  have s: "serves n f" and a: "filter_abs f = idle_frame e" using f by (simp_all add: idle_def)
  from framing.run_simulates [OF s u] a run have r: "r1 = Ok x" "rest1 = rest" "filter_abs f1 = idle_frame e'"
    by simp_all
  from framing.run_keeps [OF s u [unfolded r]] r u show ?thesis by (auto simp: idle_def)
qed

lemma next_eoft_item_any:
  assumes "idle n e f" and "ok_item x" and "length (show_item x) \<le> n" and "CHR ''<'' \<notin> set ws"
  shows "\<exists>f'. reader_next_eoft (map RByte (ws @ show_item x @ rest)) f
      = (Ok (Some (show_item x, if e = 0 then item_eoft x else e)), map RByte rest, f') \<and> idle n 0 f'"
proof -
  from run_concrete [OF assms(1) emits_after_junk [OF assms(2-4), where e = e and rest = rest]]
  obtain f1 where u: "until_output feed_bytes f (ws @ show_item x @ rest)
      = (Ok (Some (show_item x)), rest, f1)" and f1: "idle n (if e = 0 then item_eoft x else e) f1" by auto
  have "filter_inv f" using assms(1) by (simp add: idle_def serves_def)
  from reader_next_eoft_bytes [OF this, of "ws @ show_item x @ rest"] u idle_eoft [OF f1] idle_reset [OF f1]
  show ?thesis by (simp del: map_append)
qed

lemma next_eoft_item:
  assumes "idle n 0 f" and "ok_item x" and "length (show_item x) \<le> n" and "CHR ''<'' \<notin> set ws"
  shows "\<exists>f'. reader_next_eoft (map RByte (ws @ show_item x @ rest)) f
      = (Ok (Some (show_item x, item_eoft x)), map RByte rest, f') \<and> idle n 0 f'"
  using next_eoft_item_any [OF assms, of rest] by simp

lemma next_item_any:
  assumes "idle n e f" and "ok_item x" and "length (show_item x) \<le> n" and "CHR ''<'' \<notin> set ws"
  shows "\<exists>f'. reader_next (map RByte (ws @ show_item x @ rest)) f
      = (Ok (Some (show_item x)), map RByte rest, f') \<and> idle n (if e = 0 then item_eoft x else e) f'"
proof -
  from run_concrete [OF assms(1) emits_after_junk [OF assms(2-4), where e = e and rest = rest]]
  obtain f1 where u: "until_output feed_bytes f (ws @ show_item x @ rest)
      = (Ok (Some (show_item x)), rest, f1)" and "idle n (if e = 0 then item_eoft x else e) f1" by blast
  moreover have "filter_inv f" using assms(1) by (simp add: idle_def serves_def)
  ultimately show ?thesis using reader_next_bytes [of f "ws @ show_item x @ rest"]
    by (auto simp del: map_append)
qed

lemma next_item:
  assumes "idle n e f" and "ok_item x" and "length (show_item x) \<le> n" and "CHR ''<'' \<notin> set ws"
  shows "\<exists>e' f'. reader_next (map RByte (ws @ show_item x @ rest)) f
      = (Ok (Some (show_item x)), map RByte rest, f') \<and> idle n e' f'"
  using next_item_any [OF assms, of rest] by blast

lemma next_junk:
  assumes "idle n e f" and "CHR ''<'' \<notin> set ws"
  shows "\<exists>f'. reader_next (map RByte ws) f = (Ok None, [], f') \<and> idle n e f'"
proof -
  have "until_output (frame_step n) (idle_frame e) (ws @ []) = (Ok None, [], idle_frame e)"
    unfolding until_output_silent [OF silent_junk [OF assms(2)]] by simp
  from run_concrete [OF assms(1) this] reader_next_bytes [of f] assms(1) show ?thesis
    by (auto simp: idle_def serves_def)
qed

text \<open>A list of items, each after some junk.\<close>

definition show_stream :: "(bytes \<times> item) list \<Rightarrow> bytes" where
  "show_stream xs = concat (map (\<lambda>(ws, x). ws @ show_item x) xs)"

lemma read_all_stream:
  assumes "idle n e f"
    and "\<forall>(ws, x)\<in>set xs. CHR ''<'' \<notin> set ws \<and> ok_item x \<and> length (show_item x) \<le> n"
    and "CHR ''<'' \<notin> set tail"
  shows "fst (read_all (map RByte (show_stream xs @ tail)) f ret) = Ok (ret @ map (show_item \<circ> snd) xs)"
  using assms
proof (induction xs arbitrary: f e ret)
  case Nil
  from next_junk [OF Nil.prems(1,3)] show ?case
    by (auto simp: show_stream_def read_all.simps [of "map RByte tail"])
next
  case (Cons p xs)
  obtain ws x where p: "p = (ws, x)" by (cases p)
  let ?in = "map RByte (ws @ show_item x @ show_stream xs @ tail)"
  from next_item [OF Cons.prems(1), of x ws "show_stream xs @ tail"] Cons.prems(2) p
  obtain e' f' where n: "reader_next ?in f = (Ok (Some (show_item x)), map RByte (show_stream xs @ tail), f')"
    and f': "idle n e' f'" by auto
  have "read_all ?in f ret = read_all (map RByte (show_stream xs @ tail)) f' (ret @ [show_item x])"
    using n by (subst read_all.simps) simp
  with Cons.IH [OF f', of "ret @ [show_item x]"] Cons.prems(2,3) show ?case
    by (simp add: p show_stream_def)
qed

section \<open>Any input\<close>

lemma next_loop_settled:
  "filter_inv f \<Longrightarrow> next_loop rd f = (r, rd', f') \<Longrightarrow> settled (buf_size f) (r, f')"
proof (induction rd arbitrary: f)
  case Nil
  then show ?case by (auto simp: current_buf_def filter_inv_def settled_def)
next
  case (Cons ev rd)
  show ?case
  proof (cases ev)
    case RErr
    with Cons.prems show ?thesis by (auto simp: current_buf_def filter_inv_def settled_def)
  next
    case (RByte b)
    obtain r1 f1 where step: "feed f b = (r1, f1)" by (cases "feed f b")
    from feed_settled [OF Cons.prems(1), of b] step have s: "settled (buf_size f) (r1, f1)" by simp
    show ?thesis
    proof (cases "r1 = Ok None")
      case True
      with s have "filter_inv f1" "buf_size f1 = buf_size f" by (auto simp: settled_def)
      with Cons.IH [of f1] Cons.prems(2) RByte step True show ?thesis by simp
    next
      case False
      with Cons.prems(2) RByte step s show ?thesis
        by (auto split: outcome.splits option.splits)
    qed
  qed
qed

lemma reader_next_settled:
  assumes "filter_inv f" and "reader_next rd f = (r, rd', f')"
  shows "settled (buf_size f) (r, f')"
proof -
  obtain r1 rd1 f1 where l: "next_loop rd f = (r1, rd1, f1)" by (cases "next_loop rd f") auto
  from next_loop_settled [OF assms(1) l] assms(2) l show ?thesis
    by (auto simp: reader_next_def settled_def split: outcome.splits option.splits)
qed

lemma reader_next_eoft_settled:
  assumes "filter_inv f" and "reader_next_eoft rd f = (r, rd', f')"
  shows "settled (buf_size f) (r, f')"
proof -
  obtain r1 rd1 f1 where l: "next_loop rd f = (r1, rd1, f1)" by (cases "next_loop rd f") auto
  have inv: "filter_inv (f1\<lparr>end_of_first_tag := 0\<rparr>) = filter_inv f1"
    by (cases "state f1") (simp_all add: filter_inv_def state_inv_def)
  from next_loop_settled [OF assms(1) l] assms(2) l inv show ?thesis
    by (auto simp: reader_next_eoft_def settled_def Let_def split: outcome.splits option.splits)
qed

lemma reader_next_segment:
  assumes f: "idle n e f" and run: "reader_next (map RByte bs) f = (Ok (Some s), rd', f')"
  shows "\<exists>junk rest. bs = junk @ s @ rest \<and> CHR ''<'' \<notin> set junk \<and> rd' = map RByte rest
      \<and> hd s = CHR ''<'' \<and> last s = CHR ''>'' \<and> length s \<le> n"
proof -
  have inv: "filter_inv f" and s: "serves n f" and a: "filter_abs f = idle_frame e" and n: "0 < n"
    using f by (auto simp: idle_def serves_def filter_inv_def)
  obtain r rest f1 where u: "until_output feed_bytes f bs = (r, rest, f1)"
    by (cases "until_output feed_bytes f bs") auto
  with reader_next_bytes [OF inv, of bs] run have r: "r = Ok (Some s)" "rd' = map RByte rest" by auto
  from framing.run_simulates [OF s u] a r
  have fr: "until_output (frame_step n) (idle_frame e) bs = (Ok (Some s), rest, filter_abs f1)" by simp
  have "frame_inv (idle_frame e)" by (simp add: frame_inv_def)
  from frame_run_emits [OF fr this] frame_run_bound [OF fr] n r(2) show ?thesis by auto
qed

text \<open>A stanza that has begun grows with every byte until it ends.\<close>

lemma until_output_used:
  "until_output step st xs = (r, rest, st') \<Longrightarrow>
     length rest \<le> length xs \<and> (r \<noteq> Ok None \<longrightarrow> length rest < length xs)"
  by (induction xs arbitrary: st) (fastforce split: prod.splits outcome.splits option.splits)+

text \<open>A smaller limit makes a difference only when it is reached.\<close>

lemma frame_step_limit:
  assumes "length (acc fr) < n" and "n < N"
  shows "frame_step n fr b = (case frame_step N fr b of (r, fr') \<Rightarrow>
     if r = Ok None \<and> length (acc fr') = n then (Err (StanzaTooBig (acc fr')), fr') else (r, fr'))"
  using assms
  by (cases "mode fr")
    (auto simp: frame_step_def frame_more_def frame_emit_def frame_illegal_def frame_close_def frame_closed_def Let_def)

lemma limited_run:
  assumes "until_output (frame_step N) fr bs = (r, rest, fr')" and "length (acc fr) < n" and "n < N"
    and "mode fr = OutsideStanza \<longrightarrow> bs = [] \<or> hd bs = CHR ''<''"
    and "used = length (acc fr) + (length bs - length rest)"
  shows "\<exists>fr''. until_output (frame_step n) fr bs =
      (if used < n \<or> used = n \<and> r \<noteq> Ok None then (r, rest, fr'')
       else (Err (StanzaTooBig (take n (acc fr @ bs))), drop (n - length (acc fr)) bs, fr''))"
  using assms
proof (induction bs arbitrary: fr)
  case (Cons b bs)
  obtain x f1 where step: "frame_step N fr b = (x, f1)" by (cases "frame_step N fr b")
  note lim = frame_step_limit [OF Cons.prems(2,3), of b, unfolded step prod.case]
  show ?case
  proof (cases "x = Ok None")
    case True
    with step Cons.prems(1) have run: "until_output (frame_step N) f1 bs = (r, rest, fr')" by simp
    from frame_step_None [OF step [unfolded True]] Cons.prems(4)
    have acc: "acc f1 = acc fr @ [b]" and m: "mode f1 \<noteq> OutsideStanza" by auto
    note u = until_output_used [OF run]
    show ?thesis
    proof (cases "length (acc f1) = n")
      case full: True
      with lim True have "until_output (frame_step n) fr (b # bs) = (Err (StanzaTooBig (acc f1)), bs, f1)" by simp
      moreover have "\<not> (used < n \<or> used = n \<and> r \<noteq> Ok None)" using u full acc Cons.prems(5) by auto
      moreover have "take n (acc fr @ b # bs) = acc f1" "drop (n - length (acc fr)) (b # bs) = bs"
        using full acc by auto
      ultimately show ?thesis by auto
    next
      case False
      with lim True have s: "until_output (frame_step n) fr (b # bs) = until_output (frame_step n) f1 bs" by simp
      have "length (acc f1) < n" "used = length (acc f1) + (length bs - length rest)"
        using False acc u Cons.prems(2,5) by auto
      moreover have "take n (acc f1 @ bs) = take n (acc fr @ b # bs)" "drop (n - length (acc f1)) bs = drop (n - length (acc fr)) (b # bs)"
        using acc \<open>length (acc f1) < n\<close> by (simp_all add: drop_Cons' Suc_diff_Suc)
      ultimately show ?thesis using Cons.IH [OF run _ Cons.prems(3)] m unfolding s by (auto simp del: take_append split: if_splits)
    qed
  next
    case False
    with step Cons.prems(1) have "r = x" "rest = bs" "fr' = f1" by (auto split: outcome.splits option.splits)
    with lim False Cons.prems(2,5) show ?thesis by (auto split: outcome.splits option.splits)
  qed
qed auto

lemma reader_limit:
  assumes "idle n e f" and "idle N e g" and "n < N" and "bs \<noteq> []" and "hd bs = CHR ''<''"
    and "reader_next (map RByte bs) g = (r, map RByte rest, g')"
    and "used = length bs - length rest"
  shows "\<exists>f'. reader_next (map RByte bs) f =
      (if used < n \<or> used = n \<and> r \<noteq> Ok None then (r, map RByte rest, f')
       else (Err (StanzaTooBig (take n bs)), map RByte (drop n bs), f'))"
proof -
  from assms(1,2) have inv: "filter_inv f" "filter_inv g" and s: "serves n f" "serves N g"
    and a: "filter_abs f = idle_frame e" "filter_abs g = idle_frame e" and n: "0 < n"
    by (auto simp: idle_def serves_def filter_inv_def)
  obtain r1 rest1 f1 where u: "until_output feed_bytes f bs = (r1, rest1, f1)" by (metis prod.exhaust)
  obtain r2 rest2 g1 where v: "until_output feed_bytes g bs = (r2, rest2, g1)" by (metis prod.exhaust)
  from v reader_next_bytes [OF inv(2), of bs] assms(6) have r2: "r2 = r" "map RByte rest2 = map RByte rest" by auto
  then have r3: "rest2 = rest" by (metis list.inj_map_strong rd_event.inject(1))
  from framing.run_simulates [OF s(2) v] a r2 r3
  have "until_output (frame_step N) (idle_frame e) bs = (r, rest, filter_abs g1)" by simp
  from limited_run [OF this _ assms(3), of used] n assms(5,7)
  obtain fr'' where "until_output (frame_step n) (idle_frame e) bs =
      (if used < n \<or> used = n \<and> r \<noteq> Ok None then (r, rest, fr'')
       else (Err (StanzaTooBig (take n bs)), drop n bs, fr''))" by (fastforce simp: frame.defs)
  with framing.run_simulates [OF s(1) u] a
  have "(r1, rest1) = (if used < n \<or> used = n \<and> r \<noteq> Ok None then (r, rest)
       else (Err (StanzaTooBig (take n bs)), drop n bs))" by (auto split: if_splits)
  with reader_next_bytes [OF inv(1), of bs] u show ?thesis by (auto split: if_splits)
qed

lemma frame_step_too_big:
  "frame_step n fr b = (Err (StanzaTooBig s), fr') \<Longrightarrow> acc fr' = s \<and> length s = n"
  by (auto simp: frame_step_def frame_more_def frame_emit_def frame_illegal_def frame_close_def
      frame_closed_def Let_def split: StanzaState.splits if_splits)

lemma frame_step_illegal:
  "frame_step n fr b = (Err (IllegalStanza s), fr') \<Longrightarrow> fr' = fr \<and> s = acc fr @ [b]"
  by (auto simp: frame_step_def frame_more_def frame_emit_def frame_illegal_def frame_close_def
      frame_closed_def Let_def split: StanzaState.splits if_splits)

lemma feed_too_big:
  assumes "filter_inv f" and "feed f b = (Err (StanzaTooBig s), f')"
  shows "s = buf f' \<and> length s = buf_size f \<and> cnt f' = length (buf f')"
proof -
  from feed_settled [OF assms(1), of b] assms(2)
  have st: "settled (buf_size f) (Err (StanzaTooBig s) :: nat option outcome, f')" by simp
  have "frame_step (buf_size f) (filter_abs f) b = (Err (StanzaTooBig s), filter_abs f')"
    using feed_bytes_simulates [OF assms(1), of b] assms(2) by (simp add: result_of_def)
  from frame_step_too_big [OF this] have len: "length (take (cnt f') (buf f')) = buf_size f"
    and s: "take (cnt f') (buf f') = s" by (simp_all add: filter_abs_def)
  from st len have "overrun f'" by (auto simp: settled_def filter_inv_def)
  with len s show ?thesis by (auto simp: overrun_def)
qed

lemma next_loop_too_big:
  "filter_inv f \<Longrightarrow> next_loop rd f = (Err (StanzaTooBig t), rd', f') \<Longrightarrow> cnt f' = length (buf f')"
proof (induction rd arbitrary: f)
  case (Cons ev rd)
  show ?case
  proof (cases ev)
    case (RByte b)
    obtain r f1 where step: "feed f b = (r, f1)" by (cases "feed f b")
    show ?thesis
    proof (cases "r = Ok None")
      case True
      with feed_settled [OF Cons.prems(1), of b] step have "filter_inv f1" by (auto simp: settled_def)
      with Cons.IH [of f1] Cons.prems(2) RByte step True show ?thesis by simp
    next
      case False
      with Cons.prems(2) RByte step have "feed f b = (Err (StanzaTooBig t), f')"
        by (auto split: outcome.splits option.splits)
      from feed_too_big [OF Cons.prems(1) this] show ?thesis by simp
    qed
  qed (use Cons.prems in \<open>auto split: outcome.splits simp: current_buf_def split: if_splits\<close>)
qed (auto simp: current_buf_def split: if_splits)

lemma reader_cases:
  obtains "rd = []" | rd1 where "rd = RErr # rd1" | b rd1 where "rd = RByte b # rd1"
  by (metis neq_Nil_conv rd_event.exhaust)

section \<open>Properties\<close>

text \<open>C1: the filter cuts a stream of declarations, headers, stanzas and closing tags into
  exactly those items, whatever bytes without an opening bracket stand between them
  (whitespace pings), and whatever stanzas the buffer held before.\<close>

theorem filter_cuts_stream:
  assumes "0 < n"
    and "\<forall>(ws, x)\<in>set xs. CHR ''<'' \<notin> set ws \<and> ok_item x \<and> length (show_item x) \<le> n"
    and "CHR ''<'' \<notin> set tail"
  shows "fst (read_all (map RByte (show_stream xs @ tail)) (StanzaFilter_new n) [])
     = Ok (map (show_item \<circ> snd) xs)"
  using read_all_stream [OF idle_new [OF assms(1)] assms(2,3), of "[]"] by simp

lemma filter_cuts_stream_witness:
  "fst (read_all (map RByte (show_stream
       [('' '', Stanza (Elem (CHR ''q'', []) [Text ''x'', CData ''</q>'', EmptyElem (CHR ''a'', [Plain (CHR '' ''), Quoted False ''/>''])] (CHR ''q'', []))),
        ([], StreamEnd)] @ ''  '')) (StanzaFilter_new 64) [])
     = Ok [''<q>x<![CDATA[</q>]]><a '' @ [CHR 0x27] @ ''/>'' @ [CHR 0x27] @ ''/></q>'', ''</stream:stream>'']"
  (is "fst (read_all (map RByte (show_stream ?xs @ ?tail)) _ _) = _")
proof -
  have "\<forall>(ws, x)\<in>set ?xs. CHR ''<'' \<notin> set ws \<and> ok_item x \<and> length (show_item x) \<le> 64"
    by code_simp
  from filter_cuts_stream [OF _ this, of ?tail] show ?thesis
    by (simp add: show_tag_def quote_def)
qed

text \<open>One call of \<open>next_eoft\<close> on a filter between stanzas returns the next item with
  the index of the end of its first tag, leaves exactly the rest of the input, and leaves
  the filter between stanzas.\<close>

theorem next_eoft_returns_item:
  assumes "idle n 0 f" and "ok_item x" and "length (show_item x) \<le> n" and "CHR ''<'' \<notin> set ws"
  shows "\<exists>f'. reader_next_eoft (map RByte (ws @ show_item x @ rest)) f
      = (Ok (Some (show_item x, item_eoft x)), map RByte rest, f') \<and> idle n 0 f'"
  by (rule next_eoft_item [OF assms])

lemma next_eoft_returns_item_witness:
  "\<exists>f'. reader_next_eoft (map RByte (''..'' @ ''<a b></a>'' @ ''<c'')) (StanzaFilter_new 9)
      = (Ok (Some (''<a b></a>'', 4)), map RByte ''<c'', f') \<and> idle 9 0 f'"
  using next_eoft_returns_item [OF idle_new [of 9],
      of "Stanza (Elem (CHR ''a'', [Plain (CHR '' ''), Plain (CHR ''b'')]) [] (CHR ''a'', []))" "''..''" "''<c''"]
  by (simp add: show_tag_def ok_open_tag_def ok_tag_def stanza_node_def stream_stream_def
      eval_nat_numeral)

text \<open>C11: one byte fed to the buffer machine is one step of the abstract machine, which keeps
  only the bytes of the current stanza; so the bytes that earlier stanzas left in the buffer
  never influence the result, in spite of the comparison of \<open>buf[0..15]\<close>.\<close>

theorem filter_refines_frame:
  assumes "filter_inv f" and "feed_bytes f b = (r, f')"
  shows "frame_step (buf_size f) (filter_abs f) b = (r, filter_abs f')"
  using framing.simulates [of "buf_size f" f b r f'] assms by (simp add: serves_def)

lemma filter_refines_frame_witness:
  "frame_step 8 frame_init (CHR ''<'')
     = (Ok None, filter_abs (snd (feed_bytes (StanzaFilter_new 8) (CHR ''<''))))"
proof -
  have f: "filter_inv (StanzaFilter_new 8)" by (rule filter_inv_new) simp
  have r: "fst (feed_bytes (StanzaFilter_new 8) (CHR ''<'')) = Ok None" by code_simp
  have n: "buf_size (StanzaFilter_new 8) = 8" by (simp add: StanzaFilter_new_def)
  from filter_refines_frame [OF f, of "CHR ''<''" "Ok None"] r n show ?thesis
    by (simp add: filter_abs_new prod_eq_iff)
qed

text \<open>C16: from a filter in a consistent state, reading never panics on any input, with I/O
  errors anywhere; afterwards the filter is consistent again, or the error was a stanza of
  the size of the whole buffer.\<close>

theorem reader_never_panics:
  assumes "filter_inv f" and "reader_next_eoft rd f = (r, rd', f')"
  shows "r \<noteq> Panic \<and> (filter_inv f' \<or> r = Err (StanzaTooBig (buf f')))"
  using reader_next_eoft_settled [OF assms] by (auto simp: settled_def)

lemma reader_never_panics_witness:
  "fst (reader_next_eoft [RByte (CHR ''<''), RErr] (StanzaFilter_new 4)) \<noteq> Panic"
proof -
  have "filter_inv (StanzaFilter_new 4)" by (rule filter_inv_new) simp
  from reader_never_panics [OF this] show ?thesis by (metis prod.collapse)
qed

text \<open>What a read returns is a segment of the input, unaltered: only bytes other than an
  opening bracket are dropped before it, everything after it is left for the next read; it
  starts with an opening and ends with a closing bracket, and is at most as long as the
  configured limit.\<close>

theorem stanza_is_segment:
  assumes "idle n e f" and "reader_next (map RByte bs) f = (Ok (Some s), rd', f')"
  shows "\<exists>junk rest. bs = junk @ s @ rest \<and> CHR ''<'' \<notin> set junk \<and> rd' = map RByte rest
      \<and> hd s = CHR ''<'' \<and> last s = CHR ''>'' \<and> length s \<le> n"
  by (rule reader_next_segment [OF assms])

lemma stanza_is_segment_witness:
  "\<exists>junk rest. ''x<a/>y'' = junk @ ''<a/>'' @ rest \<and> CHR ''<'' \<notin> set junk \<and> [RByte (CHR ''y'')] = map RByte rest
      \<and> hd ''<a/>'' = CHR ''<'' \<and> last ''<a/>'' = CHR ''>'' \<and> length ''<a/>'' \<le> 9"
proof -
  have "fst (reader_next (map RByte ''x<a/>y'') (StanzaFilter_new 9)) = Ok (Some ''<a/>'')"
    "fst (snd (reader_next (map RByte ''x<a/>y'') (StanzaFilter_new 9))) = [RByte (CHR ''y'')]"
    by code_simp+
  then show ?thesis
    by (intro stanza_is_segment [OF idle_new, of _ _ _ _ "snd (snd (reader_next (map RByte ''x<a/>y'') (StanzaFilter_new 9)))"])
      (auto simp: prod_eq_iff)
qed

text \<open>C18: the size limit is enforced, with an error and not a panic, and it is nothing but a limit:
  reading an item gives what a filter with any larger limit gives, when that is decided within
  the limit; and otherwise exactly the error that quotes as many bytes as the limit allows, as soon
  as these have been read, with all further bytes left to be read.\<close>

theorem stanza_limit_enforced:
  assumes "idle n e f" and "idle N e g" and "n < N" and "bs \<noteq> []" and "hd bs = CHR ''<''"
    and "reader_next (map RByte bs) g = (r, map RByte rest, g')"
    and "used = length bs - length rest"
  shows "\<exists>f'. reader_next (map RByte bs) f =
      (if used < n \<or> used = n \<and> r \<noteq> Ok None then (r, map RByte rest, f')
       else (Err (StanzaTooBig (take n bs)), map RByte (drop n bs), f'))"
  by (rule reader_limit [OF assms])

lemma stanza_limit_enforced_witness:
  "\<exists>f'. reader_next (map RByte ''<abcdef'') (StanzaFilter_new 5) =
      (if (7::nat) < 5 \<or> (7::nat) = 5 \<and> Ok (None :: bytes option) \<noteq> Ok None then (Ok None, map RByte [], f')
       else (Err (StanzaTooBig (take 5 ''<abcdef'')), map RByte (drop 5 ''<abcdef''), f'))"
proof -
  have "fst (reader_next (map RByte ''<abcdef'') (StanzaFilter_new 9)) = Ok None"
    "fst (snd (reader_next (map RByte ''<abcdef'') (StanzaFilter_new 9))) = map RByte []"
    by code_simp+
  then have r: "reader_next (map RByte ''<abcdef'') (StanzaFilter_new 9)
      = (Ok None, map RByte [], snd (snd (reader_next (map RByte ''<abcdef'') (StanzaFilter_new 9))))"
    by (metis prod.collapse)
  have "(0::nat) < 5" "(0::nat) < 9" "(5::nat) < 9" "''<abcdef'' \<noteq> []" "hd ''<abcdef'' = CHR ''<''"
    "(7::nat) = length ''<abcdef'' - length ([] :: bytes)" by simp_all
  from stanza_limit_enforced [OF idle_new [OF this(1)] idle_new [OF this(2)] this(3-5) r this(6)] show ?thesis .
qed

text \<open>A stanza that fills the buffer poisons the filter: any later read of it panics,
  because \<open>current_buf\<close> takes a window past the end of the buffer.\<close>

theorem too_big_poisons:
  assumes "filter_inv f" and "feed f b = (Err (StanzaTooBig s), f')"
  shows "s = buf f' \<and> length s = buf_size f \<and> fst (reader_next rd f') = Panic"
proof -
  from feed_too_big [OF assms] have "current_buf f' = Panic" by (simp add: current_buf_def)
  then have "fst (next_loop rd f') = Panic"
    by (cases rd rule: reader_cases) (simp_all add: feed_def)
  then have "fst (reader_next rd f') = Panic"
    by (auto simp: reader_next_def split: prod.splits outcome.splits option.splits)
  with feed_too_big [OF assms] show ?thesis by auto
qed

lemma too_big_poisons_witness:
  "fst (reader_next [] (snd (feed (snd (feed (StanzaFilter_new 2) (CHR ''<''))) (CHR ''a'')))) = Panic"
proof -
  let ?f = "snd (feed (StanzaFilter_new 2) (CHR ''<''))"
  have "filter_inv (StanzaFilter_new 2)" by (rule filter_inv_new) simp
  moreover have "fst (feed (StanzaFilter_new 2) (CHR ''<'')) = Ok None" by code_simp
  ultimately have inv: "filter_inv ?f"
    using feed_settled [of "StanzaFilter_new 2" "CHR ''<''"]
    by (auto simp: settled_def split: prod.splits)
  have "fst (feed ?f (CHR ''a'')) = Err (StanzaTooBig ''<a'')" by code_simp
  then have "feed ?f (CHR ''a'') = (Err (StanzaTooBig ''<a''), snd (feed ?f (CHR ''a'')))"
    by (metis prod.collapse)
  from too_big_poisons [OF inv this] show ?thesis by simp
qed

text \<open>An illegal byte is reported but not kept: the filter is as it was before the byte,
  so a reader that goes on after the error (as the shuffle loop does) resumes in the middle
  of the stanza, with the byte cut out of it.\<close>

theorem illegal_byte_is_skipped:
  assumes "filter_inv f" and "feed f b = (Err (IllegalStanza s), f')"
  shows "filter_abs f' = filter_abs f \<and> s = acc (filter_abs f) @ [b] \<and> filter_inv f'"
proof -
  have "frame_step (buf_size f) (filter_abs f) b = (Err (IllegalStanza s), filter_abs f')"
    using feed_bytes_simulates [OF assms(1), of b] assms(2) by (simp add: result_of_def)
  from frame_step_illegal [OF this] feed_settled [OF assms(1), of b] assms(2) show ?thesis
    by (auto simp: settled_def)
qed

lemma illegal_byte_is_skipped_witness:
  "filter_inv (snd (feed (snd (feed (StanzaFilter_new 9) (CHR ''<''))) (CHR ''!'')))
   \<and> fst (reader_next (map RByte ''b/>'') (snd (feed (snd (feed (StanzaFilter_new 9) (CHR ''<''))) (CHR ''!''))))
     = Ok (Some ''<b/>'')"
proof -
  let ?f = "snd (feed (StanzaFilter_new 9) (CHR ''<''))"
  have r: "fst (feed (StanzaFilter_new 9) (CHR ''<'')) = Ok None" by code_simp
  have "filter_inv (StanzaFilter_new 9)" by (rule filter_inv_new) simp
  from feed_settled [OF this, of "CHR ''<''"] r have inv: "filter_inv ?f"
    by (auto simp: settled_def split: prod.splits)
  have "fst (feed ?f (CHR ''!'')) = Err (IllegalStanza ''<!'')" by code_simp
  then have "feed ?f (CHR ''!'') = (Err (IllegalStanza ''<!''), snd (feed ?f (CHR ''!'')))"
    by (metis prod.collapse)
  moreover have "fst (reader_next (map RByte ''b/>'') (snd (feed ?f (CHR ''!'')))) = Ok (Some ''<b/>'')"
    by code_simp
  ultimately show ?thesis using illegal_byte_is_skipped [OF inv] by blast
qed

end
