(* ===== verification/Rust_Str.thy ===== *)
theory Rust_Str
  imports Prelude
begin

text \<open>
  What the program uses of Rust's \<open>str\<close> and \<open>String\<close>.  A string is the list of its UTF-8
  bytes; \<open>from_utf8\<close> accepts exactly the lists that are valid UTF-8.  All the needles the
  program searches for are themselves valid UTF-8, so searching and replacing on the bytes
  is the same as on the characters.  \<open>starts_with\<close> is \<^const>\<open>prefix\<close> and \<open>contains\<close> is
  \<^const>\<open>sublist\<close>.
\<close>

section \<open>UTF-8\<close>

definition is_cont :: "byte \<Rightarrow> bool" where
  "is_cont b \<longleftrightarrow> 0x80 \<le> (of_char b :: nat) \<and> (of_char b :: nat) \<le> 0xBF"

definition is_ascii :: "byte \<Rightarrow> bool" where
  "is_ascii b \<longleftrightarrow> (of_char b :: nat) < 0x80"

definition conts :: "nat \<Rightarrow> bytes \<Rightarrow> bool" where
  "conts k s \<longleftrightarrow> k \<le> length s \<and> list_all is_cont (take k s)"

text \<open>The length of the encoded character a list starts with, 0 when it does not.\<close>

fun utf8_width :: "bytes \<Rightarrow> nat" where
  "utf8_width [] = 0"
| "utf8_width (a # s) =
     (let x = (of_char a :: nat); y = (of_char (hd s) :: nat) in
      if x < 0x80 then 1
      else if 0xC2 \<le> x \<and> x \<le> 0xDF \<and> conts 1 s then 2
      else if 0xE0 \<le> x \<and> x \<le> 0xEF \<and> conts 2 s
           \<and> (x = 0xE0 \<longrightarrow> 0xA0 \<le> y) \<and> (x = 0xED \<longrightarrow> y \<le> 0x9F) then 3
      else if 0xF0 \<le> x \<and> x \<le> 0xF4 \<and> conts 3 s
           \<and> (x = 0xF0 \<longrightarrow> 0x90 \<le> y) \<and> (x = 0xF4 \<longrightarrow> y \<le> 0x8F) then 4
      else 0)"

function utf8_valid :: "bytes \<Rightarrow> bool" where
  "utf8_valid s =
     (if s = [] then True
      else if utf8_width s = 0 then False
      else utf8_valid (drop (utf8_width s) s))"
  by pat_completeness auto
termination
  by (relation "measure length") auto

declare utf8_valid.simps [simp del]

definition from_utf8 :: "bytes \<Rightarrow> bytes outcome" where
  "from_utf8 s = (if utf8_valid s then Ok s else Err Utf8Error)"

lemma utf8_valid_Nil [simp]: "utf8_valid []"
  by (simp add: utf8_valid.simps)

lemma utf8_valid_step: "utf8_width s \<noteq> 0 \<Longrightarrow> utf8_valid s = utf8_valid (drop (utf8_width s) s)"
  by (subst utf8_valid.simps) auto

lemma conts_append: "conts k s \<Longrightarrow> conts k (s @ t)"
  by (auto simp: conts_def)

lemma conts_append_ascii: "is_ascii c \<Longrightarrow> conts k (s @ c # t) \<longleftrightarrow> conts k s"
proof -
  assume c: "is_ascii c"
  show ?thesis
  proof (cases "k \<le> length s")
    case False
    then have "take k (s @ c # t) = s @ c # take (k - length s - 1) t"
      by (cases "k - length s") auto
    with c False show ?thesis by (auto simp: conts_def is_cont_def is_ascii_def)
  qed (simp add: conts_def)
qed

lemma utf8_width_le: "utf8_width s \<le> length s"
  by (cases s) (auto simp: Let_def conts_def)

lemma utf8_width_append:
  assumes "utf8_width s \<noteq> 0"
  shows "utf8_width (s @ t) = utf8_width s"
proof (cases s)
  case (Cons a r)
  have "r \<noteq> [] \<Longrightarrow> hd (r @ t) = hd r" by simp
  with assms Cons show ?thesis
    by (cases "r = []") (auto simp: Let_def conts_append conts_def split: if_splits)
qed (use assms in simp)

lemma utf8_width_append_ascii:
  assumes "s \<noteq> []" and "is_ascii c"
  shows "utf8_width (s @ c # t) = utf8_width s"
proof (cases s)
  case (Cons a r)
  show ?thesis
  proof (cases r)
    case Nil
    have "\<not> conts k (c # t) \<and> \<not> conts k []" if "0 < k" for k
      using assms(2) that by (cases k) (auto simp: conts_def is_cont_def is_ascii_def)
    with Cons Nil show ?thesis by (simp add: Let_def)
  next
    case (Cons b r')
    then have "hd (r @ c # t) = hd r" by simp
    with \<open>s = a # r\<close> conts_append_ascii [OF assms(2), of _ r t] show ?thesis
      by (simp only: append_Cons utf8_width.simps)
  qed
qed (use assms in simp)

lemma utf8_valid_append:
  "utf8_valid s \<Longrightarrow> utf8_valid t \<Longrightarrow> utf8_valid (s @ t)"
proof (induction s rule: utf8_valid.induct)
  case (1 s)
  show ?case
  proof (cases "s = []")
    case False
    with 1(2) have w: "utf8_width s \<noteq> 0" and v: "utf8_valid (drop (utf8_width s) s)"
      by (auto simp: utf8_valid.simps [of s] split: if_splits)
    from 1(1) [OF False w v 1(3)] w show ?thesis
      by (subst utf8_valid_step) (simp_all add: utf8_width_append utf8_width_le)
  qed (use 1 in simp)
qed

lemma utf8_valid_split:
  "utf8_valid (s @ c # t) \<Longrightarrow> is_ascii c \<Longrightarrow> utf8_valid s \<and> utf8_valid (c # t)"
proof (induction s rule: utf8_valid.induct)
  case (1 s)
  show ?case
  proof (cases "s = []")
    case False
    have w: "utf8_width (s @ c # t) = utf8_width s" using utf8_width_append_ascii False 1(3) by blast
    with 1(2) False have w0: "utf8_width s \<noteq> 0" and "utf8_valid (drop (utf8_width s) (s @ c # t))"
      by (auto simp: utf8_valid.simps [of "s @ c # t"] split: if_splits)
    then have "utf8_valid (drop (utf8_width s) s @ c # t)" using utf8_width_le [of s] by simp
    from 1(1) [OF False w0 this 1(3)] show ?thesis using utf8_valid_step [OF w0] by simp
  qed (use 1 in simp)
qed

lemma utf8_valid_Cons_ascii: "is_ascii c \<Longrightarrow> utf8_valid (c # t) = utf8_valid t"
  using utf8_valid_step [of "c # t"] by (simp add: is_ascii_def)

lemma utf8_valid_ascii: "list_all is_ascii s \<Longrightarrow> utf8_valid s"
  by (induction s) (simp_all add: utf8_valid_Cons_ascii)

section \<open>Replacing\<close>

text \<open>\<open>str::replace\<close>: every occurrence, from the left, not overlapping.\<close>

function replace_all :: "bytes \<Rightarrow> bytes \<Rightarrow> bytes \<Rightarrow> bytes" where
  "replace_all n r [] = []"
| "replace_all n r (c # s) =
     (if n \<noteq> [] \<and> prefix n (c # s)
      then r @ replace_all n r (drop (length n) (c # s))
      else c # replace_all n r s)"
  by pat_completeness auto
termination
  by (relation "measure (\<lambda>(n, r, s). length s)") auto

lemma replace_all_hit [simp]:
  "n \<noteq> [] \<Longrightarrow> replace_all n r (n @ s) = r @ replace_all n r s"
  by (cases n) simp_all

lemma replace_all_miss: "\<not> sublist n s \<Longrightarrow> replace_all n r s = s"
  by (induction s) (auto simp: sublist_Cons_right)

text \<open>
  Text without the needle in front of something that the needle cannot run into.
\<close>

lemma replace_all_skip:
  assumes "\<not> sublist n p" and "q = [] \<or> hd q \<notin> set (tl n)"
  shows "replace_all n r (p @ q) = p @ replace_all n r q"
  using assms(1)
proof (induction p)
  case Nil
  then show ?case by simp
next
  case (Cons c p)
  have "\<not> prefix n (c # p @ q)"
  proof
    assume pre: "prefix n (c # p @ q)"
    have "\<not> prefix n (c # p)" using Cons.prems by (simp add: sublist_Cons_right)
    with pre obtain m where m: "n = (c # p) @ m" "m \<noteq> []" "prefix m q"
      by (metis append_Cons append_Nil2 prefix_append prefix_order.dual_order.refl)
    then have "q \<noteq> []" and "hd q = hd m" by (auto simp: prefix_def)
    with m assms(2) show False by auto
  qed
  with Cons show ?case by (auto simp: sublist_Cons_right)
qed

end
