(* ===== verification/Websocket.thy ===== *)
theory Websocket
  imports Stanza_Xml Rust_Str
begin

text \<open>
  Model of \<open>src/websocket/mod.rs\<close>: the configuration of a WebSocket, and the conversion of
  stanzas between the framing of a TCP stream and the framing of RFC 7395, where a stream
  header is an \<open>open\<close> element, a closing tag a \<open>close\<close> element, and every message
  declares the namespaces it uses.
\<close>

section \<open>The operations\<close>

record WebSocketConfig =
  max_frame_size :: "nat option"
  max_message_size :: "nat option"
  accept_unmasked_frames :: bool

text \<open>The other fields of the library's configuration keep their defaults.\<close>

definition ws_cfg :: "nat \<Rightarrow> WebSocketConfig" where
  "ws_cfg max_stanza_size_bytes =
     \<lparr>max_frame_size = Some max_stanza_size_bytes,
      max_message_size = Some (max_stanza_size_bytes * 4),
      accept_unmasked_frames = True\<rparr>"

text \<open>The strings that occur more than once in the source.\<close>

definition ns_framing_server :: bytes where
  "ns_framing_server = ''urn:ietf:params:xml:ns:xmpp-framing-server''"

definition ns_framing :: bytes where
  "ns_framing = ''urn:ietf:params:xml:ns:xmpp-framing''"

definition from_ws :: "bytes \<Rightarrow> bytes" where
  "from_ws stanza =
     (if prefix ''<open '' stanza then
        (let stanza = replace_all ''<open '' ''<stream:stream '' stanza;
             stanza = replace_all ns_framing_server ''jabber:server'' stanza;
             stanza = replace_all ns_framing ''jabber:client'' stanza
         in if \<not> sublist ''xmlns:stream='' stanza
            then replace_all ''/>'' '' xmlns:stream=\"http://etherx.jabber.org/streams\">'' stanza
            else replace_all ''/>'' ''>'' stanza)
      else if prefix ''<close '' stanza then ''</stream:stream>''
      else stanza)"

definition has_attr :: "bytes \<Rightarrow> bytes \<Rightarrow> bool" where
  "has_attr s name \<longleftrightarrow> is_ok (first_index_of s (name @ [CHR 0x27])) \<or> is_ok (first_index_of s (name @ [CHR 0x22]))"

text \<open>
  \<open>buf[end_of_first_tag - 1]\<close> panics for an index out of range; the slices after it are in
  range when it is.
\<close>

definition to_ws_new :: "bytes \<Rightarrow> nat \<Rightarrow> bool \<Rightarrow> bytes outcome" where
  "to_ws_new bs end_tag is_c2s =
     (if prefix ''<stream:stream '' bs then
        bind_ok (from_utf8 bs) (\<lambda>bs.
          Ok (replace_all ''>'' ''/>''
               (replace_all ''jabber:client'' ns_framing
                 (replace_all ''jabber:server'' ns_framing_server
                   (replace_all ''<stream:stream '' ''<open '' bs)))))
      else if end_tag = 0 then from_utf8 bs
      else if prefix ''</stream:stream'' bs
        then Ok ''<close xmlns=\"urn:ietf:params:xml:ns:xmpp-framing\" />''
      else if \<not> end_tag - 1 < length bs then Panic
      else
        let end_tag = (if bs ! (end_tag - 1) = CHR ''/'' then end_tag - 1 else end_tag);
            first_tag_bytes = take end_tag bs;
            has_xmlns = has_attr first_tag_bytes '' xmlns='';
            has_xmlns_stream = (\<not> contains_seq first_tag_bytes ''stream:''
                                \<or> has_attr first_tag_bytes '' xmlns:stream='')
        in if has_xmlns \<and> has_xmlns_stream then from_utf8 bs
           else bind_ok (from_utf8 first_tag_bytes) (\<lambda>first.
             bind_ok (from_utf8 (drop end_tag bs)) (\<lambda>rest.
               Ok (first
                   @ (if \<not> has_xmlns
                      then (if is_c2s then '' xmlns='jabber:client'' else '' xmlns='jabber:server'') @ [CHR 0x27]
                      else [])
                   @ (if \<not> has_xmlns_stream
                      then '' xmlns:stream='http://etherx.jabber.org/streams'' @ [CHR 0x27] else [])
                   @ rest))))"

section \<open>The stream header\<close>

lemma sublist_skip_prefix: "n \<noteq> [] \<Longrightarrow> hd n \<notin> set a \<Longrightarrow> sublist n (a @ p) = sublist n p"
  by (induction a) (auto simp: sublist_Cons_right prefix_def Cons_eq_append_conv neq_Nil_conv)

lemma sublist_skip_suffix:
  assumes "n \<noteq> []" and "last n \<notin> set z"
  shows "sublist n (p @ z) = sublist n p"
proof -
  have "sublist (rev n) (rev z @ rev p) = sublist (rev n) (rev p)"
    by (rule sublist_skip_prefix) (use assms in \<open>simp_all add: hd_rev\<close>)
  then show ?thesis by (metis rev_append sublist_rev)
qed

lemma sublist_absent: "c \<in> set n \<Longrightarrow> c \<notin> set p \<Longrightarrow> \<not> sublist n p"
  using set_mono_sublist [of n p] by auto

text \<open>
  The attributes of a stream header around its default namespace: they contain no angle
  bracket and no other namespace of XMPP.
\<close>

definition plain_attrs :: "bytes \<Rightarrow> bool" where
  "plain_attrs s \<longleftrightarrow> CHR ''<'' \<notin> set s \<and> CHR ''>'' \<notin> set s \<and> \<not> sublist ''jabber:client'' s
     \<and> \<not> sublist ''jabber:server'' s \<and> \<not> sublist ns_framing s"

definition stream_header :: "bytes \<Rightarrow> bytes \<Rightarrow> bytes \<Rightarrow> bytes" where
  "stream_header p ns q = ''<stream:stream '' @ p @ ns @ q @ ''>''"

definition open_element :: "bytes \<Rightarrow> bytes \<Rightarrow> bytes \<Rightarrow> bytes" where
  "open_element p ns q = ''<open '' @ p @ ns @ q @ ''/>''"

lemma replace_default_ns:
  assumes p: "\<not> sublist n p" and q: "\<not> sublist n q" and n: "n \<noteq> []" "hd n \<notin> set (tl n)"
  shows "replace_all n r (p @ n @ q) = p @ r @ q"
  using replace_all_skip [OF p, of "n @ q" r] n q by (cases n) (simp_all add: replace_all_miss)

lemma replace_other_ns:
  assumes p: "\<not> sublist n p" and q: "\<not> sublist n q" and n: "n \<noteq> []" "ns \<noteq> []"
    and "hd ns \<notin> set (tl n)" and "hd n \<notin> set (tl ns)" and "\<not> prefix n (ns @ q)"
  shows "replace_all n r (p @ ns @ q) = p @ ns @ q"
proof -
  have "\<not> sublist n (ns @ q)"
    using q assms(4-7) sublist_skip_prefix [OF n(1), of "tl ns" q]
    by (cases ns) (simp_all add: sublist_Cons_right)
  then show ?thesis using replace_all_skip [OF p, of "ns @ q" r] assms(4,5) by (simp add: replace_all_miss)
qed

abbreviation ns_client :: bytes where
  "ns_client \<equiv> ''jabber:client''"

abbreviation ns_server :: bytes where
  "ns_server \<equiv> ''jabber:server''"

lemma to_ws_header:
  assumes p: "plain_attrs p" and q: "plain_attrs q" and ns: "ns = ns_client \<or> ns = ns_server"
    and u: "utf8_valid (stream_header p ns q)"
  shows "to_ws_new (stream_header p ns q) e c
    = Ok (open_element p (if ns = ns_client then ns_framing else ns_framing_server) q)"
proof -
  let ?P = "''<open '' @ p" and ?Q = "q @ ''>''"
  let ?ns = "if ns = ns_client then ns_framing else ns_framing_server"
  have nol: "CHR ''<'' \<notin> set (p @ ns @ q @ ''>'')"
    using p q ns by (auto simp: plain_attrs_def)
  have 1: "replace_all ''<stream:stream '' ''<open '' (stream_header p ns q) = ?P @ ns @ ?Q"
    using replace_all_hit [of "''<stream:stream ''" "''<open ''" "p @ ns @ q @ ''>''"]
      replace_all_miss [of "''<stream:stream ''" "p @ ns @ q @ ''>''"] sublist_absent [OF _ nol, of "''<stream:stream ''"]
    by (simp add: stream_header_def)
  have P: "\<not> sublist ns_server ?P" "\<not> sublist ns_client ?P"
    using p sublist_skip_prefix [of ns_server "''<open ''" p] sublist_skip_prefix [of ns_client "''<open ''" p]
    by (simp_all add: plain_attrs_def)
  have Q: "\<not> sublist ns_server ?Q" "\<not> sublist ns_client ?Q"
    using q sublist_skip_suffix [of ns_server "''>''" q] sublist_skip_suffix [of ns_client "''>''" q]
    by (simp_all add: plain_attrs_def)
  have 2: "replace_all ns_client ns_framing (replace_all ns_server ns_framing_server (?P @ ns @ ?Q)) = ?P @ ?ns @ ?Q"
  proof (cases "ns = ns_client")
    case True
    have "replace_all ns_server ns_framing_server (?P @ ns @ ?Q) = ?P @ ns @ ?Q"
      by (rule replace_other_ns) (use P Q True in simp_all)
    then show ?thesis using replace_default_ns [OF P(2) Q(2)] True by simp
  next
    case False
    with ns have ns: "ns = ns_server" by simp
    have "replace_all ns_server ns_framing_server (?P @ ns @ ?Q) = ?P @ ns_framing_server @ ?Q"
      using replace_default_ns [OF P(1) Q(1)] ns by simp
    moreover have "replace_all ns_client ns_framing (?P @ ns_framing_server @ ?Q) = ?P @ ns_framing_server @ ?Q"
      by (rule replace_other_ns) (use P Q in \<open>simp_all add: ns_framing_server_def\<close>)
    ultimately show ?thesis using ns by simp
  qed
  have "CHR ''>'' \<notin> set (?P @ ?ns @ q)"
    using p q by (auto simp: plain_attrs_def ns_framing_def ns_framing_server_def)
  then have 3: "replace_all ''>'' ''/>'' ((?P @ ?ns @ q) @ ''>'') = (?P @ ?ns @ q) @ ''/>''"
    using replace_all_skip [of "''>''" "?P @ ?ns @ q" "''>''" "''/>''"] sublist_absent [of "CHR ''>''" "''>''"]
    by simp
  have "prefix ''<stream:stream '' (stream_header p ns q)" by (simp add: stream_header_def)
  then show ?thesis
    using 1 2 3 u by (simp add: to_ws_new_def from_utf8_def open_element_def)
qed

lemma no_framing_server: "\<not> sublist ns_framing s \<Longrightarrow> \<not> sublist ns_framing_server s"
proof -
  have "ns_framing_server = ns_framing @ ''-server''"
    by (simp add: ns_framing_def ns_framing_server_def)
  then have "sublist ns_framing ns_framing_server" by (metis prefixI prefix_imp_sublist)
  then show "\<not> sublist ns_framing s \<Longrightarrow> \<not> sublist ns_framing_server s"
    using sublist_order.order_trans by blast
qed

lemma from_ws_open:
  assumes p: "plain_attrs p" and q: "plain_attrs q" "\<not> prefix ''-server'' q"
    and ns: "ns = ns_client \<or> ns = ns_server"
  shows "from_ws (open_element p (if ns = ns_client then ns_framing else ns_framing_server) q)
    = (if sublist ''xmlns:stream='' (''<stream:stream '' @ p @ ns @ q) then stream_header p ns q
       else stream_header p ns (q @ '' xmlns:stream=\"http://etherx.jabber.org/streams\"''))"
proof -
  let ?P = "''<stream:stream '' @ p" and ?Q = "q @ ''/>''"
  let ?ns = "if ns = ns_client then ns_framing else ns_framing_server"
  let ?S = "''<stream:stream '' @ p @ ns @ q"
  have nol: "CHR ''<'' \<notin> set (p @ ?ns @ ?Q)"
    using p q ns by (auto simp: plain_attrs_def ns_framing_def ns_framing_server_def)
  have 1: "replace_all ''<open '' ''<stream:stream '' (open_element p ?ns q) = ?P @ ?ns @ ?Q"
    using replace_all_hit [of "''<open ''" "''<stream:stream ''" "p @ ?ns @ ?Q"]
      replace_all_miss [of "''<open ''" "p @ ?ns @ ?Q"] sublist_absent [OF _ nol, of "''<open ''"]
    by (simp add: open_element_def)
  have P: "\<not> sublist ns_framing ?P"
    using p sublist_skip_prefix [of ns_framing "''<stream:stream ''" p] by (simp add: plain_attrs_def ns_framing_def)
  have Q: "\<not> sublist ns_framing ?Q"
    using q sublist_skip_suffix [of ns_framing "''/>''" q] by (simp add: plain_attrs_def ns_framing_def)
  note P' = no_framing_server [OF P] and Q' = no_framing_server [OF Q]
  have u: "ns_framing \<noteq> []" "hd ns_framing \<notin> set (tl ns_framing)"
      "ns_framing_server \<noteq> []" "hd ns_framing_server \<notin> set (tl ns_framing_server)"
    by (simp_all add: ns_framing_def ns_framing_server_def)
  have 2: "replace_all ns_framing ns_client (replace_all ns_framing_server ns_server (?P @ ?ns @ ?Q)) = ?P @ ns @ ?Q"
  proof (cases "ns = ns_client")
    case True
    have "\<not> prefix ''-server'' ?Q" using q(2) by (cases q) (auto simp: prefix_Cons prefix_append)
    then have "\<not> prefix ns_framing_server (ns_framing @ ?Q)"
      by (simp add: ns_framing_def ns_framing_server_def)
    then have "replace_all ns_framing_server ns_server (?P @ ns_framing @ ?Q) = ?P @ ns_framing @ ?Q"
      by (intro replace_other_ns P' Q') (simp_all add: ns_framing_def ns_framing_server_def)
    then show ?thesis using replace_default_ns [OF P Q u(1,2)] True by simp
  next
    case False
    with ns have ns: "ns = ns_server" by simp
    have "replace_all ns_framing_server ns_server (?P @ ?ns @ ?Q) = ?P @ ns_server @ ?Q"
      using replace_default_ns [OF P' Q' u(3,4)] ns by simp
    moreover have "replace_all ns_framing ns_client (?P @ ns_server @ ?Q) = ?P @ ns_server @ ?Q"
      by (rule replace_other_ns [OF P Q]) (simp_all add: ns_framing_def)
    ultimately show ?thesis using ns by simp
  qed
  have "CHR ''>'' \<notin> set ?S" using p q ns by (auto simp: plain_attrs_def)
  then have "\<not> sublist ''/>'' ?S" using sublist_absent [of "CHR ''>''" "''/>''"] by simp
  from replace_all_skip [OF this, of "''/>''"]
  have 3: "replace_all ''/>'' r (?P @ ns @ ?Q) = ?S @ r" for r
    using replace_all_hit [of "''/>''" r "[]"] by simp
  have 4: "sublist ''xmlns:stream='' (?P @ ns @ ?Q) = sublist ''xmlns:stream='' ?S"
    using sublist_skip_suffix [of "''xmlns:stream=''" "''/>''" ?S] by simp
  have "prefix ''<open '' (open_element p ?ns q)" by (simp add: open_element_def)
  then show ?thesis
    unfolding from_ws_def Let_def 1 2 3 4 by (simp add: stream_header_def)
qed

section \<open>Stanzas\<close>

text \<open>
  The namespaces that a first tag lacks, as they are added to it: in the grammar of stanzas
  they are more attributes.
\<close>

definition ns_attr :: "bytes \<Rightarrow> bytes \<Rightarrow> piece list" where
  "ns_attr name v = map Plain name @ [Quoted False v]"

definition missing_ns :: "bool \<Rightarrow> bytes \<Rightarrow> piece list" where
  "missing_ns is_c2s first =
     (if has_attr first '' xmlns='' then []
      else ns_attr '' xmlns='' (if is_c2s then ns_client else ns_server))
     @ (if sublist ''stream:'' first \<and> \<not> has_attr first '' xmlns:stream=''
        then ns_attr '' xmlns:stream='' ''http://etherx.jabber.org/streams'' else [])"

fun first_tag :: "node \<Rightarrow> bytes" where
  "first_tag (Elem t ns u) = CHR ''<'' # show_tag t"
| "first_tag (EmptyElem t) = CHR ''<'' # show_tag t"
| "first_tag (Text s) = []"
| "first_tag (CData s) = []"

fun after_first_tag :: "node \<Rightarrow> bytes" where
  "after_first_tag (Elem t ns u) = CHR ''>'' # concat (map show_node ns) @ ''</'' @ show_tag u @ ''>''"
| "after_first_tag (EmptyElem t) = ''/>''"
| "after_first_tag (Text s) = s"
| "after_first_tag (CData s) = ''<![CDATA['' @ s @ '']]>''"

fun with_attrs :: "piece list \<Rightarrow> node \<Rightarrow> node" where
  "with_attrs ps (Elem t ns u) = Elem (fst t, snd t @ ps) ns u"
| "with_attrs ps (EmptyElem t) = EmptyElem (fst t, snd t @ ps)"
| "with_attrs ps (Text s) = Text s"
| "with_attrs ps (CData s) = CData s"

lemma show_ns_attr: "concat (map show_piece (ns_attr name v)) = name @ CHR 0x27 # v @ [CHR 0x27]"
proof -
  have "concat (map show_piece (map Plain name)) = name" by (induction name) simp_all
  then show ?thesis by (simp add: ns_attr_def quote_def)
qed

lemma show_node_split: "show_node x = first_tag x @ after_first_tag x"
  by (cases x) simp_all

lemma show_with_attrs:
  "is_elem x \<Longrightarrow> show_node (with_attrs ps x)
     = first_tag x @ concat (map show_piece ps) @ after_first_tag x"
  by (cases x) (simp_all add: show_tag_def)

lemma first_tag_with_attrs:
  "is_elem x \<Longrightarrow> first_tag (with_attrs ps x) = first_tag x @ concat (map show_piece ps)"
  by (cases x) (simp_all add: show_tag_def)

lemma ok_ns_attr: "CHR 0x27 \<notin> set v \<Longrightarrow> set name \<inter> {CHR ''>'', CHR 0x27, CHR 0x22} = {}
    \<Longrightarrow> list_all ok_piece (ns_attr name v)"
  by (auto simp: ns_attr_def list_all_iff quote_def)

lemma ok_missing_ns: "list_all ok_piece (missing_ns c s)"
  by (simp add: missing_ns_def ok_ns_attr)

lemma show_pieces_nonempty: "ps \<noteq> [] \<Longrightarrow> concat (map show_piece ps) \<noteq> []"
proof -
  have "show_piece p \<noteq> []" for p by (cases p) simp_all
  then show "ps \<noteq> [] \<Longrightarrow> concat (map show_piece ps) \<noteq> []" by (cases ps) simp_all
qed

lemma last_missing_ns:
  assumes "missing_ns c s \<noteq> []"
  shows "last (a @ concat (map show_piece (missing_ns c s))) = CHR 0x27"
proof -
  have "last (concat (map show_piece (ns_attr n v))) = CHR 0x27" for n v
    by (simp add: show_ns_attr)
  moreover have "ns_attr n v \<noteq> []" for n v by (simp add: ns_attr_def)
  ultimately have "last (concat (map show_piece (missing_ns c s))) = CHR 0x27"
    using assms show_pieces_nonempty
    by (simp add: missing_ns_def last_append del: concat_eq_Nil_conv split: if_splits)
  with show_pieces_nonempty [OF assms] show ?thesis by (simp add: last_append del: concat_eq_Nil_conv)
qed

lemma ok_with_missing:
  assumes "is_elem x" and "ok_node x"
  shows "ok_node (with_attrs (missing_ns c s) x)"
proof -
  have tag: "ok_tag t \<Longrightarrow> ok_tag (fst t, snd t @ missing_ns c s)" for t
    by (simp add: ok_tag_def ok_missing_ns)
  moreover have "ok_open_tag t \<Longrightarrow> ok_open_tag (fst t, snd t @ missing_ns c s)" for t
    using tag last_missing_ns [of c s "show_tag t"] show_pieces_nonempty [of "missing_ns c s"]
    by (cases "missing_ns c s = []") (simp_all add: ok_open_tag_def show_tag_def del: concat_eq_Nil_conv)
  ultimately show ?thesis using assms by (cases x) simp_all
qed

lemma first_tag_at:
  assumes "stanza_node x"
  shows "first_tag_end x \<noteq> 0" and "first_tag_end x - 1 < length (show_node x)"
    and "(if show_node x ! (first_tag_end x - 1) = CHR ''/'' then first_tag_end x - 1
          else first_tag_end x) = length (first_tag x)"
proof -
  from assms have x: "is_elem x" "ok_node x" by (simp_all add: stanza_node_def)
  then show "first_tag_end x \<noteq> 0" and "first_tag_end x - 1 < length (show_node x)" by (cases x; simp)+
  show "(if show_node x ! (first_tag_end x - 1) = CHR ''/'' then first_tag_end x - 1
          else first_tag_end x) = length (first_tag x)"
  proof (cases x)
    case (Elem t ns u)
    then have "show_tag t ! (length (show_tag t) - 1) \<noteq> CHR ''/''"
      using x(2) by (simp add: ok_open_tag_def last_conv_nth show_tag_nonempty)
    moreover have "show_tag t \<noteq> []" by (rule show_tag_nonempty)
    ultimately show ?thesis using Elem by (simp add: nth_append nth_Cons')
  next
    case (EmptyElem t)
    then show ?thesis by (simp add: nth_append)
  qed (use x in simp_all)
qed

lemma after_first_tag_ascii:
  "is_elem x \<Longrightarrow> \<exists>b r. after_first_tag x = b # r \<and> is_ascii b"
  by (cases x) (auto simp: is_ascii_def)

lemma to_ws_stanza:
  assumes x: "stanza_node x" and u: "utf8_valid (show_node x)"
  shows "to_ws_new (show_node x) (first_tag_end x) c
    = Ok (show_node (with_attrs (missing_ns c (first_tag x)) x))"
proof -
  from x have e: "is_elem x" and ok: "ok_node x" and nostr: "\<not> prefix ''<stream:stream '' (show_node x)"
    by (simp_all add: stanza_node_def stream_stream_def)
  have "\<not> prefix ''</stream:stream'' (show_node x)"
    using e ok by (cases x) (auto simp: show_tag_def ok_open_tag_def ok_tag_def)
  moreover obtain b r where r: "after_first_tag x = b # r" "is_ascii b"
    using after_first_tag_ascii [OF e] by blast
  then have v: "utf8_valid (first_tag x)" "utf8_valid (after_first_tag x)"
    using u utf8_valid_split [of "first_tag x" b r] by (simp_all add: show_node_split)
  have "take (length (first_tag x)) (show_node x) = first_tag x"
    and "drop (length (first_tag x)) (show_node x) = after_first_tag x"
    by (simp_all add: show_node_split)
  ultimately show ?thesis
    using nostr first_tag_at [OF x] v u show_with_attrs [OF e, of "missing_ns c (first_tag x)"]
    unfolding to_ws_new_def Let_def
    by (auto simp: from_utf8_def missing_ns_def show_ns_attr slice_simps show_node_split)
qed

lemma has_attr_sublist [slice_simps]:
  "has_attr s name \<longleftrightarrow> sublist (name @ [CHR 0x27]) s \<or> sublist (name @ [CHR 0x22]) s"
  by (simp add: has_attr_def is_ok_iff slice_find.found_iff_sublist)

lemma sublist_mid: "sublist n p \<or> sublist n q \<or> sublist n r \<Longrightarrow> sublist n (p @ q @ r)"
  by (meson sublist_appendI sublist_append_leftI sublist_append_rightI sublist_order.order_trans)

lemma has_attr_mid:
  "has_attr p name \<or> has_attr q name \<or> has_attr r name \<Longrightarrow> has_attr (p @ q @ r) name"
  unfolding has_attr_sublist using sublist_mid by blast

lemma has_ns_attr: "has_attr (concat (map show_piece (ns_attr name v))) name"
proof -
  have "concat (map show_piece (ns_attr name v)) = [] @ (name @ [CHR 0x27]) @ v @ [CHR 0x27]"
    by (simp add: show_ns_attr)
  then show ?thesis unfolding has_attr_sublist by (metis sublist_appendI)
qed

lemma missing_ns_complete:
  defines "out \<equiv> \<lambda>c s. s @ concat (map show_piece (missing_ns c s))"
  shows "has_attr (out c s) '' xmlns=''"
    and "sublist ''stream:'' s \<Longrightarrow> has_attr (out c s) '' xmlns:stream=''"
proof -
  show "has_attr (out c s) '' xmlns=''"
    unfolding out_def missing_ns_def using has_ns_attr has_attr_mid
    by (simp del: append_assoc add: has_attr_mid)
  show "sublist ''stream:'' s \<Longrightarrow> has_attr (out c s) '' xmlns:stream=''"
    unfolding out_def missing_ns_def using has_ns_attr has_attr_mid
    by simp
qed

lemma header_back:
  assumes "plain_attrs p" and "plain_attrs q" and "ns = ''jabber:client'' \<or> ns = ''jabber:server''"
    and "\<not> prefix ''-server'' q" and "sublist ''xmlns:stream='' p \<or> sublist ''xmlns:stream='' q"
    and "utf8_valid (stream_header p ns q)"
  shows "\<exists>w. to_ws_new (stream_header p ns q) e c = Ok w \<and> prefix ''<open '' w
      \<and> from_ws w = stream_header p ns q"
proof -
  have "sublist ''xmlns:stream='' (''<stream:stream '' @ p @ ns @ q)"
    using assms(5) sublist_mid [of "''xmlns:stream=''" p ns q] by (auto simp: sublist_Cons_right)
  with to_ws_header [OF assms(1,2,3,6)] from_ws_open [OF assms(1,2,4,3)] show ?thesis
    by (simp add: open_element_def)
qed

section \<open>Properties\<close>

text \<open>C29: a stream header converted for a WebSocket and converted back by the proxy at the
  other end is the same header, byte for byte, when it declares the stream namespace, one of
  the two XMPP namespaces once, and no attribute contains an angle bracket.\<close>

theorem ws_header_roundtrip:
  assumes "plain_attrs p" and "plain_attrs q" and "ns = ''jabber:client'' \<or> ns = ''jabber:server''"
    and "\<not> prefix ''-server'' q" and "sublist ''xmlns:stream='' p \<or> sublist ''xmlns:stream='' q"
    and "utf8_valid (stream_header p ns q)"
  shows "\<exists>w. to_ws_new (stream_header p ns q) e c = Ok w \<and> prefix ''<open '' w
      \<and> from_ws w = stream_header p ns q"
  by (rule header_back [OF assms])

lemma ws_header_roundtrip_witness:
  "\<exists>w. to_ws_new (stream_header ''to=\"a\" xmlns=\"'' ''jabber:client'' ''\" xmlns:stream=\"s\"'') 0 True = Ok w
      \<and> prefix ''<open '' w
      \<and> from_ws w = stream_header ''to=\"a\" xmlns=\"'' ''jabber:client'' ''\" xmlns:stream=\"s\"''"
  by (rule ws_header_roundtrip; code_simp)

text \<open>That an attribute of this name is in the bytes of a tag, with a value in either quote.\<close>

definition declares :: "bytes \<Rightarrow> bytes \<Rightarrow> bool" where
  "declares name tag_bytes \<longleftrightarrow> sublist (name @ [CHR 0x27]) tag_bytes \<or> sublist (name @ [CHR 0x22]) tag_bytes"

lemma has_attr_declares: "has_attr tag_bytes name = declares name tag_bytes"
  by (simp add: has_attr_sublist declares_def)

text \<open>C30: a stanza sent over a WebSocket is the same element with exactly what is missing added at
  the end of its first tag: \<open>jabber:client\<close> on a client's stream and \<open>jabber:server\<close> on a server's as
  the default namespace, when the tag declares none, and then the stream namespace, when the tag
  uses that prefix and does not declare it; so the result declares both where needed, is well
  formed, and is the stanza itself when nothing is missing.\<close>

theorem ws_stanza_declares_namespaces:
  assumes "stanza_node x" and "utf8_valid (show_node x)"
    and "ps = (if declares '' xmlns='' (first_tag x) then []
               else map Plain '' xmlns='' @ [Quoted False (if c then ''jabber:client'' else ''jabber:server'')])
            @ (if sublist ''stream:'' (first_tag x) \<and> \<not> declares '' xmlns:stream='' (first_tag x)
               then map Plain '' xmlns:stream='' @ [Quoted False ''http://etherx.jabber.org/streams''] else [])"
  shows "to_ws_new (show_node x) (first_tag_end x) c = Ok (show_node (with_attrs ps x))
      \<and> ok_node (with_attrs ps x)
      \<and> declares '' xmlns='' (first_tag (with_attrs ps x))
      \<and> (sublist ''stream:'' (first_tag x) \<longrightarrow> declares '' xmlns:stream='' (first_tag (with_attrs ps x)))
      \<and> (ps = [] \<longrightarrow> with_attrs ps x = x)"
proof -
  have x: "is_elem x" "ok_node x" using assms(1) by (simp_all add: stanza_node_def)
  have ps: "ps = missing_ns c (first_tag x)"
    by (simp add: assms(3) missing_ns_def ns_attr_def has_attr_declares)
  have "ps = [] \<longrightarrow> with_attrs ps x = x" by (cases x) simp_all
  then show ?thesis
    using to_ws_stanza [OF assms(1,2), of c] ok_with_missing [OF x, of c "first_tag x"]
      missing_ns_complete [of "first_tag x" c] first_tag_with_attrs [OF x(1)]
    by (simp add: ps has_attr_declares)
qed

lemma ws_stanza_declares_namespaces_witness:
  "let x = Elem (CHR ''i'', map Plain ''q to='' @ [Quoted False ''a>b'']) [Text ''hi''] (CHR ''i'', [Plain (CHR ''q'')]);
       ps = map Plain '' xmlns='' @ [Quoted False ''jabber:client'']
   in to_ws_new (show_node x) (first_tag_end x) True = Ok (show_node (with_attrs ps x))"
proof -
  let ?x = "Elem (CHR ''i'', map Plain ''q to='' @ [Quoted False ''a>b'']) [Text ''hi''] (CHR ''i'', [Plain (CHR ''q'')])"
  let ?ps = "map Plain '' xmlns='' @ [Quoted False ''jabber:client'']"
  have "stanza_node ?x" and "utf8_valid (show_node ?x)" by code_simp+
  moreover have "?ps = (if declares '' xmlns='' (first_tag ?x) then []
               else map Plain '' xmlns='' @ [Quoted False (if True then ''jabber:client'' else ''jabber:server'')])
            @ (if sublist ''stream:'' (first_tag ?x) \<and> \<not> declares '' xmlns:stream='' (first_tag ?x)
               then map Plain '' xmlns:stream='' @ [Quoted False ''http://etherx.jabber.org/streams''] else [])"
    by code_simp
  ultimately show ?thesis unfolding Let_def using ws_stanza_declares_namespaces [of ?x ?ps True] by blast
qed

end
