(* ===== verification/Srv_Collect.thy ===== *)
theory Srv_Collect
  imports Verify Websocket
begin

text \<open>
  Model of how \<open>src/srv.rs\<close> finds the servers of a domain: DNS records, the two formats of
  host-meta, and \<open>get_xmpp_connections\<close>, which puts them together with the verifier of the
  certificates.

  The world is a parameter, the record \<open>world\<close>: DNS, HTTPS, the parsers of JSON, of URLs
  and of names.  \<open>'u\<close> and \<open>'l\<close> are the two types of URLs, \<open>'b\<close> that of HTTP bodies, \<open>'n\<close>
  that of server names.
\<close>

section \<open>Records and documents\<close>

record SrvRecord =
  srv_priority :: "16 word"
  srv_weight :: "16 word"
  srv_port :: "16 word"
  srv_is_root :: bool
  srv_target :: bytes

datatype RData = SRV SrvRecord | TXT "bytes list" | OtherRData

record LinkCommon =
  link_ips :: "IpAddr list"
  link_priority :: "16 word"
  link_weight :: "16 word"
  link_sni :: bytes
  link_ech :: "bytes option"

datatype Link =
    LinkWebSocket bytes "LinkCommon option"
  | LinkWebTransport bytes LinkCommon
  | LinkDirectTLS LinkCommon "16 word"
  | LinkQuic LinkCommon "16 word"
  | S2SWebTransport bytes LinkCommon
  | S2SWebSocket bytes LinkCommon
  | S2SDirectTLS LinkCommon "16 word"
  | S2SQuic LinkCommon "16 word"
  | LinkUnknown

record HostMetaXmpp =
  ttl :: "16 word"
  public_key_pins_sha_256 :: "bytes list"

record HostMeta =
  xmpp :: "HostMetaXmpp option"
  links :: "Link list"

record ('u, 'l, 'b, 'n) world =
  get_https :: "bytes \<Rightarrow> 'b response outcome"
  parse_host_meta :: "'b \<Rightarrow> HostMeta outcome"
  parse_posh :: "'b \<Rightarrow> PoshJson outcome"
  body_bytes :: "'b \<Rightarrow> bytes outcome"
  srv_lookup :: "bytes \<Rightarrow> RData list outcome"
  txt_lookup :: "bytes \<Rightarrow> RData list outcome"
  into_name :: "bytes \<Rightarrow> bytes outcome"
  server_name :: "bytes \<Rightarrow> 'n outcome"
  uri_try_from :: "bytes \<Rightarrow> 'u outcome"
  uri_host :: "'u \<Rightarrow> bytes option"
  uri_port :: "'u \<Rightarrow> (bytes \<times> 16 word) option"
  uri_to_string :: "'u \<Rightarrow> bytes"
  uri_equal :: "'u \<Rightarrow> 'u \<Rightarrow> bool"
  url_parse :: "bytes \<Rightarrow> 'l outcome"
  url_port :: "'l \<Rightarrow> 16 word option"
  url_serialization :: "'l \<Rightarrow> bytes"

section \<open>DNS\<close>

definition srv_to_connection :: "('u, 'l) XmppConnectionType \<Rightarrow> SrvRecord \<Rightarrow> ('u, 'l) XmppConnection" where
  "srv_to_connection ty srv =
     \<lparr>conn_type = ty, priority = srv_priority srv, weight = srv_weight srv, port = srv_port srv,
      target = srv_target srv, secure = False, ips = [], ech = None\<rparr>"

fun push_srvs ::
    "('u, 'l) XmppConnectionType \<Rightarrow> RData list \<Rightarrow> ('u, 'l) XmppConnection list \<Rightarrow> ('u, 'l) XmppConnection list"
where
  "push_srvs ty [] ret = ret"
| "push_srvs ty (SRV srv # rs) ret =
     push_srvs ty rs (if \<not> srv_is_root srv then ret @ [srv_to_connection ty srv] else ret)"
| "push_srvs ty (r # rs) ret = push_srvs ty rs ret"

definition collect_srvs ::
    "('u, 'l) XmppConnection list \<Rightarrow> RData list outcome \<Rightarrow> ('u, 'l) XmppConnectionType \<Rightarrow> ('u, 'l) XmppConnection list"
where
  "collect_srvs ret srv_records ty =
     (case srv_records of Ok rs \<Rightarrow> push_srvs ty rs ret | Err e \<Rightarrow> ret | Panic \<Rightarrow> ret)"

definition wss_to_srv :: "('u, 'l, 'b, 'n) world \<Rightarrow> bytes \<Rightarrow> bool \<Rightarrow> ('u, 'l) XmppConnection option" where
  "wss_to_srv w url sec =
     (case uri_try_from w url of
        Err e \<Rightarrow> None
      | Panic \<Rightarrow> None
      | Ok u \<Rightarrow>
          (case uri_host w u of
             None \<Rightarrow> None
           | Some name \<Rightarrow>
               (let origin = ''https://'' @ name;
                    (origin, p) = (case uri_port w u of
                        Some (s, n) \<Rightarrow> (origin @ '':'' @ s, n)
                      | None \<Rightarrow> (origin, 443))
                in Some \<lparr>conn_type = WebSocket u origin, priority = 65535, weight = 0, port = p,
                         target = name, secure = sec, ips = [], ech = None\<rparr>)))"

definition wt_to_srv :: "('u, 'l, 'b, 'n) world \<Rightarrow> bytes \<Rightarrow> (('u, 'l) XmppConnectionType \<times> 16 word) option" where
  "wt_to_srv w url =
     (case url_parse w url of
        Err e \<Rightarrow> None
      | Panic \<Rightarrow> None
      | Ok u \<Rightarrow> Some (WebTransport u, case url_port w u of Some p \<Rightarrow> p | None \<Rightarrow> 443))"

text \<open>\<open>ret.contains(&srv)\<close>.\<close>

definition contains_conn ::
    "('u, 'l, 'b, 'n) world \<Rightarrow> ('u, 'l) XmppConnection list \<Rightarrow> ('u, 'l) XmppConnection \<Rightarrow> bool"
where
  "contains_conn w ret srv = list_ex (\<lambda>x. conn_eq (uri_equal w) (url_serialization w) x srv) ret"

definition push_txt ::
    "('u, 'l, 'b, 'n) world \<Rightarrow> bool \<Rightarrow> bytes \<Rightarrow> ('u, 'l) XmppConnection list \<Rightarrow> ('u, 'l) XmppConnection list"
where
  "push_txt w is_c2s txt ret =
     (if prefix (if is_c2s then ''_xmpp-client-websocket=wss://'' else ''_xmpp-server-websocket=wss://'') txt
      then
        (case from_utf8 (drop 23 txt) of
           Ok url \<Rightarrow>
             (case wss_to_srv w url False of
                Some srv \<Rightarrow> if \<not> contains_conn w ret srv then ret @ [srv] else ret
              | None \<Rightarrow> ret)
         | Err e \<Rightarrow> ret
         | Panic \<Rightarrow> ret)
      else ret)"

fun push_txts ::
    "('u, 'l, 'b, 'n) world \<Rightarrow> bool \<Rightarrow> RData list \<Rightarrow> ('u, 'l) XmppConnection list \<Rightarrow> ('u, 'l) XmppConnection list"
where
  "push_txts w is_c2s [] ret = ret"
| "push_txts w is_c2s (TXT ts # rs) ret = push_txts w is_c2s rs (fold (push_txt w is_c2s) ts ret)"
| "push_txts w is_c2s (r # rs) ret = push_txts w is_c2s rs ret"

definition collect_txts ::
    "('u, 'l, 'b, 'n) world \<Rightarrow> ('u, 'l) XmppConnection list \<Rightarrow> RData list outcome \<Rightarrow> bool \<Rightarrow> ('u, 'l) XmppConnection list"
where
  "collect_txts w ret txt_records is_c2s =
     (case txt_records of Ok rs \<Rightarrow> push_txts w is_c2s rs ret | Err e \<Rightarrow> ret | Panic \<Rightarrow> ret)"

section \<open>host-meta in JSON\<close>

definition LinkCommon_into_xmpp_connection ::
    "LinkCommon \<Rightarrow> ('u, 'l) XmppConnectionType \<Rightarrow> 16 word \<Rightarrow> ('u, 'l) XmppConnection option"
where
  "LinkCommon_into_xmpp_connection l ty p =
     (if link_ips l = [] then None
      else Some \<lparr>conn_type = ty, priority = link_priority l, weight = link_weight l, port = p,
                 target = link_sni l, secure = True, ips = link_ips l, ech = link_ech l\<rparr>)"

definition Link_into_xmpp_connection ::
    "('u, 'l, 'b, 'n) world \<Rightarrow> Link \<Rightarrow> bool \<Rightarrow> ('u, 'l) XmppConnection option"
where
  "Link_into_xmpp_connection w lnk is_c2s =
     (let own = (\<lambda>srv_is_c2s p l ty.
         if srv_is_c2s = is_c2s then LinkCommon_into_xmpp_connection l ty p else None)
      in case lnk of
        LinkDirectTLS l p \<Rightarrow> own True p l DirectTLS
      | LinkQuic l p \<Rightarrow> own True p l QUIC
      | S2SDirectTLS l p \<Rightarrow> own False p l DirectTLS
      | S2SQuic l p \<Rightarrow> own False p l QUIC
      | LinkWebSocket href link \<Rightarrow>
          if is_c2s then
            Option.bind (wss_to_srv w href True) (\<lambda>srv.
              case link of
                Some l \<Rightarrow> LinkCommon_into_xmpp_connection l (conn_type srv) (port srv)
              | None \<Rightarrow> Some srv)
          else None
      | S2SWebSocket href l \<Rightarrow>
          if \<not> is_c2s then
            Option.bind (wss_to_srv w href True) (\<lambda>srv.
              LinkCommon_into_xmpp_connection l (conn_type srv) (port srv))
          else None
      | LinkWebTransport href l \<Rightarrow>
          if is_c2s then
            Option.bind (wt_to_srv w href) (\<lambda>(ty, p). LinkCommon_into_xmpp_connection l ty p)
          else None
      | S2SWebTransport href l \<Rightarrow>
          if \<not> is_c2s then
            Option.bind (wt_to_srv w href) (\<lambda>(ty, p). LinkCommon_into_xmpp_connection l ty p)
          else None
      | LinkUnknown \<Rightarrow> None)"

fun push_links ::
    "('u, 'l, 'b, 'n) world \<Rightarrow> bool \<Rightarrow> Link list \<Rightarrow> ('u, 'l) XmppConnection list \<Rightarrow> ('u, 'l) XmppConnection list"
where
  "push_links w is_c2s [] ret = ret"
| "push_links w is_c2s (l # ls) ret =
     push_links w is_c2s ls
       (case Link_into_xmpp_connection w l is_c2s of Some srv \<Rightarrow> ret @ [srv] | None \<Rightarrow> ret)"

text \<open>The connections and the pins that are collected are passed along.\<close>

type_synonym ('u, 'l) collected = "('u, 'l) XmppConnection list \<times> bytes list"

definition HostMeta_collect ::
    "('u, 'l, 'b, 'n) world \<Rightarrow> HostMeta \<Rightarrow> bool \<Rightarrow> ('u, 'l) collected \<Rightarrow> 16 word option \<times> ('u, 'l) collected"
where
  "HostMeta_collect w hm is_c2s c =
     (case c of (ret, pins) \<Rightarrow>
        let ret = push_links w is_c2s (links hm) ret in
        case xmpp hm of
          Some x \<Rightarrow> (Some (ttl x), ret, pins @ public_key_pins_sha_256 x)
        | None \<Rightarrow> (None, ret, pins))"

definition collect_host_meta_json ::
    "('u, 'l, 'b, 'n) world \<Rightarrow> bytes \<Rightarrow> bool \<Rightarrow> ('u, 'l) collected \<Rightarrow> 16 word option outcome \<times> ('u, 'l) collected"
where
  "collect_host_meta_json w domain is_c2s c =
     (case get_https w (''https://'' @ domain @ ''/.well-known/host-meta.json'') of
        Err e \<Rightarrow> (Err e, c)
      | Panic \<Rightarrow> (Panic, c)
      | Ok resp \<Rightarrow>
          if is_success resp then
            (case parse_host_meta w (body resp) of
               Err e \<Rightarrow> (Err e, c)
             | Panic \<Rightarrow> (Panic, c)
             | Ok hm \<Rightarrow> (case HostMeta_collect w hm is_c2s c of (t, c) \<Rightarrow> (Ok t, c)))
          else (Err (BadStatus (status resp)), c))"

section \<open>host-meta in XML\<close>

text \<open>The text between quotes after an attribute that starts with \<open>wss://\<close>, in either quote.\<close>

definition wss_needles :: "bytes list" where
  "wss_needles = [CHR ''='' # CHR 0x27 # ''wss://'', CHR ''='' # CHR 0x22 # ''wss://'']"

definition push_href :: "bytes \<Rightarrow> bytes \<Rightarrow> bytes list \<Rightarrow> bytes list outcome" where
  "push_href stanza needle vec =
     (case first_index_of stanza needle of
        Ok i \<Rightarrow>
          (let stanza = drop (i + 2) stanza in
           case first_index_of stanza (take 1 (drop 1 needle)) of
             Ok j \<Rightarrow> bind_ok (from_utf8 (take j stanza)) (\<lambda>u. Ok (vec @ [u]))
           | Err e \<Rightarrow> Ok vec
           | Panic \<Rightarrow> Panic)
      | Err e \<Rightarrow> Ok vec
      | Panic \<Rightarrow> Panic)"

fun push_hrefs :: "bytes \<Rightarrow> bytes list \<Rightarrow> bytes list \<Rightarrow> bytes list outcome" where
  "push_hrefs stanza [] vec = Ok vec"
| "push_hrefs stanza (needle # ns) vec =
     bind_ok (push_href stanza needle vec) (push_hrefs stanza ns)"

text \<open>The loop over the links, which ends at the first error, and the loop over the document.\<close>

function read_links :: "bytes \<Rightarrow> reader \<Rightarrow> StanzaFilter \<Rightarrow> bytes list \<Rightarrow> bytes list outcome" where
  "read_links rel rd f vec =
     (case reader_next rd f of
        (Ok (Some stanza), rd', f') \<Rightarrow>
          (case if contains_seq stanza rel then push_hrefs stanza wss_needles vec else Ok vec of
             Ok vec' \<Rightarrow> read_links rel rd' f' vec'
           | Err e \<Rightarrow> Err e
           | Panic \<Rightarrow> Panic)
      | (Ok None, rd', f') \<Rightarrow> Ok vec
      | (Err e, rd', f') \<Rightarrow> Ok vec
      | (Panic, rd', f') \<Rightarrow> Panic)"
  by pat_completeness auto
termination
  by (relation "measure (\<lambda>(rel, rd, f, vec). length rd)") (auto dest: reader_next_consumes [OF sym])

declare read_links.simps [simp del]

function read_host_meta :: "bytes \<Rightarrow> reader \<Rightarrow> StanzaFilter \<Rightarrow> bytes list \<Rightarrow> bytes list outcome" where
  "read_host_meta rel rd f vec =
     (case reader_next_eoft rd f of
        (Ok (Some (stanza, end_tag)), rd', f') \<Rightarrow>
          (if prefix ''<XRD'' stanza \<or> prefix ''<xrd'' stanza then
             (case read_links rel (map RByte (drop end_tag stanza)) (StanzaFilter_new 4096) vec of
                Ok vec' \<Rightarrow> read_host_meta rel rd' f' vec'
              | Err e \<Rightarrow> Err e
              | Panic \<Rightarrow> Panic)
           else read_host_meta rel rd' f' vec)
      | (Ok None, rd', f') \<Rightarrow> Ok vec
      | (Err e, rd', f') \<Rightarrow> Err e
      | (Panic, rd', f') \<Rightarrow> Panic)"
  by pat_completeness auto
termination
  by (relation "measure (\<lambda>(rel, rd, f, vec). length rd)") (auto dest: reader_next_eoft_consumes [OF sym])

declare read_host_meta.simps [simp del]

definition parse_host_meta_xml :: "bytes \<Rightarrow> bytes \<Rightarrow> bytes list outcome" where
  "parse_host_meta_xml rel bs = read_host_meta rel (map RByte bs) (StanzaFilter_new 8192) []"

definition push_hosts ::
    "('u, 'l, 'b, 'n) world \<Rightarrow> bytes list \<Rightarrow> ('u, 'l) XmppConnection list \<Rightarrow> ('u, 'l) XmppConnection list"
where
  "push_hosts w hosts ret =
     fold (\<lambda>host ret. case wss_to_srv w host True of Some srv \<Rightarrow> ret @ [srv] | None \<Rightarrow> ret) hosts ret"

definition collect_host_meta_xml ::
    "('u, 'l, 'b, 'n) world \<Rightarrow> bytes \<Rightarrow> bool \<Rightarrow> ('u, 'l) XmppConnection list
      \<Rightarrow> unit outcome \<times> ('u, 'l) XmppConnection list"
where
  "collect_host_meta_xml w domain is_c2s ret =
     (if \<not> is_c2s then (Err HostMetaXmlUnsupported, ret) else
      case bind_ok (get_https w (''https://'' @ domain @ ''/.well-known/host-meta'')) (\<lambda>resp.
        if is_success resp then
          bind_ok (body_bytes w (body resp)) (parse_host_meta_xml ''urn:xmpp:alt-connections:websocket'')
        else Err (BadStatus (status resp))) of
        Ok hosts \<Rightarrow> (Ok (), push_hosts w hosts ret)
      | Err e \<Rightarrow> (Err e, ret)
      | Panic \<Rightarrow> (Panic, ret))"

text \<open>
  The two requests run concurrently; they share nothing but the vector that each fills on its
  own, so their order does not matter.
\<close>

definition collect_host_meta ::
    "('u, 'l, 'b, 'n) world \<Rightarrow> bytes \<Rightarrow> bool \<Rightarrow> ('u, 'l) collected \<Rightarrow> 16 word option outcome \<times> ('u, 'l) collected"
where
  "collect_host_meta w domain is_c2s c =
     (case (collect_host_meta_json w domain is_c2s c, collect_host_meta_xml w domain is_c2s []) of
        ((json, ret, pins), (xml_result, xml)) \<Rightarrow>
          (case (json, xml_result) of
             (Panic, _) \<Rightarrow> (Panic, ret, pins)
           | (_, Panic) \<Rightarrow> (Panic, ret, pins)
           | (Ok (Some t), _) \<Rightarrow> (Ok (Some t), ret, pins)
           | (_, Ok u) \<Rightarrow> (Ok None, ret @ xml, pins)
           | (json, _) \<Rightarrow> (json, ret, pins)))"

section \<open>All connections of a domain\<close>

definition default_conn ::
    "bytes \<Rightarrow> ('u, 'l) XmppConnectionType \<Rightarrow> 16 word \<Rightarrow> ('u, 'l) XmppConnection"
where
  "default_conn domain ty p =
     \<lparr>conn_type = ty, priority = 0, weight = 0, port = p, target = domain, secure = False, ips = [], ech = None\<rparr>"

text \<open>The loop over the connections that adds the targets of secure ones to the names.\<close>

fun push_names ::
    "('u, 'l, 'b, 'n) world \<Rightarrow> ('u, 'l) XmppConnection list \<Rightarrow> 'n list \<Rightarrow> 'n list"
where
  "push_names w [] ns = ns"
| "push_names w (srv # srvs) ns =
     push_names w srvs
       (if secure srv then
          (case server_name w (target srv) of
             Ok t \<Rightarrow> if t \<notin> set ns then ns @ [t] else ns
           | Err e \<Rightarrow> ns
           | Panic \<Rightarrow> ns)
        else ns)"

definition dns_name :: "('u, 'l, 'b, 'n) world \<Rightarrow> bytes \<Rightarrow> bytes \<Rightarrow> bytes outcome" where
  "dns_name w service domain = into_name w (service @ ''.'' @ domain @ ''.'')"

definition service_names :: "bool \<Rightarrow> bytes \<times> bytes \<times> bytes \<times> bytes" where
  "service_names is_c2s =
     (if is_c2s then (''_xmpp-client._tcp'', ''_xmpps-client._tcp'', ''_xmppq-client._udp'', ''_xmppconnect'')
      else (''_xmpp-server._tcp'', ''_xmpps-server._tcp'', ''_xmppq-server._udp'', ''_xmppconnect-server''))"

text \<open>Without a \<open>ttl\<close> in host-meta, DNS adds to what host-meta has given.\<close>

definition from_dns ::
    "('u, 'l, 'b, 'n) world \<Rightarrow> bool \<Rightarrow> bytes \<times> bytes \<times> bytes \<times> bytes
      \<Rightarrow> ('u, 'l) XmppConnection list \<Rightarrow> ('u, 'l) XmppConnection list"
where
  "from_dns w is_c2s ds ret =
     (case ds of (starttls, direct_tls, quic, websocket_txt) \<Rightarrow>
        let ret = collect_txts w ret (txt_lookup w websocket_txt) is_c2s;
            ret = collect_srvs ret (srv_lookup w starttls) StartTLS;
            ret = collect_srvs ret (srv_lookup w direct_tls) DirectTLS
        in collect_srvs ret (srv_lookup w quic) QUIC)"

definition default_conns :: "bytes \<Rightarrow> bool \<Rightarrow> ('u, 'l) XmppConnection list" where
  "default_conns domain is_c2s =
     [default_conn domain StartTLS (if is_c2s then 5222 else 5269),
      default_conn domain DirectTLS 443, default_conn domain QUIC 443]"

definition conns_and_verifier ::
    "('u, 'l, 'b, 'n) world \<Rightarrow> bytes \<Rightarrow> bool \<Rightarrow> 'n \<Rightarrow> bytes list \<Rightarrow> Posh outcome
      \<Rightarrow> ('u, 'l) XmppConnection list \<Rightarrow> ('u, 'l) XmppConnection list \<times> 'n XmppServerCertVerifier"
where
  "conns_and_verifier w domain is_c2s domain_name pins psh ret =
     (let ret = sort_dedup (uri_to_string w) (url_serialization w) (uri_equal w) ret;
          cert_verifier = \<lparr>names = push_names w ret [domain_name], posh = to_option psh,
                           sha256_pinnedpubkeys = pins\<rparr>
      in (if ret = [] then default_conns domain is_c2s else ret, cert_verifier))"

definition get_xmpp_connections ::
    "('u, 'l, 'b, 'n) world \<Rightarrow> bytes \<Rightarrow> bool
      \<Rightarrow> (('u, 'l) XmppConnection list \<times> 'n XmppServerCertVerifier) outcome"
where
  "get_xmpp_connections w domain is_c2s =
     bind_ok (server_name w domain) (\<lambda>domain_name.
     case service_names is_c2s of (starttls, direct_tls, quic, websocket_txt) \<Rightarrow>
     bind_ok (dns_name w starttls domain) (\<lambda>starttls.
     bind_ok (dns_name w direct_tls domain) (\<lambda>direct_tls.
     bind_ok (dns_name w quic domain) (\<lambda>quic.
     bind_ok (dns_name w websocket_txt domain) (\<lambda>websocket_txt.
       case collect_host_meta w domain is_c2s ([], []) of (websocket_host, ret, pins) \<Rightarrow>
       let psh = collect_posh (get_https w) (parse_posh w) domain in
       if websocket_host = Panic \<or> psh = Panic then Panic
       else Ok (conns_and_verifier w domain is_c2s domain_name pins psh
         (case websocket_host of
            Ok (Some t) \<Rightarrow> ret
          | _ \<Rightarrow> from_dns w is_c2s (starttls, direct_tls, quic, websocket_txt) ret)))))))"

section \<open>Where connections and names come from\<close>

lemma dedup_subset: "set (dedup eq xs) \<subseteq> set xs"
proof -
  have "set (dedup_from eq x ys) \<subseteq> insert x (set ys)" for x ys
    by (induction ys arbitrary: x) auto
  then show ?thesis by (cases xs) auto
qed

lemma sort_dedup_subset: "set (sort_dedup us ls eq xs) \<subseteq> set xs"
  unfolding sort_dedup_def sort_by_set using dedup_subset sort_by_set by metis

lemma push_srvs_set:
  "c \<in> set (push_srvs ty rs ret) \<Longrightarrow>
     c \<in> set ret \<or> (\<exists>srv. SRV srv \<in> set rs \<and> \<not> srv_is_root srv \<and> c = srv_to_connection ty srv)"
  by (induction ty rs ret rule: push_srvs.induct) (auto split: if_splits)

lemma collect_srvs_set:
  assumes "c \<in> set (collect_srvs ret recs ty)"
  shows "c \<in> set ret \<or> \<not> secure c \<and> ips c = [] \<and> conn_type c = ty"
  using assms
  by (auto simp: collect_srvs_def srv_to_connection_def dest!: push_srvs_set split: outcome.splits)

lemma wss_to_srv_Some:
  assumes "wss_to_srv w url sec = Some c"
  shows "secure c = sec \<and> ips c = [] \<and> idx (conn_type c) = 4 \<and> priority c = 65535"
  using assms by (auto simp: wss_to_srv_def Let_def split: outcome.splits option.splits prod.splits)

lemma push_txt_set:
  "c \<in> set (push_txt w is_c2s txt ret) \<Longrightarrow> c \<in> set ret \<or> \<not> secure c \<and> ips c = [] \<and> idx (conn_type c) = 4"
  by (auto simp: push_txt_def dest!: wss_to_srv_Some split: if_splits outcome.splits option.splits)

lemma fold_push_txt_set:
  "c \<in> set (fold (push_txt w is_c2s) ts ret) \<Longrightarrow> c \<in> set ret \<or> \<not> secure c \<and> ips c = [] \<and> idx (conn_type c) = 4"
  by (induction ts arbitrary: ret) (auto dest: push_txt_set)

lemma push_txts_set:
  "c \<in> set (push_txts w is_c2s rs ret) \<Longrightarrow> c \<in> set ret \<or> \<not> secure c \<and> ips c = [] \<and> idx (conn_type c) = 4"
  by (induction w is_c2s rs ret rule: push_txts.induct) (auto dest: fold_push_txt_set)

lemma collect_txts_set:
  "c \<in> set (collect_txts w ret recs is_c2s) \<Longrightarrow> c \<in> set ret \<or> \<not> secure c \<and> ips c = [] \<and> idx (conn_type c) = 4"
  by (auto simp: collect_txts_def dest: push_txts_set split: outcome.splits)

lemma LinkCommon_Some:
  "LinkCommon_into_xmpp_connection l ty p = Some c \<longleftrightarrow>
     link_ips l \<noteq> [] \<and> c = \<lparr>conn_type = ty, priority = link_priority l, weight = link_weight l, port = p,
                 target = link_sni l, secure = True, ips = link_ips l, ech = link_ech l\<rparr>"
  by (auto simp: LinkCommon_into_xmpp_connection_def)

text \<open>Which kind of stream a link is for.\<close>

fun link_is_c2s :: "Link \<Rightarrow> bool" where
  "link_is_c2s (LinkWebSocket h l) = True"
| "link_is_c2s (LinkWebTransport h l) = True"
| "link_is_c2s (LinkDirectTLS l p) = True"
| "link_is_c2s (LinkQuic l p) = True"
| "link_is_c2s (S2SWebTransport h l) = False"
| "link_is_c2s (S2SWebSocket h l) = False"
| "link_is_c2s (S2SDirectTLS l p) = False"
| "link_is_c2s (S2SQuic l p) = False"
| "link_is_c2s LinkUnknown = False"

lemma Link_Some:
  assumes "Link_into_xmpp_connection w l is_c2s = Some c"
  shows "secure c \<and> link_is_c2s l = is_c2s \<and> l \<noteq> LinkUnknown
    \<and> (ips c = [] \<longrightarrow> (\<exists>href. l = LinkWebSocket href None \<and> wss_to_srv w href True = Some c))"
proof (cases l)
  case (LinkWebSocket h k)
  with assms show ?thesis
    by (cases k) (auto simp: Link_into_xmpp_connection_def LinkCommon_Some bind_eq_Some_conv
        dest: wss_to_srv_Some split: if_splits)
qed (use assms in \<open>auto simp: Link_into_xmpp_connection_def Let_def LinkCommon_Some bind_eq_Some_conv
      split: if_splits\<close>)

lemma push_links_set:
  "c \<in> set (push_links w is_c2s ls ret) \<longleftrightarrow>
     c \<in> set ret \<or> (\<exists>l\<in>set ls. Link_into_xmpp_connection w l is_c2s = Some c)"
  by (induction w is_c2s ls ret rule: push_links.induct) (auto split: option.splits)

lemma push_hosts_set:
  "c \<in> set (push_hosts w hosts ret) \<longleftrightarrow> c \<in> set ret \<or> (\<exists>h\<in>set hosts. wss_to_srv w h True = Some c)"
  unfolding push_hosts_def by (induction hosts arbitrary: ret) (auto split: option.splits)

lemma push_names_set:
  "n \<in> set (push_names w srvs ns) \<longleftrightarrow>
     n \<in> set ns \<or> (\<exists>c\<in>set srvs. secure c \<and> server_name w (target c) = Ok n)"
  by (induction w srvs ns rule: push_names.induct) (auto split: if_splits outcome.splits)

lemma push_names_distinct: "distinct ns \<Longrightarrow> distinct (push_names w srvs ns)"
  by (induction w srvs ns rule: push_names.induct) (auto split: outcome.splits)

lemma collect_host_meta_secure:
  assumes "collect_host_meta w domain is_c2s ([], []) = (r, ret, pins)" and "c \<in> set ret"
  shows "secure c"
proof -
  obtain json jret jpins where j: "collect_host_meta_json w domain is_c2s ([], []) = (json, jret, jpins)"
    by (cases "collect_host_meta_json w domain is_c2s ([], [])") auto
  obtain xr xml where x: "collect_host_meta_xml w domain is_c2s [] = (xr, xml)"
    by (cases "collect_host_meta_xml w domain is_c2s []") auto
  have "c \<in> set jret \<Longrightarrow> secure c"
    using j Link_Some [of w _ is_c2s c]
    by (auto simp: collect_host_meta_json_def HostMeta_collect_def Let_def push_links_set
        split: outcome.splits if_splits option.splits)
  moreover have "c \<in> set xml \<Longrightarrow> secure c"
    using x wss_to_srv_Some [of w _ True c]
    by (auto simp: collect_host_meta_xml_def push_hosts_set split: outcome.splits if_splits)
  moreover have "set ret \<subseteq> set jret \<union> set xml"
    using assms(1) j x by (auto simp: collect_host_meta_def split: outcome.splits option.splits)
  ultimately show ?thesis using assms(2) by blast
qed

lemma from_dns_set:
  "c \<in> set (from_dns w is_c2s ds ret) \<Longrightarrow> c \<in> set ret \<or> \<not> secure c \<and> ips c = []"
  by (cases ds) (auto simp: from_dns_def dest!: collect_srvs_set collect_txts_set)

lemma bind_ok_OkE:
  assumes "bind_ok m k = Ok y"
  obtains x where "m = Ok x" and "k x = Ok y"
  using assms by (auto simp: bind_ok_Ok_iff)

definition chosen ::
    "('u, 'l, 'b, 'n) world \<Rightarrow> bool \<Rightarrow> 16 word option outcome \<Rightarrow> bytes \<times> bytes \<times> bytes \<times> bytes
      \<Rightarrow> ('u, 'l) XmppConnection list \<Rightarrow> ('u, 'l) XmppConnection list"
where
  "chosen w is_c2s r ds ret = (case r of Ok (Some t) \<Rightarrow> ret | _ \<Rightarrow> from_dns w is_c2s ds ret)"

lemma get_xmpp_connections_Ok:
  assumes "get_xmpp_connections w domain is_c2s = Ok (conns, v)"
  shows "\<exists>dn r ret pins ds psh. server_name w domain = Ok dn
    \<and> collect_host_meta w domain is_c2s ([], []) = (r, ret, pins)
    \<and> (conns, v) = conns_and_verifier w domain is_c2s dn pins psh (chosen w is_c2s r ds ret)"
proof -
  obtain a b c d where s: "service_names is_c2s = (a, b, c, d)" by (cases "service_names is_c2s") auto
  obtain r ret pins where h: "collect_host_meta w domain is_c2s ([], []) = (r, ret, pins)"
    by (cases "collect_host_meta w domain is_c2s ([], [])") auto
  let ?ps = "collect_posh (get_https w) (parse_posh w) domain"
  from assms obtain dn da db dc dd where n: "server_name w domain = Ok dn"
    and e: "(if r = Panic \<or> ?ps = Panic then Panic
      else Ok (conns_and_verifier w domain is_c2s dn pins ?ps (chosen w is_c2s r (da, db, dc, dd) ret))) = Ok (conns, v)"
    unfolding get_xmpp_connections_def s h prod.case Let_def chosen_def by (elim bind_ok_OkE) blast
  from e have "(conns, v) = conns_and_verifier w domain is_c2s dn pins ?ps (chosen w is_c2s r (da, db, dc, dd) ret)"
    by (simp split: if_splits)
  with n h show ?thesis by blast
qed

lemma conns_and_verifier_sound:
  assumes "(conns, v) = conns_and_verifier w domain is_c2s dn pins psh found"
  shows "conns \<noteq> [] \<and> dn \<in> set (names v) \<and> sha256_pinnedpubkeys v = pins
    \<and> (\<forall>n\<in>set (names v). n = dn \<or> (\<exists>c\<in>set conns. secure c \<and> server_name w (target c) = Ok n))
    \<and> (set conns \<subseteq> set found \<or> conns = default_conns domain is_c2s)"
  using assms sort_dedup_subset
  by (fastforce simp: conns_and_verifier_def Let_def push_names_set default_conns_def split: if_splits)

lemma default_insecure: "c \<in> set (default_conns domain is_c2s) \<Longrightarrow> \<not> secure c"
  by (auto simp: default_conns_def default_conn_def)

section \<open>Reading host-meta in XML\<close>

text \<open>The closing tag of the document is not one of a stream, so it ends the loop over the links.\<close>

lemma silent_to_closing:
  assumes "CHR ''<'' \<notin> set ws" and "CHR ''>'' \<notin> set s" and "length s + 2 < n"
  shows "silent n (idle_frame e) (ws @ ''</'' @ s) = Some (Fr (''</'' @ s) 1 EndStream e)"
proof -
  have 1: "silent n (idle_frame e) ''</'' = Some (Fr ''</'' 1 EndStream e)"
    using assms(3) by (simp add: frame_step_def frame_more_def Let_def)
  have 2: "silent n (Fr ''</'' 1 EndStream e) s = Some (Fr (''</'' @ s) 1 EndStream e)"
    by (rule silent_plain) (use assms(2,3) in \<open>auto simp: frame_step_def frame_more_def Let_def\<close>)
  from silent_append [OF silent_junk [OF assms(1)]] silent_append [OF 1] 2 show ?thesis by simp
qed

lemma not_stream_end:
  assumes "CHR ''<'' \<notin> set s" and "s \<noteq> ''stream:stream''"
  shows "\<not> suffix ''</stream:stream>'' (''</'' @ s @ ''>'')"
proof
  assume "suffix ''</stream:stream>'' (''</'' @ s @ ''>'')"
  then obtain p where p: "''</'' @ s @ ''>'' = p @ ''</stream:stream>''" by (auto simp: suffix_def)
  show False
  proof (cases p)
    case Nil
    with p assms(2) show False by simp
  next
    case (Cons c q)
    with p have "s @ ''>'' = tl q @ CHR ''<'' # ''/stream:stream>'' \<or> q = [] \<and> False" by (cases q) auto
    then have "CHR ''<'' \<in> set (s @ ''>'')" by (metis in_set_conv_decomp)
    with assms(1) show False by simp
  qed
qed

lemma closing_tag_fails:
  assumes f: "idle n e f" and "CHR ''<'' \<notin> set ws" and s: "CHR ''<'' \<notin> set s" "CHR ''>'' \<notin> set s" "s \<noteq> ''stream:stream''"
    and len: "length s + 3 \<le> n"
  shows "\<exists>er rd' f'. reader_next (map RByte (ws @ ''</'' @ s @ ''>'')) f = (Err er, rd', f')"
proof -
  have inv: "filter_inv f" and sv: "serves n f" and a: "filter_abs f = idle_frame e"
    using f by (auto simp: idle_def serves_def)
  obtain r rest f1 where u: "until_output feed_bytes f (ws @ ''</'' @ s @ ''>'') = (r, rest, f1)"
    by (cases "until_output feed_bytes f (ws @ ''</'' @ s @ ''>'')") auto
  have run: "silent n (idle_frame e) (ws @ ''</'' @ s) = Some (Fr (''</'' @ s) 1 EndStream e)"
    by (rule silent_to_closing) (use assms in simp_all)
  have "\<exists>er fr. frame_step n (Fr (''</'' @ s) 1 EndStream e) (CHR ''>'') = (Err er, fr)"
    using not_stream_end [OF s(1,3)] by (auto simp: frame_step_def frame_illegal_def Let_def)
  then obtain er fr where st: "frame_step n (Fr (''</'' @ s) 1 EndStream e) (CHR ''>'') = (Err er, fr)" by blast
  have "until_output (frame_step n) (idle_frame e) ((ws @ ''</'' @ s) @ ''>'') = (Err er, [], fr)"
    unfolding until_output_silent [OF run] using st by simp
  with framing.run_simulates [OF sv u] a have "r = Err er" by simp
  with reader_next_bytes [OF inv, of "ws @ ''</'' @ s @ ''>''"] u show ?thesis by auto
qed

text \<open>
  The addresses of a link, by the pieces of its tag: the values that begin with \<open>wss://\<close> and stand
  right after an equals sign, in the kind of quotes given.  A link has the first one in apostrophes
  and the first one in double quotes.
\<close>

definition wss_value :: "bool \<Rightarrow> piece \<Rightarrow> piece \<Rightarrow> bytes list" where
  "wss_value d p q =
     (case (p, q) of
        (Plain b, Quoted d' s) \<Rightarrow> if b = CHR ''='' \<and> d' = d \<and> prefix ''wss://'' s then [s] else []
      | _ \<Rightarrow> [])"

fun wss_values :: "bool \<Rightarrow> piece list \<Rightarrow> bytes list" where
  "wss_values d (p # q # ps) = wss_value d p q @ wss_values d (q # ps)"
| "wss_values d ps = []"

definition link_addresses :: "piece list \<Rightarrow> bytes list" where
  "link_addresses ps = take 1 (wss_values False ps) @ take 1 (wss_values True ps)"

fun tag_pieces :: "node \<Rightarrow> piece list" where
  "tag_pieces (Elem t ks u) = snd t"
| "tag_pieces (EmptyElem t) = snd t"
| "tag_pieces k = []"

definition link_hrefs :: "bytes \<Rightarrow> node \<Rightarrow> bytes list" where
  "link_hrefs rel k = (if sublist rel (show_node k) then link_addresses (tag_pieces k) else [])"

text \<open>
  Looking for an equals sign, a quote and \<open>wss://\<close> in the bytes finds these values, unless a value
  contains that text or ends with an equals sign, or one stands outside of the tag.
\<close>

definition wss_needle :: "bool \<Rightarrow> bytes" where
  "wss_needle d = CHR ''='' # quote d # ''wss://''"

fun clear_piece :: "piece \<Rightarrow> bool" where
  "clear_piece (Plain b) = True"
| "clear_piece (Quoted d s) = (\<not> suffix ''='' s \<and> \<not> sublist (wss_needle False) s \<and> \<not> sublist (wss_needle True) s)"

fun after_tag :: "node \<Rightarrow> bytes" where
  "after_tag (Elem t ks u) = CHR ''>'' # concat (map show_node ks) @ ''</'' @ show_tag u @ ''>''"
| "after_tag (EmptyElem t) = ''/>''"
| "after_tag k = []"

fun tag_first :: "node \<Rightarrow> byte" where
  "tag_first (Elem t ks u) = fst t"
| "tag_first (EmptyElem t) = fst t"
| "tag_first k = CHR '' ''"

definition clear_link :: "node \<Rightarrow> bool" where
  "clear_link k \<longleftrightarrow> tag_first k \<noteq> CHR ''='' \<and> list_all clear_piece (tag_pieces k) \<and> CHR ''='' \<notin> set (after_tag k)
     \<and> list_all utf8_valid (link_addresses (tag_pieces k))"

lemma show_elem:
  "is_elem k \<Longrightarrow> show_node k = CHR ''<'' # tag_first k # concat (map show_piece (tag_pieces k)) @ after_tag k"
  by (cases k) (simp_all add: show_tag_def)

lemma prefix_before: "prefix n (s @ c # r) \<Longrightarrow> c \<notin> set n \<Longrightarrow> prefix n s"
  by (induction s arbitrary: n) (auto simp: prefix_Cons)

lemma quote_facts: "quote d \<notin> set ''wss://''" "quote d \<noteq> CHR ''=''" "quote d = quote d' \<longleftrightarrow> d = d'"
  by (cases d; cases d'; simp add: quote_def)+

lemma needle_past_value:
  assumes "sublist (wss_needle d) (s @ quote d' # r)" and "\<not> suffix ''='' s" and "\<not> sublist (wss_needle d) s"
  shows "sublist (wss_needle d) r"
  using assms
proof (induction s)
  case Nil
  then show ?case by (auto simp: wss_needle_def sublist_Cons_right quote_facts(2) [symmetric])
next
  case (Cons c s)
  have "\<not> prefix (wss_needle d) (c # s @ quote d' # r)"
  proof
    assume p: "prefix (wss_needle d) (c # s @ quote d' # r)"
    then have c: "c = CHR ''=''" and p: "prefix (quote d # ''wss://'') (s @ quote d' # r)" by (auto simp: wss_needle_def)
    show False
    proof (cases s)
      case Nil
      with c Cons.prems(2) show False by (simp add: suffix_def)
    next
      case (Cons c' s')
      with p have "prefix ''wss://'' (s' @ quote d' # r)" and c': "c' = quote d" by auto
      from prefix_before [OF this(1) quote_facts(1)] c c' Cons have "prefix (wss_needle d) (c # s)" by (simp add: wss_needle_def)
      with \<open>\<not> sublist (wss_needle d) (c # s)\<close> show False by (simp add: sublist_Cons_right)
    qed
  qed
  with Cons.prems have "sublist (wss_needle d) (s @ quote d' # r)" by (auto simp: sublist_Cons_right)
  moreover have "\<not> suffix ''='' s" "\<not> sublist (wss_needle d) s"
    using Cons.prems(2,3) by (auto simp: suffix_ConsI sublist_Cons_right)
  ultimately show ?case by (rule Cons.IH)
qed

text \<open>Without such a value the search fails.\<close>

lemma no_value_no_needle:
  assumes "list_all ok_piece ps" and "list_all clear_piece ps" and "wss_values d ps = []"
    and "CHR ''='' \<notin> set r" and "r = [] \<or> hd r \<noteq> quote d"
  shows "\<not> sublist (wss_needle d) (concat (map show_piece ps) @ r)"
  using assms(1-3)
proof (induction ps)
  case Nil
  have "\<not> sublist (wss_needle d) r"
    using assms(4) by (metis list.set_intros(1) set_mono_sublist subsetD wss_needle_def)
  then show ?case by simp
next
  case (Cons p ps)
  have t: "wss_values d ps = []" using Cons.prems(3) by (cases ps) simp_all
  with Cons have IH: "\<not> sublist (wss_needle d) (concat (map show_piece ps) @ r)" by simp
  show ?case
  proof (cases p)
    case (Quoted d' s)
    with needle_past_value [of d s d' "concat (map show_piece ps) @ r"] IH Cons.prems(2)
    have "\<not> sublist (wss_needle d) (s @ quote d' # concat (map show_piece ps) @ r)" by (cases d) auto
    with Quoted show ?thesis by (auto simp: sublist_Cons_right wss_needle_def quote_facts(2) [symmetric])
  next
    case (Plain b)
    have "\<not> prefix (wss_needle d) (b # concat (map show_piece ps) @ r)"
    proof
      assume "prefix (wss_needle d) (b # concat (map show_piece ps) @ r)"
      then have b: "b = CHR ''=''" and pre: "prefix (quote d # ''wss://'') (concat (map show_piece ps) @ r)"
        by (auto simp: wss_needle_def)
      show False
      proof (cases ps)
        case Nil
        with pre assms(5) show False by (cases r) auto
      next
        case (Cons q qs)
        show False
        proof (cases q)
          case (Plain b')
          with pre Cons \<open>list_all ok_piece (p # ps)\<close> show False by (cases d) (auto simp: quote_def)
        next
          case (Quoted d' s)
          with pre Cons have "d' = d" and "prefix ''wss://'' (s @ quote d' # concat (map show_piece qs) @ r)"
            by (auto simp: quote_facts(3))
          with prefix_before [OF this(2) quote_facts(1)] Quoted Cons Plain b \<open>wss_values d (p # ps) = []\<close>
          show False by (simp add: wss_value_def)
        qed
      qed
    qed
    with IH Plain show ?thesis by (simp add: sublist_Cons_right)
  qed
qed

lemma first_value:
  assumes "wss_values d ps = v # vs"
  shows "\<exists>ps1 ps2. ps = ps1 @ Plain (CHR ''='') # Quoted d v # ps2 \<and> wss_values d ps1 = [] \<and> prefix ''wss://'' v"
  using assms
proof (induction d ps rule: wss_values.induct)
  case (1 d p q ps)
  show ?case
  proof (cases "wss_value d p q = []")
    case True
    with 1 obtain ps1 ps2 where h: "q # ps = ps1 @ Plain (CHR ''='') # Quoted d v # ps2" "wss_values d ps1 = []" "prefix ''wss://'' v"
      by auto
    have "wss_values d (p # ps1) = []"
      using h(1,2) True by (cases ps1) auto
    with h show ?thesis by (metis append_Cons)
  next
    case False
    with 1(2) have "p = Plain (CHR ''='')" "q = Quoted d v" "prefix ''wss://'' v"
      by (auto simp: wss_value_def split: piece.splits if_splits)
    then show ?thesis by (intro exI [of _ "[]"] exI [of _ ps]) simp
  qed
qed simp_all

lemma wss_needle_borderless: "borderless (wss_needle False)" "borderless (wss_needle True)"
  by code_simp+

lemma wss_needles_both: "wss_needles = [wss_needle False, wss_needle True]"
  by (simp add: wss_needles_def wss_needle_def quote_def)

lemma push_href_link:
  assumes "is_elem k" and "stanza_node k" and "clear_link k"
  shows "push_href (show_node k) (wss_needle d) vec = Ok (vec @ take 1 (wss_values d (tag_pieces k)))"
proof -
  from assms(1,2) have ok: "list_all ok_piece (tag_pieces k)"
    by (cases k) (auto simp: stanza_node_def ok_tag_def ok_open_tag_def)
  from assms(3) have cl: "list_all clear_piece (tag_pieces k)" and c: "tag_first k \<noteq> CHR ''=''" and r: "CHR ''='' \<notin> set (after_tag k)"
    and u: "list_all utf8_valid (link_addresses (tag_pieces k))" by (simp_all add: clear_link_def)
  have front: "sublist (wss_needle d) (CHR ''<'' # tag_first k # s) \<longleftrightarrow> sublist (wss_needle d) s" for s
    using c by (auto simp: sublist_Cons_right wss_needle_def)
  have b: "borderless (wss_needle d)" by (cases d) (simp_all add: wss_needle_borderless)
  show ?thesis
  proof (cases "wss_values d (tag_pieces k)")
    case Nil
    have "after_tag k = [] \<or> hd (after_tag k) \<noteq> quote d" by (cases k; cases d) (simp_all add: quote_def)
    from no_value_no_needle [OF ok cl Nil r this] front have "\<not> sublist (wss_needle d) (show_node k)"
      unfolding show_elem [OF assms(1)] by simp
    then obtain e where "first_index_of (show_node k) (wss_needle d) = Err e"
      using slice_find.found_iff_sublist first_index_of_no_panic by (metis outcome.exhaust)
    with Nil show ?thesis by (simp add: push_href_def)
  next
    case (Cons v vs)
    from first_value [OF Cons] obtain ps1 ps2 where ps: "tag_pieces k = ps1 @ Plain (CHR ''='') # Quoted d v # ps2"
      and v1: "wss_values d ps1 = []" and v: "prefix ''wss://'' v" by blast
    from v obtain v' where v': "v = ''wss://'' @ v'" by (auto simp: prefix_def)
    let ?pre = "CHR ''<'' # tag_first k # concat (map show_piece ps1)"
    let ?post = "quote d # concat (map show_piece ps2) @ after_tag k"
    have s: "show_node k = ?pre @ wss_needle d @ v' @ ?post"
      unfolding show_elem [OF assms(1)] ps by (simp add: wss_needle_def v')
    have "\<not> sublist (wss_needle d) ?pre"
      using no_value_no_needle [OF _ _ v1, of "[]"] ok cl ps front by simp
    from find_borderless [OF b this, of "v' @ ?post"]
    have i: "first_index_of (show_node k) (wss_needle d) = Ok (length ?pre)" unfolding s .
    have dr: "drop (length ?pre + 2) (show_node k) = v @ ?post"
      unfolding s by (simp add: wss_needle_def v')
    have "quote d \<notin> set v" using ok ps by simp
    from slice_find.find_single [OF this] have j: "first_index_of (v @ ?post) [quote d] = Ok (length v)" .
    have "utf8_valid v" using u Cons by (cases d) (simp_all add: link_addresses_def)
    with i j dr Cons show ?thesis
      by (simp add: push_href_def Let_def from_utf8_def wss_needle_def)
  qed
qed

lemma push_hrefs_link:
  assumes "is_elem k" and "stanza_node k" and "clear_link k"
  shows "push_hrefs (show_node k) wss_needles vec = Ok (vec @ link_addresses (tag_pieces k))"
  by (simp add: wss_needles_both push_href_link [OF assms] link_addresses_def)

text \<open>
  What may stand in a document: elements of at most 4096 bytes, the links of the relation among them
  clear, and text; no CDATA and no comment.
\<close>

definition readable_link :: "bytes \<Rightarrow> node \<Rightarrow> bool" where
  "readable_link rel k \<longleftrightarrow>
     (case k of
        Text s \<Rightarrow> CHR ''<'' \<notin> set s
      | CData s \<Rightarrow> False
      | _ \<Rightarrow> stanza_node k \<and> length (show_node k) \<le> 4096 \<and> (sublist rel (show_node k) \<longrightarrow> clear_link k))"

definition hrefs_of :: "bytes \<Rightarrow> node list \<Rightarrow> bytes list" where
  "hrefs_of rel ks = concat (map (\<lambda>k. if is_elem k then link_hrefs rel k else []) ks)"

lemma read_one_link:
  assumes f: "idle 4096 e f" and "readable_link rel k" and "is_elem k" and ws: "CHR ''<'' \<notin> set ws"
  shows "\<exists>e' f'. idle 4096 e' f' \<and> read_links rel (map RByte (ws @ show_node k @ rest)) f vec
      = read_links rel (map RByte rest) f' (vec @ link_hrefs rel k)"
proof -
  from assms(2,3) have k: "stanza_node k" "length (show_node k) \<le> 4096" and u: "sublist rel (show_node k) \<longrightarrow> clear_link k"
    by (cases k; simp add: readable_link_def)+
  from next_item [OF f, of "Stanza k" ws rest] k ws obtain e' f' where f': "idle 4096 e' f'"
    and rd: "reader_next (map RByte (ws @ show_node k @ rest)) f = (Ok (Some (show_node k)), map RByte rest, f')"
    by auto
  have "(if contains_seq (show_node k) rel then push_hrefs (show_node k) wss_needles vec else Ok vec) = Ok (vec @ link_hrefs rel k)"
    using u push_hrefs_link [OF assms(3) k(1)] by (auto simp: slice_simps link_hrefs_def)
  with rd f' show ?thesis by (subst read_links.simps) auto
qed

lemma read_links_children:
  assumes "idle 4096 e f" and "list_all (readable_link rel) ks" and "CHR ''<'' \<notin> set ws"
    and s: "CHR ''<'' \<notin> set s" "CHR ''>'' \<notin> set s" "s \<noteq> ''stream:stream''" "length s + 3 \<le> 4096"
  shows "read_links rel (map RByte (ws @ concat (map show_node ks) @ ''</'' @ s @ ''>'')) f vec
    = Ok (vec @ hrefs_of rel ks)"
  using assms(1-3)
proof (induction ks arbitrary: e f ws vec)
  case Nil
  from closing_tag_fails [OF Nil(1,3) s] obtain er rd' f'
    where "reader_next (map RByte (ws @ ''</'' @ s @ ''>'')) f = (Err er, rd', f')" by blast
  then show ?case by (subst read_links.simps) (simp add: hrefs_of_def)
next
  case (Cons k ks)
  show ?case
  proof (cases "is_elem k")
    case True
    from Cons.prems(2) have "readable_link rel k" by simp
    from read_one_link [OF Cons.prems(1) this True Cons.prems(3)]
    obtain e' f' where f': "idle 4096 e' f'" and
      r: "read_links rel (map RByte (ws @ show_node k @ concat (map show_node ks) @ ''</'' @ s @ ''>'')) f vec
        = read_links rel (map RByte (concat (map show_node ks) @ ''</'' @ s @ ''>'')) f' (vec @ link_hrefs rel k)"
      by blast
    from Cons.IH [OF f', of "[]" "vec @ link_hrefs rel k"] Cons.prems(2) r True show ?thesis
      by (simp add: hrefs_of_def)
  next
    case False
    with Cons.prems(2) obtain t where k: "k = Text t" "CHR ''<'' \<notin> set t"
      by (cases k) (auto simp: readable_link_def)
    with Cons.prems have ws: "CHR ''<'' \<notin> set (ws @ t)" by simp
    from Cons.IH [OF Cons.prems(1) _ ws, of vec] Cons.prems(2) k show ?thesis
      by (simp add: hrefs_of_def)
  qed
qed

lemma read_host_meta_tail:
  assumes "idle n 0 f" and "CHR ''<'' \<notin> set ws"
  shows "read_host_meta rel (map RByte ws) f vec = Ok vec"
proof -
  from next_junk [OF assms] obtain f' where "fst (reader_next (map RByte ws) f) = Ok None" by auto
  then have "fst (next_loop (map RByte ws) f) = Ok None"
    by (auto simp: reader_next_def split: prod.splits outcome.splits option.splits)
  then have "fst (reader_next_eoft (map RByte ws) f) = Ok None"
    by (auto simp: reader_next_eoft_def split: prod.splits)
  then show ?thesis
    by (subst read_host_meta.simps) (auto split: prod.splits)
qed

lemma read_host_meta_decls:
  assumes "idle n 0 f"
    and "\<forall>(ws, d)\<in>set ds. CHR ''<'' \<notin> set ws \<and> ok_item (XmlDecl d) \<and> length (show_item (XmlDecl d)) \<le> n"
  shows "\<exists>f'. idle n 0 f' \<and> read_host_meta rel (map RByte (show_stream (map (apsnd XmlDecl) ds) @ rest)) f vec
    = read_host_meta rel (map RByte rest) f' vec"
  using assms
proof (induction ds arbitrary: f)
  case Nil
  then show ?case by (auto simp: show_stream_def)
next
  case (Cons p ds)
  obtain ws d where p: "p = (ws, d)" by (cases p)
  let ?rest = "show_stream (map (apsnd XmlDecl) ds) @ rest"
  from Cons.prems(2) have h: "CHR ''<'' \<notin> set ws" "ok_item (XmlDecl d)" "length (show_item (XmlDecl d)) \<le> n"
    and t: "\<forall>(ws, d)\<in>set ds. CHR ''<'' \<notin> set ws \<and> ok_item (XmlDecl d) \<and> length (show_item (XmlDecl d)) \<le> n"
    by (auto simp: p)
  from next_eoft_item [OF Cons.prems(1) h(2,3,1), of ?rest] obtain f1 where f1: "idle n 0 f1"
    and rd: "reader_next_eoft (map RByte (ws @ show_item (XmlDecl d) @ ?rest)) f
      = (Ok (Some (show_item (XmlDecl d), item_eoft (XmlDecl d))), map RByte ?rest, f1)" by blast
  have "read_host_meta rel (map RByte (ws @ show_item (XmlDecl d) @ ?rest)) f vec
      = read_host_meta rel (map RByte ?rest) f1 vec"
    using rd by (subst read_host_meta.simps) (simp del: map_append)
  with Cons.IH [OF f1 t] show ?case by (simp add: p show_stream_def)
qed

lemma read_host_meta_document:
  assumes f: "idle 8192 0 f" and x: "stanza_node (Elem t ks u)" "length (show_node (Elem t ks u)) \<le> 8192"
    and ws: "CHR ''<'' \<notin> set ws" "CHR ''<'' \<notin> set tail"
    and name: "prefix ''<XRD'' (show_node (Elem t ks u)) \<or> prefix ''<xrd'' (show_node (Elem t ks u))"
    and ks: "list_all (readable_link rel) ks"
    and u: "CHR ''<'' \<notin> set (show_tag u)" "CHR ''>'' \<notin> set (show_tag u)" "show_tag u \<noteq> ''stream:stream''"
      "length (show_tag u) + 3 \<le> 4096"
  shows "read_host_meta rel (map RByte (ws @ show_node (Elem t ks u) @ tail)) f [] = Ok (hrefs_of rel ks)"
proof -
  from next_eoft_item [OF f, of "Stanza (Elem t ks u)" ws tail] x ws(1)
  obtain f' where f': "idle 8192 0 f'" and
    rd: "reader_next_eoft (map RByte (ws @ show_node (Elem t ks u) @ tail)) f
      = (Ok (Some (show_node (Elem t ks u), first_tag_end (Elem t ks u))), map RByte tail, f')" by auto
  have "idle 4096 0 (StanzaFilter_new 4096)" by (rule idle_new) simp
  from read_links_children [OF this ks, of "''>''" "show_tag u" "[]"] u
  have "read_links rel (map RByte (drop (first_tag_end (Elem t ks u)) (show_node (Elem t ks u)))) (StanzaFilter_new 4096) []
      = Ok (hrefs_of rel ks)" by simp
  with rd name show ?thesis
    using read_host_meta_tail [OF f' ws(2), of rel "hrefs_of rel ks"]
    by (subst read_host_meta.simps) (simp del: show_node.simps first_tag_end.simps map_append)
qed

lemma wss_values_wss: "v \<in> set (wss_values d ps) \<Longrightarrow> prefix ''wss://'' v"
  by (induction d ps rule: wss_values.induct) (auto simp: wss_value_def split: piece.splits if_splits)

lemma hrefs_of_wss: "h \<in> set (hrefs_of rel ks) \<Longrightarrow> prefix ''wss://'' h"
  by (auto simp: hrefs_of_def link_hrefs_def link_addresses_def dest!: in_set_takeD wss_values_wss split: if_splits)

section \<open>Properties\<close>

text \<open>C9: the names that a server's certificate may be valid for are the domain itself and the
  targets of secure connections; only host-meta, fetched over HTTPS, makes a connection
  secure and gives pins, so what DNS answers adds no name; and a host-meta with a \<open>ttl\<close>
  replaces everything else.  There is always a connection to try.\<close>

theorem names_are_trusted:
  assumes "get_xmpp_connections w domain is_c2s = Ok (conns, v)"
  shows "\<exists>dn r ret pins. server_name w domain = Ok dn \<and> dn \<in> set (names v) \<and> conns \<noteq> []
    \<and> (\<forall>n\<in>set (names v). n = dn \<or> (\<exists>c\<in>set conns. secure c \<and> server_name w (target c) = Ok n))
    \<and> collect_host_meta w domain is_c2s ([], []) = (r, ret, pins) \<and> sha256_pinnedpubkeys v = pins
    \<and> (\<forall>c\<in>set conns. secure c \<longleftrightarrow> c \<in> set ret)
    \<and> (\<forall>t. r = Ok (Some t) \<longrightarrow> set conns \<subseteq> set ret \<or> conns = default_conns domain is_c2s)"
proof -
  from get_xmpp_connections_Ok [OF assms] obtain dn r ret pins ds psh where
    dn: "server_name w domain = Ok dn" and h: "collect_host_meta w domain is_c2s ([], []) = (r, ret, pins)"
    and cv: "(conns, v) = conns_and_verifier w domain is_c2s dn pins psh (chosen w is_c2s r ds ret)"
    by blast
  note s = conns_and_verifier_sound [OF cv]
  have sec: "x \<in> set ret \<Longrightarrow> secure x" for x by (rule collect_host_meta_secure [OF h])
  have insec: "x \<in> set (chosen w is_c2s r ds ret) \<Longrightarrow> x \<notin> set ret \<Longrightarrow> \<not> secure x" for x
    by (auto simp: chosen_def dest!: from_dns_set split: outcome.splits option.splits)
  from s have "\<forall>c\<in>set conns. secure c \<longleftrightarrow> c \<in> set ret"
    using sec insec default_insecure [of _ domain is_c2s] by blast
  moreover have "r = Ok (Some t) \<Longrightarrow> chosen w is_c2s r ds ret = ret" for t by (simp add: chosen_def)
  ultimately show ?thesis using s dn h by metis
qed

text \<open>A host-meta document gives the connections of its links of the kind asked for, all of
  them secure and with the addresses the link gives, which only a WebSocket link without
  these attributes does not have; links of the other kind and unknown links give none.\<close>

theorem host_meta_links:
  assumes "HostMeta_collect w hm is_c2s ([], pins0) = (t, ret, pins)"
  shows "(\<forall>c. c \<in> set ret \<longleftrightarrow> (\<exists>l\<in>set (links hm). Link_into_xmpp_connection w l is_c2s = Some c))
    \<and> (\<forall>l\<in>set (links hm). \<forall>c. Link_into_xmpp_connection w l is_c2s = Some c \<longrightarrow>
         secure c \<and> link_is_c2s l = is_c2s \<and> l \<noteq> LinkUnknown
         \<and> (ips c = [] \<longrightarrow> (\<exists>href. l = LinkWebSocket href None)))
    \<and> t = map_option ttl (xmpp hm)
    \<and> pins = pins0 @ (case xmpp hm of Some x \<Rightarrow> public_key_pins_sha_256 x | None \<Rightarrow> [])"
proof -
  from assms have "ret = push_links w is_c2s (links hm) []" and "t = map_option ttl (xmpp hm)"
    and "pins = pins0 @ (case xmpp hm of Some x \<Rightarrow> public_key_pins_sha_256 x | None \<Rightarrow> [])"
    by (auto simp: HostMeta_collect_def Let_def split: option.splits)
  then show ?thesis by (auto simp: push_links_set dest: Link_Some)
qed

text \<open>C28: a host-meta document in XML of at most 8192 bytes gives the addresses of the elements that
  contain the relation asked for, in order: of each the first value in apostrophes and the first in
  double quotes that begins with \<open>wss://\<close>, whatever declarations stand before the root element and
  whatever text stands between the links.  The elements have at most 4096 bytes each, and there is
  no CDATA and no comment among them; their values do not end with an equals sign and do not
  themselves contain one before a quoted \<open>wss://\<close>, and what follows a link's tag has no equals sign.\<close>

theorem host_meta_xml_links:
  assumes "stanza_node (Elem t ks u)" and "length (show_node (Elem t ks u)) \<le> 8192"
    and "CHR ''<'' \<notin> set ws" and "CHR ''<'' \<notin> set tail"
    and "prefix ''<XRD'' (show_node (Elem t ks u)) \<or> prefix ''<xrd'' (show_node (Elem t ks u))"
    and "list_all (readable_link rel) ks"
    and "CHR ''<'' \<notin> set (show_tag u)" and "CHR ''>'' \<notin> set (show_tag u)"
    and "show_tag u \<noteq> ''stream:stream''" and "length (show_tag u) + 3 \<le> 4096"
    and "\<forall>(ws, d)\<in>set ds. CHR ''<'' \<notin> set ws \<and> ok_item (XmlDecl d) \<and> length (show_item (XmlDecl d)) \<le> 8192"
  shows "parse_host_meta_xml rel (show_stream (map (apsnd XmlDecl) ds) @ ws @ show_node (Elem t ks u) @ tail)
      = Ok (hrefs_of rel ks)
    \<and> (\<forall>h\<in>set (hrefs_of rel ks). prefix ''wss://'' h)"
proof -
  have "idle 8192 0 (StanzaFilter_new 8192)" by (rule idle_new) simp
  from read_host_meta_decls [OF this assms(11), of rel "ws @ show_node (Elem t ks u) @ tail" "[]"]
  obtain f' where f': "idle 8192 0 f'" and
    e: "parse_host_meta_xml rel (show_stream (map (apsnd XmlDecl) ds) @ ws @ show_node (Elem t ks u) @ tail)
      = read_host_meta rel (map RByte (ws @ show_node (Elem t ks u) @ tail)) f' []"
    by (auto simp: parse_host_meta_xml_def simp del: map_append)
  from read_host_meta_document [OF f' assms(1-10)] e
  have "parse_host_meta_xml rel (show_stream (map (apsnd XmlDecl) ds) @ ws @ show_node (Elem t ks u) @ tail)
      = Ok (hrefs_of rel ks)" by (simp only:)
  then show ?thesis using hrefs_of_wss by blast
qed

definition example_links :: "node list" where
  "example_links =
     [Text '' '',
      EmptyElem (CHR ''L'', map Plain '' rel='' @ [Quoted True ''alt:ws''] @ map Plain '' href='' @ [Quoted False ''wss://h/ws'']),
      EmptyElem (CHR ''L'', map Plain '' rel='' @ [Quoted True ''other''] @ map Plain '' href='' @ [Quoted False ''wss://g/ws''])]"

lemma host_meta_xml_links_witness:
  "parse_host_meta_xml ''alt:ws'' (show_stream (map (apsnd XmlDecl) [([], ''v?'')]) @ '' '' @ show_node (Elem (CHR ''X'', map Plain ''RD'') example_links (CHR ''X'', map Plain ''RD'')) @ [])
      = Ok [''wss://h/ws'']"
proof -
  have "hrefs_of ''alt:ws'' example_links = [''wss://h/ws'']" by code_simp
  moreover have "parse_host_meta_xml ''alt:ws'' (show_stream (map (apsnd XmlDecl) [([], ''v?'')]) @ '' '' @ show_node (Elem (CHR ''X'', map Plain ''RD'') example_links (CHR ''X'', map Plain ''RD'')) @ [])
      = Ok (hrefs_of ''alt:ws'' example_links)
    \<and> (\<forall>h\<in>set (hrefs_of ''alt:ws'' example_links). prefix ''wss://'' h)"
    by (rule host_meta_xml_links; code_simp)
  ultimately show ?thesis by simp
qed

text \<open>A domain with a host-meta in JSON that has one link, and nothing else.\<close>

definition example_host_meta :: HostMeta where
  "example_host_meta =
     \<lparr>xmpp = Some \<lparr>ttl = 60, public_key_pins_sha_256 = [''pin'']\<rparr>,
      links = [LinkDirectTLS \<lparr>link_ips = [V4 1], link_priority = 1, link_weight = 2, link_sni = ''b'', link_ech = None\<rparr> 5223,
               S2SQuic \<lparr>link_ips = [V4 1], link_priority = 1, link_weight = 2, link_sni = ''c'', link_ech = None\<rparr> 443]\<rparr>"

definition example_world :: "(bytes, bytes, bytes, bytes) world" where
  "example_world =
     \<lparr>get_https = (\<lambda>url. if url = ''https://a/.well-known/host-meta.json'' then Ok \<lparr>status = 200, body = []\<rparr> else Err IoError),
      parse_host_meta = (\<lambda>b. Ok example_host_meta), parse_posh = (\<lambda>b. Err IoError), body_bytes = Ok,
      srv_lookup = (\<lambda>n. Err IoError), txt_lookup = (\<lambda>n. Err IoError), into_name = Ok, server_name = Ok,
      uri_try_from = Ok, uri_host = Some, uri_port = (\<lambda>u. None), uri_to_string = id, uri_equal = (=),
      url_parse = Ok, url_port = (\<lambda>u. None), url_serialization = id\<rparr>"

lemma names_are_trusted_witness:
  "\<exists>conns v dn r ret pins. get_xmpp_connections example_world ''a'' True = Ok (conns, v)
    \<and> server_name example_world ''a'' = Ok dn \<and> dn \<in> set (names v) \<and> conns \<noteq> []
    \<and> collect_host_meta example_world ''a'' True ([], []) = (r, ret, pins) \<and> sha256_pinnedpubkeys v = pins
    \<and> (\<forall>c\<in>set conns. secure c \<longleftrightarrow> c \<in> set ret)"
proof -
  have "is_ok (get_xmpp_connections example_world ''a'' True)" by code_simp
  then obtain cv where "get_xmpp_connections example_world ''a'' True = Ok cv" by (auto simp: is_ok_iff)
  then have "get_xmpp_connections example_world ''a'' True = Ok (fst cv, snd cv)" by simp
  with names_are_trusted [OF this] show ?thesis by blast
qed

lemma host_meta_links_witness:
  "\<exists>t ret pins. HostMeta_collect example_world example_host_meta True ([], []) = (t, ret, pins)
    \<and> (\<forall>c. c \<in> set ret \<longleftrightarrow> (\<exists>l\<in>set (links example_host_meta). Link_into_xmpp_connection example_world l True = Some c))"
proof -
  let ?c = "HostMeta_collect example_world example_host_meta True ([], [])"
  have "?c = (fst ?c, fst (snd ?c), snd (snd ?c))" by simp
  from host_meta_links [OF this] this show ?thesis by blast
qed

end
