(* ===== verification/In_Out.thy ===== *)
theory In_Out
  imports Websocket
begin

text \<open>
  Model of \<open>src/in_out.rs\<close>: the two kinds of stanza reader and stanza writer, one over a
  byte stream and one over a WebSocket, behind one interface.

  The two libraries below are the world: what a read returns next, and whether a write
  succeeds.  A sink keeps the log of what has been handed to it, and the list of the
  outcomes of its next operations: \<^const>\<open>None\<close> for success, \<^term>\<open>Some k\<close> for an error after
  \<open>k\<close> bytes; past the end of the list every operation succeeds.
\<close>

section \<open>Messages, sinks and sources\<close>

datatype ws_message =
    WsText bytes
  | WsBinary bytes
  | WsPing bytes
  | WsPong bytes
  | WsClose "bytes option"
  | WsFrame bytes

datatype ws_event = WsMsg ws_message | WsErr

datatype wr_event = Wrote bytes | Fed ws_message | Flushed

record sink =
  sent :: "wr_event list"
  faults :: "nat option list"

definition next_fault :: "sink \<Rightarrow> nat option \<times> sink" where
  "next_fault s =
     (case faults s of
        [] \<Rightarrow> (None, s)
      | x # xs \<Rightarrow> (x, s\<lparr>faults := xs\<rparr>))"

definition sink_write_all :: "bytes \<Rightarrow> sink \<Rightarrow> unit outcome \<times> sink" where
  "sink_write_all bs s =
     (case next_fault s of
        (None, s) \<Rightarrow> (Ok (), s\<lparr>sent := sent s @ [Wrote bs]\<rparr>)
      | (Some k, s) \<Rightarrow> (Err IoError, s\<lparr>sent := sent s @ [Wrote (take k bs)]\<rparr>))"

definition sink_feed :: "ws_message \<Rightarrow> sink \<Rightarrow> unit outcome \<times> sink" where
  "sink_feed m s =
     (case next_fault s of
        (None, s) \<Rightarrow> (Ok (), s\<lparr>sent := sent s @ [Fed m]\<rparr>)
      | (Some k, s) \<Rightarrow> (Err IoError, s))"

definition sink_flush :: "sink \<Rightarrow> unit outcome \<times> sink" where
  "sink_flush s =
     (case next_fault s of
        (None, s) \<Rightarrow> (Ok (), s\<lparr>sent := sent s @ [Flushed]\<rparr>)
      | (Some k, s) \<Rightarrow> (Err IoError, s))"

datatype StanzaWrite = AsyncWrite sink | WebSocketClientWrite sink

datatype StanzaRead = AsyncRead reader | WebSocketRead "ws_event list"

text \<open>
  A WebSocket from outside: the library answers the request with a response, whose headers the
  program adds to, and then reads and writes messages under a configuration.
\<close>

type_synonym headers = "(bytes \<times> bytes) list"

type_synonym ws_accept = "(headers \<Rightarrow> headers) \<Rightarrow> WebSocketConfig \<Rightarrow> (ws_event list \<times> sink) outcome"

definition ws_response :: "headers \<Rightarrow> headers" where
  "ws_response hs = hs @ [(''sec-websocket-protocol'', ''xmpp''), (''access-control-allow-origin'', ''*'')]"

definition incoming_websocket_connection :: "ws_accept \<Rightarrow> nat \<Rightarrow> (StanzaRead \<times> StanzaWrite) outcome" where
  "incoming_websocket_connection accept_hdr max_stanza_size_bytes =
     map_outcome (\<lambda>(msgs, s). (WebSocketRead msgs, WebSocketClientWrite s))
       (accept_hdr ws_response (ws_cfg max_stanza_size_bytes))"

fun sink_of :: "StanzaWrite \<Rightarrow> sink" where
  "sink_of (AsyncWrite s) = s"
| "sink_of (WebSocketClientWrite s) = s"

section \<open>Writing\<close>

text \<open>
  \<open>write_all\<close> on a WebSocket skips an XML declaration; the first \<^bold>\<open>return\<close> is for a
  declaration that stands alone.  The log line in that branch converts the rest to a string
  with \<open>from_utf8\<close> and \<open>?\<close>, but \<open>trace!\<close> evaluates its arguments only when tracing is on:
  the flag \<open>tracing\<close>.
\<close>

definition write_ws :: "bool \<Rightarrow> bytes \<Rightarrow> nat \<Rightarrow> sink \<Rightarrow> unit outcome \<times> sink" where
  "write_ws is_c2s bs end_tag s =
     (case to_ws_new bs end_tag is_c2s of
        Ok stanza \<Rightarrow> sink_feed (WsText stanza) s
      | Err e \<Rightarrow> (Err e, s)
      | Panic \<Rightarrow> (Panic, s))"

fun StanzaWrite_write_all ::
    "bool \<Rightarrow> bool \<Rightarrow> bytes \<Rightarrow> nat \<Rightarrow> StanzaWrite \<Rightarrow> unit outcome \<times> StanzaWrite"
where
  "StanzaWrite_write_all tracing is_c2s bs end_tag (AsyncWrite s) =
     map_prod id AsyncWrite (sink_write_all bs s)"
| "StanzaWrite_write_all tracing is_c2s bs end_tag (WebSocketClientWrite s) =
     map_prod id WebSocketClientWrite
      (if prefix ''<?xml '' bs then
         (let bs = drop 6 bs in
          case first_index_of bs ''<'' of
            Ok idx \<Rightarrow> write_ws is_c2s (drop idx bs) end_tag s
          | Err e \<Rightarrow>
              (if tracing \<and> \<not> utf8_valid bs then Err Utf8Error else Ok (), s)
          | Panic \<Rightarrow> (Panic, s))
       else write_ws is_c2s bs end_tag s)"

fun StanzaWrite_flush :: "StanzaWrite \<Rightarrow> unit outcome \<times> StanzaWrite" where
  "StanzaWrite_flush (AsyncWrite s) = map_prod id AsyncWrite (sink_flush s)"
| "StanzaWrite_flush (WebSocketClientWrite s) = map_prod id WebSocketClientWrite (sink_flush s)"

section \<open>Reading\<close>

text \<open>
  The loop of \<open>next\<close> over the messages of a WebSocket.  A text is copied to the front of the
  filter's buffer, which panics when it does not fit.
\<close>

fun ws_loop ::
    "ws_event list \<Rightarrow> StanzaFilter \<Rightarrow> StanzaWrite
      \<Rightarrow> (bytes \<times> nat) option outcome \<times> ws_event list \<times> StanzaFilter \<times> StanzaWrite"
where
  "ws_loop [] f wrt = (Err WebsocketStreamEnded, [], f, wrt)"
| "ws_loop (WsErr # rd) f wrt = (Err IoError, rd, f, wrt)"
| "ws_loop (WsMsg m # rd) f wrt =
     (case m of
        WsText stanza \<Rightarrow>
          (let stanza = from_ws stanza in
           if length stanza \<le> length (buf f)
           then (Ok (Some (stanza, 0)), rd, f\<lparr>buf := stanza @ drop (length stanza) (buf f)\<rparr>, wrt)
           else (Panic, rd, f, wrt))
      | WsPing msg \<Rightarrow>
          (case wrt of
             AsyncWrite s \<Rightarrow> (Err ProgrammingError, rd, f, wrt)
           | WebSocketClientWrite s \<Rightarrow>
               (case sink_feed (WsPong msg) s of
                  (Ok u, s) \<Rightarrow>
                    (case sink_flush s of
                       (Ok u, s) \<Rightarrow> ws_loop rd f (WebSocketClientWrite s)
                     | (Err e, s) \<Rightarrow> (Err e, rd, f, WebSocketClientWrite s)
                     | (Panic, s) \<Rightarrow> (Panic, rd, f, WebSocketClientWrite s))
                | (Err e, s) \<Rightarrow> (Err e, rd, f, WebSocketClientWrite s)
                | (Panic, s) \<Rightarrow> (Panic, rd, f, WebSocketClientWrite s)))
      | WsClose cf \<Rightarrow> (Err WebsocketClose, rd, f, wrt)
      | WsBinary msg \<Rightarrow> (Err InvalidWebsocketMessage, rd, f, wrt)
      | WsPong msg \<Rightarrow> (Err InvalidWebsocketMessage, rd, f, wrt)
      | WsFrame msg \<Rightarrow> (Err InvalidWebsocketMessage, rd, f, wrt))"

fun StanzaRead_next ::
    "StanzaRead \<Rightarrow> StanzaFilter \<Rightarrow> StanzaWrite
      \<Rightarrow> (bytes \<times> nat) option outcome \<times> StanzaRead \<times> StanzaFilter \<times> StanzaWrite"
where
  "StanzaRead_next (AsyncRead rd) f wrt =
     (case reader_next_eoft rd f of (r, rd, f) \<Rightarrow> (r, AsyncRead rd, f, wrt))"
| "StanzaRead_next (WebSocketRead rd) f wrt =
     (case ws_loop rd f wrt of (r, rd, f, wrt) \<Rightarrow> (r, WebSocketRead rd, f, wrt))"

section \<open>What the operations do\<close>

definition log_event :: "wr_event list \<Rightarrow> sink \<Rightarrow> sink" where
  "log_event es s = s\<lparr>sent := sent s @ es\<rparr>"

lemma log_event_simps [simp]:
  "faults (log_event es s) = faults s"
  "sent (log_event es s) = sent s @ es"
  "log_event es' (log_event es s) = log_event (es @ es') s"
  "log_event [] s = s"
  by (simp_all add: log_event_def)

lemma sink_ok:
  assumes "faults s = []"
  shows "sink_write_all bs s = (Ok (), log_event [Wrote bs] s)"
    and "sink_feed m s = (Ok (), log_event [Fed m] s)"
    and "sink_flush s = (Ok (), log_event [Flushed] s)"
  using assms by (simp_all add: sink_write_all_def sink_feed_def sink_flush_def next_fault_def log_event_def)

lemma sink_no_panic:
  "fst (sink_write_all bs s) \<noteq> Panic" "fst (sink_feed m s) \<noteq> Panic" "fst (sink_flush s) \<noteq> Panic"
  by (simp_all add: sink_write_all_def sink_feed_def sink_flush_def split: prod.splits option.splits)

definition pong :: "bytes \<Rightarrow> wr_event list" where
  "pong p = [Fed (WsPong p), Flushed]"

lemma ws_loop_pings:
  "faults s = [] \<Longrightarrow> ws_loop (map (WsMsg \<circ> WsPing) ps @ rd) f (WebSocketClientWrite s)
     = ws_loop rd f (WebSocketClientWrite (log_event (concat (map pong ps)) s))"
proof (induction ps arbitrary: s)
  case Nil
  then show ?case by simp
next
  case (Cons p ps)
  from Cons.prems Cons.IH [of "log_event (pong p) s"] show ?case
    by (simp add: sink_ok pong_def)
qed

lemma ws_loop_text:
  assumes "length (from_ws t) \<le> length (buf f)"
  shows "\<exists>f'. ws_loop (WsMsg (WsText t) # rd) f wrt = (Ok (Some (from_ws t, 0)), rd, f', wrt)
     \<and> take (length (from_ws t)) (buf f') = from_ws t \<and> length (buf f') = length (buf f)"
  using assms by (simp add: Let_def)

lemma split_pings:
  obtains ps rd' where "rd = map (WsMsg \<circ> WsPing) ps @ rd'"
    and "\<nexists>p r. rd' = WsMsg (WsPing p) # r"
proof (induction rd arbitrary: thesis)
  case Nil
  show ?case by (rule Nil [of "[]" "[]"]) simp_all
next
  case (Cons e rd)
  show ?case
  proof (cases "\<exists>p. e = WsMsg (WsPing p)")
    case True
    then obtain p where e: "e = WsMsg (WsPing p)" ..
    from Cons.IH obtain ps rd' where "rd = map (WsMsg \<circ> WsPing) ps @ rd'"
      and n: "\<nexists>p r. rd' = WsMsg (WsPing p) # r" by blast
    then have "e # rd = map (WsMsg \<circ> WsPing) (p # ps) @ rd'" using e by simp
    from this n show ?thesis by (rule Cons.prems)
  next
    case False
    then show ?thesis by (intro Cons.prems [of "[]" "e # rd"]) auto
  qed
qed

lemma to_ws_eoft_0:
  "\<not> prefix ''<stream:stream '' s \<Longrightarrow> to_ws_new s 0 c = from_utf8 s"
  by (simp add: to_ws_new_def)

lemma from_ws_other:
  "\<not> prefix ''<open '' s \<Longrightarrow> \<not> prefix ''<close '' s \<Longrightarrow> from_ws s = s"
  by (simp add: from_ws_def)

lemma write_ws_plain:
  assumes "\<not> prefix ''<?xml '' bs"
  shows "StanzaWrite_write_all tr c bs e (WebSocketClientWrite s)
    = map_prod id WebSocketClientWrite (write_ws c bs e s)"
  using assms by simp

text \<open>A declaration in front of an element is skipped.\<close>

lemma write_ws_declaration:
  assumes "CHR ''<'' \<notin> set d" and "hd bs = CHR ''<''" and "bs \<noteq> []"
  shows "StanzaWrite_write_all tr c (''<?xml '' @ d @ bs) e (WebSocketClientWrite s)
    = map_prod id WebSocketClientWrite (write_ws c bs e s)"
proof -
  obtain r where bs: "bs = CHR ''<'' # r" using assms by (cases bs) auto
  have "first_index_of (d @ bs) ''<'' = Ok (length d)"
    unfolding bs by (rule slice_find.find_single) (rule assms(1))
  then show ?thesis by simp
qed

lemma write_ws_ok:
  "to_ws_new bs e c = Ok w \<Longrightarrow> faults s = [] \<Longrightarrow> write_ws c bs e s = (Ok (), log_event [Fed (WsText w)] s)"
  by (simp add: write_ws_def sink_ok)

lemma read_text:
  assumes "length (from_ws t) \<le> length (buf f)"
  shows "\<exists>f'. StanzaRead_next (WebSocketRead (WsMsg (WsText t) # rd)) f wrt
      = (Ok (Some (from_ws t, 0)), WebSocketRead rd, f', wrt)"
  using ws_loop_text [OF assms, of rd wrt] by auto

lemma elem_not_open:
  assumes "is_elem x" and "\<not> prefix ''<?xml '' (show_node x)"
  shows "show_node x \<noteq> [] \<and> hd (show_node x) = CHR ''<''"
  using assms by (cases x) auto

lemma ws_loop_panic_cases:
  assumes "faults s = []" and "\<nexists>p r. rd = WsMsg (WsPing p) # r"
  shows "fst (ws_loop rd f (WebSocketClientWrite s)) = Panic
    \<longleftrightarrow> (\<exists>t r. rd = WsMsg (WsText t) # r \<and> length (buf f) < length (from_ws t))"
proof (cases rd)
  case (Cons e r)
  show ?thesis
  proof (cases e)
    case (WsMsg m)
    with assms Cons show ?thesis by (cases m) (auto simp: Let_def)
  qed (simp add: Cons)
qed simp

lemma map_pings_inj:
  "map (WsMsg \<circ> WsPing) ps @ WsMsg (WsText t) # r = map (WsMsg \<circ> WsPing) qs @ rd'
     \<Longrightarrow> \<nexists>p r. rd' = WsMsg (WsPing p) # r \<Longrightarrow> rd' = WsMsg (WsText t) # r"
proof (induction ps arbitrary: qs)
  case Nil
  then show ?case by (cases qs) auto
next
  case (Cons p ps)
  then show ?case by (cases qs) auto
qed

section \<open>Properties\<close>

text \<open>Reading from a WebSocket answers every ping with a pong of the same payload, in
  order and flushed at once, and returns the next text, converted.\<close>

theorem ws_pings_answered:
  assumes "faults s = []" and "length (from_ws t) \<le> length (buf f)"
  shows "\<exists>f'. StanzaRead_next (WebSocketRead (map (WsMsg \<circ> WsPing) ps @ WsMsg (WsText t) # rd)) f (WebSocketClientWrite s)
      = (Ok (Some (from_ws t, 0)), WebSocketRead rd, f',
         WebSocketClientWrite (s\<lparr>sent := sent s @ concat (map (\<lambda>p. [Fed (WsPong p), Flushed]) ps)\<rparr>))"
proof -
  have "(\<lambda>p. [Fed (WsPong p), Flushed]) = pong" by (simp add: pong_def fun_eq_iff)
  then show ?thesis
    using ws_loop_pings [OF assms(1), of ps "WsMsg (WsText t) # rd" f]
      ws_loop_text [OF assms(2), of rd "WebSocketClientWrite (log_event (concat (map pong ps)) s)"]
    by (auto simp: log_event_def simp del: map_map)
qed

lemma ws_pings_answered_witness:
  "\<exists>f'. StanzaRead_next (WebSocketRead (map (WsMsg \<circ> WsPing) [''a'', ''b''] @ WsMsg (WsText ''<q/>'') # []))
        (StanzaFilter_new 9) (WebSocketClientWrite \<lparr>sent = [], faults = []\<rparr>)
      = (Ok (Some (from_ws ''<q/>'', 0)), WebSocketRead [], f',
         WebSocketClientWrite (\<lparr>sent = [], faults = []\<rparr>\<lparr>sent := sent \<lparr>sent = [], faults = []\<rparr> @ concat (map (\<lambda>p. [Fed (WsPong p), Flushed]) [''a'', ''b''])\<rparr>))"
  by (rule ws_pings_answered; code_simp)

text \<open>C33: reading from a WebSocket whose writer has no fault panics exactly when the first
  message that is not a ping is a text that, converted, is longer than the filter's buffer:
  the limit on the message size is four times the size of that buffer.\<close>

theorem ws_read_panic_iff:
  assumes "faults s = []"
  shows "fst (StanzaRead_next (WebSocketRead rd) f (WebSocketClientWrite s)) = Panic
    \<longleftrightarrow> (\<exists>ps t r. rd = map (WsMsg \<circ> WsPing) ps @ WsMsg (WsText t) # r
          \<and> length (buf f) < length (from_ws t))"
proof -
  obtain qs rd' where rd: "rd = map (WsMsg \<circ> WsPing) qs @ rd'" and n: "\<nexists>p r. rd' = WsMsg (WsPing p) # r"
    by (rule split_pings)
  have "fst (StanzaRead_next (WebSocketRead rd) f (WebSocketClientWrite s))
      = fst (ws_loop rd' f (WebSocketClientWrite (log_event (concat (map pong qs)) s)))"
    by (simp add: rd ws_loop_pings [OF assms] split: prod.splits del: map_map)
  with ws_loop_panic_cases [OF _ n, of "log_event (concat (map pong qs)) s" f] assms
  have "fst (StanzaRead_next (WebSocketRead rd) f (WebSocketClientWrite s)) = Panic
      \<longleftrightarrow> (\<exists>t r. rd' = WsMsg (WsText t) # r \<and> length (buf f) < length (from_ws t))" by simp
  also have "\<dots> \<longleftrightarrow> (\<exists>ps t r. rd = map (WsMsg \<circ> WsPing) ps @ WsMsg (WsText t) # r
          \<and> length (buf f) < length (from_ws t))"
    using map_pings_inj [OF _ n] rd by metis
  finally show ?thesis .
qed

lemma ws_read_panic_iff_witness:
  "fst (StanzaRead_next (WebSocketRead [WsMsg (WsText ''<a>1234</a>'')]) (StanzaFilter_new 9)
     (WebSocketClientWrite \<lparr>sent = [], faults = []\<rparr>)) = Panic"
proof -
  have "[WsMsg (WsText ''<a>1234</a>'')] = map (WsMsg \<circ> WsPing) [] @ WsMsg (WsText ''<a>1234</a>'') # []"
    and "length (buf (StanzaFilter_new 9)) < length (from_ws ''<a>1234</a>'')" by code_simp+
  with ws_read_panic_iff [of "\<lparr>sent = [], faults = []\<rparr>" "[WsMsg (WsText ''<a>1234</a>'')]" "StanzaFilter_new 9"]
  show ?thesis by (metis select_convs(2))
qed

text \<open>C31: an XML declaration and a stream header written to a WebSocket become one text
  message, which the other end reads as the header.\<close>

theorem ws_preamble_hop:
  assumes "plain_attrs p" and "plain_attrs q" and "ns = ''jabber:client'' \<or> ns = ''jabber:server''"
    and "\<not> prefix ''-server'' q" and "sublist ''xmlns:stream='' p \<or> sublist ''xmlns:stream='' q"
    and "utf8_valid (stream_header p ns q)" and "CHR ''<'' \<notin> set d"
    and "faults s = []" and "length (stream_header p ns q) \<le> length (buf f)"
  shows "\<exists>w f'. StanzaWrite_write_all tr c (''<?xml '' @ d @ stream_header p ns q) e (WebSocketClientWrite s)
        = (Ok (), WebSocketClientWrite (s\<lparr>sent := sent s @ [Fed (WsText w)]\<rparr>))
      \<and> StanzaRead_next (WebSocketRead [WsMsg (WsText w)]) f wrt
        = (Ok (Some (stream_header p ns q, 0)), WebSocketRead [], f', wrt)"
proof -
  obtain w where w: "to_ws_new (stream_header p ns q) e c = Ok w" "from_ws w = stream_header p ns q"
    using header_back [OF assms(1-6)] by blast
  have "stream_header p ns q \<noteq> []" "hd (stream_header p ns q) = CHR ''<''"
    by (simp_all add: stream_header_def)
  from write_ws_declaration [OF assms(7) this(2,1), of tr c e s] write_ws_ok [OF w(1) assms(8)]
  have "StanzaWrite_write_all tr c (''<?xml '' @ d @ stream_header p ns q) e (WebSocketClientWrite s)
        = (Ok (), WebSocketClientWrite (s\<lparr>sent := sent s @ [Fed (WsText w)]\<rparr>))"
    by (simp add: log_event_def)
  moreover have "\<exists>f'. StanzaRead_next (WebSocketRead [WsMsg (WsText w)]) f wrt
        = (Ok (Some (from_ws w, 0)), WebSocketRead [], f', wrt)"
    by (rule read_text) (simp add: w assms(9))
  ultimately show ?thesis using w(2) by auto
qed

lemma ws_preamble_hop_witness:
  "\<exists>w f'. StanzaWrite_write_all False True (''<?xml '' @ ''version=\"1.0\"?>'' @ stream_header ''to=\"a\" xmlns=\"'' ''jabber:client'' ''\" xmlns:stream=\"s\"'') 0 (WebSocketClientWrite \<lparr>sent = [], faults = []\<rparr>)
        = (Ok (), WebSocketClientWrite (\<lparr>sent = [], faults = []\<rparr>\<lparr>sent := sent \<lparr>sent = [], faults = []\<rparr> @ [Fed (WsText w)]\<rparr>))
      \<and> StanzaRead_next (WebSocketRead [WsMsg (WsText w)]) (StanzaFilter_new 99) (AsyncWrite \<lparr>sent = [], faults = []\<rparr>)
        = (Ok (Some (stream_header ''to=\"a\" xmlns=\"'' ''jabber:client'' ''\" xmlns:stream=\"s\"'', 0)), WebSocketRead [], f', AsyncWrite \<lparr>sent = [], faults = []\<rparr>)"
  by (rule ws_preamble_hop; code_simp)

text \<open>C40: a closing tag that arrives over a WebSocket and leaves over another is not converted
  back: the text sent is the closing tag of the TCP framing, not a \<open>close\<close> element, because
  \<open>to_ws_new\<close> tests \<open>end_of_first_tag == 0\<close>, which every message from a WebSocket has,
  before it looks for the closing tag.\<close>

theorem ws_close_not_converted:
  assumes "prefix ''<close '' t" and "faults s = []" and "16 \<le> length (buf f)"
  shows "\<exists>f'. StanzaRead_next (WebSocketRead (WsMsg (WsText t) # rd)) f wrt
        = (Ok (Some (''</stream:stream>'', 0)), WebSocketRead rd, f', wrt)
      \<and> StanzaWrite_write_all tr c ''</stream:stream>'' 0 (WebSocketClientWrite s)
        = (Ok (), WebSocketClientWrite (s\<lparr>sent := sent s @ [Fed (WsText ''</stream:stream>'')]\<rparr>))"
proof -
  have "\<not> prefix ''<open '' t" using assms(1) by (auto simp: prefix_def)
  then have t: "from_ws t = ''</stream:stream>''" using assms(1) by (simp add: from_ws_def)
  have "utf8_valid ''</stream:stream>''" by code_simp
  then have "write_ws c ''</stream:stream>'' 0 s = (Ok (), log_event [Fed (WsText ''</stream:stream>'')] s)"
    by (intro write_ws_ok assms(2)) (simp add: to_ws_eoft_0 from_utf8_def)
  with write_ws_plain [of "''</stream:stream>''" tr c 0 s] read_text [of t f rd wrt] t assms(3)
  show ?thesis by (simp add: log_event_def)
qed

lemma ws_close_not_converted_witness:
  "\<exists>f'. StanzaRead_next (WebSocketRead (WsMsg (WsText ''<close />'') # [])) (StanzaFilter_new 20) (AsyncWrite \<lparr>sent = [], faults = []\<rparr>)
        = (Ok (Some (''</stream:stream>'', 0)), WebSocketRead [], f', AsyncWrite \<lparr>sent = [], faults = []\<rparr>)
      \<and> StanzaWrite_write_all True True ''</stream:stream>'' 0 (WebSocketClientWrite \<lparr>sent = [], faults = []\<rparr>)
        = (Ok (), WebSocketClientWrite (\<lparr>sent = [], faults = []\<rparr>\<lparr>sent := sent \<lparr>sent = [], faults = []\<rparr> @ [Fed (WsText ''</stream:stream>'')]\<rparr>))"
  by (rule ws_close_not_converted; code_simp)

end
