(* ===== verification/Stream_Common.thy ===== *)
theory Stream_Common
  imports In_Out
begin

text \<open>
  Model of the helpers of \<open>src/common/mod.rs\<close> that look at the beginning of a connection:
  the names of the two kinds of stream, the address of a listener, peeking at the first
  bytes, and reading a stream up to its header.
\<close>

section \<open>Names and addresses\<close>

definition c2s :: "bool \<Rightarrow> bytes" where
  "c2s is_c2s = (if is_c2s then ''c2s'' else ''s2s'')"

text \<open>
  \<open>'sa\<close> is the type of socket addresses, \<open>parse\<close> the standard library's parser for them.
\<close>

datatype 'sa SocketAddrPath = SocketAddr 'sa | SocketPath bytes

definition SocketAddrPath_deserialize ::
    "(bytes \<Rightarrow> 'sa outcome) \<Rightarrow> bytes \<Rightarrow> 'sa SocketAddrPath outcome"
where
  "SocketAddrPath_deserialize parse str =
     (if sublist ''/'' str then Ok (SocketPath str)
      else bind_ok (parse str) (\<lambda>sa. Ok (SocketAddr sa)))"

section \<open>Peeking\<close>

text \<open>
  One turn of a peeking loop: what \<open>peek\<close> or \<open>fill_buf\<close> returned, and whether more than the
  ten seconds have passed at the check.  A loop that has not returned at the end of the list
  is still waiting: \<^const>\<open>None\<close>.
\<close>

datatype peek_event = PeekErr | Peeked bytes bool

text \<open>\<open>peek_bytes\<close> of a \<open>TcpStream\<close>; a peek sees at most \<open>len\<close> bytes.\<close>

fun tcp_peek_bytes :: "nat \<Rightarrow> peek_event list \<Rightarrow> bytes outcome option" where
  "tcp_peek_bytes len [] = None"
| "tcp_peek_bytes len (PeekErr # es) = Some (Err IoError)"
| "tcp_peek_bytes len (Peeked bs late # es) =
     (let p = take len bs; n = length p in
      if n = len then Some (Ok p)
      else if n = 0 then Some (Err NotEnoughBytes)
      else if late then Some (Err (LessThanBytes len))
      else tcp_peek_bytes len es)"

text \<open>\<open>peek_bytes\<close> of a \<open>BufStream\<close> and of a \<open>BufReader\<close>, which have the same body.\<close>

fun buf_peek_bytes :: "nat \<Rightarrow> peek_event list \<Rightarrow> bytes outcome option" where
  "buf_peek_bytes len [] = None"
| "buf_peek_bytes len (PeekErr # es) = Some (Err IoError)"
| "buf_peek_bytes len (Peeked bs late # es) =
     (if len \<le> length bs then Some (Ok (take len bs))
      else if bs = [] then Some (Err NotEnoughBytes)
      else if late then Some (Err (LessThanBytes len))
      else buf_peek_bytes len es)"

definition first_bytes_match ::
    "(nat \<Rightarrow> peek_event list \<Rightarrow> bytes outcome option) \<Rightarrow> nat \<Rightarrow> (bytes \<Rightarrow> bool) \<Rightarrow> peek_event list
      \<Rightarrow> bool outcome option"
where
  "first_bytes_match peek_bytes len matcher es =
     map_option (map_outcome matcher) (peek_bytes len es)"

text \<open>
  \<open>first_bytes_match_buf\<close> under a timeout.  What \<open>fill_buf\<close> gives when it is polled comes with the
  milliseconds that have passed since the start; a timeout looks at the time only when what it waits
  for is pending, and the loop goes on without waiting as long as \<open>fill_buf\<close> returns bytes.  An empty
  buffer, the end of the stream, is not told apart.  The timeout of a single \<open>fill_buf\<close> is twice as
  long and starts later, so it ends nothing that the one around the loop does not.
\<close>

datatype fill_poll = FillPending nat | Filled nat bytes | FillErr

datatype match_result = Waiting nat "fill_poll list" | Matched "bool outcome" | StillRunning

fun first_bytes_match_buf :: "nat \<Rightarrow> nat \<Rightarrow> (bytes \<Rightarrow> bool) \<Rightarrow> fill_poll list \<Rightarrow> match_result" where
  "first_bytes_match_buf duration len matcher [] = StillRunning"
| "first_bytes_match_buf duration len matcher (FillErr # es) = Matched (Err IoError)"
| "first_bytes_match_buf duration len matcher (FillPending t # es) = Waiting t es"
| "first_bytes_match_buf duration len matcher (Filled t bs # es) =
     (if len \<le> length bs then Matched (Ok (matcher (take len bs)))
      else if duration \<le> t then Matched (Err (LessThanBytes len))
      else first_bytes_match_buf duration len matcher es)"

lemma match_buf_waits: "first_bytes_match_buf d len m es = Waiting t es' \<Longrightarrow> length es' < length es"
  by (induction d len m es rule: first_bytes_match_buf.induct) (auto split: if_splits)

function first_bytes_match_buf_timeout :: "nat \<Rightarrow> (bytes \<Rightarrow> bool) \<Rightarrow> fill_poll list \<Rightarrow> bool outcome option" where
  "first_bytes_match_buf_timeout len matcher es =
     (case first_bytes_match_buf 20000 len matcher es of
        Matched r \<Rightarrow> Some r
      | Waiting t es' \<Rightarrow> if 10000 \<le> t then Some (Err TimedOut) else first_bytes_match_buf_timeout len matcher es'
      | StillRunning \<Rightarrow> None)"
  by pat_completeness auto
termination
  by (relation "measure (\<lambda>(len, m, es). length es)") (auto dest: match_buf_waits)

declare first_bytes_match_buf_timeout.simps [simp del]

section \<open>The preamble of a stream\<close>

text \<open>What a reader has left to read.\<close>

fun remaining :: "StanzaRead \<Rightarrow> nat" where
  "remaining (AsyncRead rd) = length rd"
| "remaining (WebSocketRead rd) = length rd"

lemma ws_loop_consumes:
  "ws_loop rd f w = (Ok (Some x), rd', f', w') \<Longrightarrow> length rd' < length rd"
proof (induction rd f w rule: ws_loop.induct)
  case (3 m rd f w)
  then show ?case
    by (auto simp: Let_def less_SucI split: ws_message.splits if_splits StanzaWrite.splits prod.splits outcome.splits)
qed auto

lemma StanzaRead_next_consumes:
  "StanzaRead_next r f w = (Ok (Some x), r', f', w') \<Longrightarrow> remaining r' < remaining r"
  by (cases r) (auto dest: reader_next_eoft_consumes ws_loop_consumes split: prod.splits)

text \<open>
  \<open>while let Ok(Some(..))\<close> leaves the loop on an error as on the end of the stream.
\<close>

function preamble_loop ::
    "bytes \<Rightarrow> StanzaRead \<Rightarrow> StanzaWrite \<Rightarrow> StanzaFilter
      \<Rightarrow> (bytes \<times> bool) outcome \<times> StanzaRead \<times> StanzaWrite \<times> StanzaFilter"
where
  "preamble_loop stream_open in_rd in_wr in_filter =
     (case StanzaRead_next in_rd in_filter in_wr of
        (Ok (Some (bs, e)), in_rd, in_filter, in_wr) \<Rightarrow>
          (if prefix ''<?xml '' bs
           then preamble_loop (stream_open @ bs) in_rd in_wr in_filter
           else if prefix ''<stream:stream '' bs
           then (Ok (stream_open @ bs,
                     contains_seq bs '' xmlns=\"jabber:client\"''
                     \<or> contains_seq bs ('' xmlns='jabber:client'' @ [CHR 0x27])),
                 in_rd, in_wr, in_filter)
           else (Err (BadPreStreamStanza bs), in_rd, in_wr, in_filter))
      | (Ok None, in_rd, in_filter, in_wr) \<Rightarrow> (Err StreamEndedBeforeOpen, in_rd, in_wr, in_filter)
      | (Err e, in_rd, in_filter, in_wr) \<Rightarrow> (Err StreamEndedBeforeOpen, in_rd, in_wr, in_filter)
      | (Panic, in_rd, in_filter, in_wr) \<Rightarrow> (Panic, in_rd, in_wr, in_filter))"
  by pat_completeness auto
termination
  by (relation "measure (\<lambda>(s, r, w, f). remaining r)")
    (auto dest: StanzaRead_next_consumes [OF sym])

declare preamble_loop.simps [simp del]

definition stream_preamble ::
    "StanzaRead \<Rightarrow> StanzaWrite \<Rightarrow> StanzaFilter
      \<Rightarrow> (bytes \<times> bool) outcome \<times> StanzaRead \<times> StanzaWrite \<times> StanzaFilter"
where
  "stream_preamble in_rd in_wr in_filter = preamble_loop [] in_rd in_wr in_filter"

section \<open>What the operations do\<close>

lemma buf_peek_stuck:
  assumes "bs \<noteq> []" and "length bs < len"
  shows "buf_peek_bytes len (replicate k (Peeked bs False) @ Peeked bs True # es) = Some (Err (LessThanBytes len))"
    and "buf_peek_bytes len (replicate k (Peeked bs False)) = None"
  using assms by (induction k) auto

lemma first_bytes_stuck:
  assumes "length bs < len"
  shows "first_bytes_match_buf_timeout len m (map (\<lambda>t. Filled t bs) ts)
    = (if \<exists>t\<in>set ts. 20000 \<le> t then Some (Err (LessThanBytes len)) else None)"
proof -
  have "first_bytes_match_buf 20000 len m (map (\<lambda>t. Filled t bs) ts)
      = (if \<exists>t\<in>set ts. 20000 \<le> t then Matched (Err (LessThanBytes len)) else StillRunning)"
    using assms by (induction ts) auto
  then show ?thesis by (subst first_bytes_match_buf_timeout.simps) simp
qed

lemma first_bytes_waits: "10000 \<le> t \<Longrightarrow> first_bytes_match_buf_timeout len m (FillPending t # es) = Some (Err TimedOut)"
  by (subst first_bytes_match_buf_timeout.simps) simp

lemma buf_peek_Ok:
  "buf_peek_bytes len es = Some (Ok p) \<Longrightarrow>
     \<exists>bs late. Peeked bs late \<in> set es \<and> p = take len bs \<and> length p = len"
proof (induction es)
  case (Cons e es)
  show ?case
  proof (cases e)
    case (Peeked bs late)
    show ?thesis
    proof (cases "len \<le> length bs")
      case True
      with Cons.prems Peeked show ?thesis by auto
    next
      case False
      with Cons.prems Peeked have "buf_peek_bytes len es = Some (Ok p)" by (simp split: if_splits)
      with Cons.IH show ?thesis by auto
    qed
  qed (use Cons.prems in simp)
qed simp

text \<open>The declarations in front of a header, then the first other item.\<close>

lemma preamble_step_decl:
  assumes "idle n e f" and "ok_item (XmlDecl d)" and "length (show_item (XmlDecl d)) \<le> n" and "CHR ''<'' \<notin> set ws"
  shows "\<exists>f'. idle n 0 f' \<and> preamble_loop acc0 (AsyncRead (map RByte (ws @ show_item (XmlDecl d) @ rest))) w f
      = preamble_loop (acc0 @ show_item (XmlDecl d)) (AsyncRead (map RByte rest)) w f'"
proof -
  from next_eoft_item_any [OF assms, of rest] obtain f' k where f': "idle n 0 f'"
    and rd: "reader_next_eoft (map RByte (ws @ show_item (XmlDecl d) @ rest)) f
      = (Ok (Some (show_item (XmlDecl d), k)), map RByte rest, f')" by blast
  have "prefix ''<?xml '' (show_item (XmlDecl d))" by simp
  with rd have "preamble_loop acc0 (AsyncRead (map RByte (ws @ show_item (XmlDecl d) @ rest))) w f
      = preamble_loop (acc0 @ show_item (XmlDecl d)) (AsyncRead (map RByte rest)) w f'"
    by (subst preamble_loop.simps) (simp del: show_item.simps map_append)
  with f' show ?thesis by blast
qed

fun is_header :: "item \<Rightarrow> bool" where
  "is_header (Header t) = True"
| "is_header (XmlDecl d) = False"
| "is_header (Stanza x) = False"
| "is_header StreamEnd = False"

fun is_decl :: "item \<Rightarrow> bool" where
  "is_decl (XmlDecl d) = True"
| "is_decl (Header t) = False"
| "is_decl (Stanza x) = False"
| "is_decl StreamEnd = False"

definition declares_client :: "bytes \<Rightarrow> bool" where
  "declares_client s \<longleftrightarrow> sublist '' xmlns=\"jabber:client\"'' s \<or> sublist ('' xmlns='jabber:client'' @ [CHR 0x27]) s"

lemma not_decl_item: "ok_item x \<Longrightarrow> \<not> is_decl x \<Longrightarrow> \<not> prefix ''<?xml '' (show_item x)"
proof (cases x)
  case (Stanza y)
  then show "ok_item x \<Longrightarrow> ?thesis"
    by (cases y) (auto simp: show_tag_def ok_open_tag_def ok_tag_def stanza_node_def)
next
  case (Header t)
  then show "ok_item x \<Longrightarrow> ?thesis"
    by (auto simp: show_tag_def ok_open_tag_def ok_tag_def)
qed simp_all

lemma header_item: "ok_item x \<Longrightarrow> prefix ''<stream:stream '' (show_item x) \<longleftrightarrow> is_header x"
  by (cases x) (auto simp: stanza_node_def stream_stream_def)

lemma preamble_end:
  assumes f: "idle n e f" and x: "ok_item x" "\<not> is_decl x" and "length (show_item x) \<le> n" and "CHR ''<'' \<notin> set ws"
  shows "\<exists>f'. idle n 0 f' \<and> preamble_loop acc0 (AsyncRead (map RByte (ws @ show_item x @ rest))) w f
      = (if is_header x then Ok (acc0 @ show_item x, declares_client (show_item x))
         else Err (BadPreStreamStanza (show_item x)), AsyncRead (map RByte rest), w, f')"
proof -
  from next_eoft_item_any [OF f x(1) assms(4,5), of rest] obtain f' k where f': "idle n 0 f'"
    and rd: "reader_next_eoft (map RByte (ws @ show_item x @ rest)) f
      = (Ok (Some (show_item x, k)), map RByte rest, f')" by blast
  with not_decl_item [OF x] header_item [OF x(1)]
  have "preamble_loop acc0 (AsyncRead (map RByte (ws @ show_item x @ rest))) w f
      = (if is_header x then Ok (acc0 @ show_item x, declares_client (show_item x))
         else Err (BadPreStreamStanza (show_item x)), AsyncRead (map RByte rest), w, f')"
    by (subst preamble_loop.simps)
      (simp del: show_item.simps map_append add: slice_simps declares_client_def)
  with f' show ?thesis by blast
qed

lemma preamble_items:
  assumes "idle n e f" and x: "ok_item x" "\<not> is_decl x" "length (show_item x) \<le> n" and "CHR ''<'' \<notin> set ws"
    and "\<forall>(ws, d)\<in>set ds. CHR ''<'' \<notin> set ws \<and> ok_item (XmlDecl d) \<and> length (show_item (XmlDecl d)) \<le> n"
  shows "\<exists>f'. idle n 0 f' \<and>
      preamble_loop acc0 (AsyncRead (map RByte (show_stream (map (apsnd XmlDecl) ds) @ ws @ show_item x @ rest))) w f
      = (if is_header x
         then Ok (acc0 @ concat (map (show_item \<circ> XmlDecl \<circ> snd) ds) @ show_item x, declares_client (show_item x))
         else Err (BadPreStreamStanza (show_item x)), AsyncRead (map RByte rest), w, f')"
  using assms(1,6)
proof (induction ds arbitrary: e f acc0)
  case Nil
  from preamble_end [OF Nil.prems(1) x(1,2,3) assms(5), of acc0 rest w] show ?case
    by (simp add: show_stream_def del: show_item.simps map_append cong: if_cong split del: if_split)
next
  case (Cons p ds)
  obtain ws' d where p: "p = (ws', d)" by (cases p)
  from Cons.prems(2) p have h: "ok_item (XmlDecl d)" "length (show_item (XmlDecl d)) \<le> n" "CHR ''<'' \<notin> set ws'"
    and t: "\<forall>(ws, d)\<in>set ds. CHR ''<'' \<notin> set ws \<and> ok_item (XmlDecl d) \<and> length (show_item (XmlDecl d)) \<le> n"
    by auto
  from preamble_step_decl [OF Cons.prems(1) h, of acc0 "show_stream (map (apsnd XmlDecl) ds) @ ws @ show_item x @ rest" w]
  obtain f1 where f1: "idle n 0 f1" and step: "preamble_loop acc0 (AsyncRead (map RByte (show_stream (map (apsnd XmlDecl) (p # ds)) @ ws @ show_item x @ rest))) w f
      = preamble_loop (acc0 @ show_item (XmlDecl d)) (AsyncRead (map RByte (show_stream (map (apsnd XmlDecl) ds) @ ws @ show_item x @ rest))) w f1"
    by (auto simp: p show_stream_def)
  from Cons.IH [OF f1 t, of "acc0 @ show_item (XmlDecl d)"] show ?case
    unfolding step by (simp add: p cong: if_cong split del: if_split)
qed

section \<open>Properties\<close>

text \<open>The preamble of a stream is its XML declarations and its header, unaltered, with
  the kind of stream its header declares, and what follows is left for the next read; a
  stream whose first other item is not a header is refused, naming that item.\<close>

theorem preamble_reads_to_header:
  assumes "idle n 0 f" and "ok_item x" and "\<not> is_decl x" and "length (show_item x) \<le> n"
    and "CHR ''<'' \<notin> set ws"
    and "\<forall>(ws, d)\<in>set ds. CHR ''<'' \<notin> set ws \<and> ok_item (XmlDecl d) \<and> length (show_item (XmlDecl d)) \<le> n"
  shows "\<exists>f'. idle n 0 f' \<and>
      stream_preamble (AsyncRead (map RByte (show_stream (map (apsnd XmlDecl) ds) @ ws @ show_item x @ rest))) w f
      = (if is_header x
         then Ok (concat (map (show_item \<circ> XmlDecl \<circ> snd) ds) @ show_item x, declares_client (show_item x))
         else Err (BadPreStreamStanza (show_item x)), AsyncRead (map RByte rest), w, f')"
  using preamble_items [OF assms, of "[]" rest w] by (simp only: stream_preamble_def append_Nil)

lemma preamble_reads_to_header_witness:
  "\<exists>f'. idle 40 0 f' \<and>
      stream_preamble (AsyncRead (map RByte (show_stream (map (apsnd XmlDecl) [('' '', ''v?'')]) @ '' '' @ show_item (Header (CHR ''s'', map Plain ''tream:stream b'')) @ ''<a''))) (AsyncWrite \<lparr>sent = [], faults = []\<rparr>) (StanzaFilter_new 40)
      = (if is_header (Header (CHR ''s'', map Plain ''tream:stream b''))
         then Ok (concat (map (show_item \<circ> XmlDecl \<circ> snd) [('' '', ''v?'')]) @ show_item (Header (CHR ''s'', map Plain ''tream:stream b'')), declares_client (show_item (Header (CHR ''s'', map Plain ''tream:stream b''))))
         else Err (BadPreStreamStanza (show_item (Header (CHR ''s'', map Plain ''tream:stream b'')))), AsyncRead (map RByte ''<a''), (AsyncWrite \<lparr>sent = [], faults = []\<rparr>), f')"
  by (rule preamble_reads_to_header [OF idle_new]; code_simp)

text \<open>C39: when the first read of a buffered stream delivers fewer bytes than are to be peeked,
  peeking never succeeds: \<open>fill_buf\<close> returns the bytes already buffered while nothing is
  consumed, so the loop sees the same bytes until its time is over, and fails.  After a handshake it
  does so without ever waiting, so the timeout of ten seconds around it, which ends a peer that sends
  nothing, has no effect, and the task spins until the twenty seconds that should never elapse.\<close>

theorem buffered_peek_of_short_read_fails:
  assumes "0 < length bs" and "length bs < len"
  shows "buf_peek_bytes len (replicate k (Peeked bs False) @ Peeked bs True # es) = Some (Err (LessThanBytes len))
    \<and> buf_peek_bytes len (replicate k (Peeked bs False)) = None
    \<and> first_bytes_match_buf_timeout len m (map (\<lambda>t. Filled t bs) ts)
        = (if \<exists>t\<in>set ts. 20000 \<le> t then Some (Err (LessThanBytes len)) else None)
    \<and> first_bytes_match_buf_timeout len m (FillPending 10000 # fs) = Some (Err TimedOut)"
proof -
  have "bs \<noteq> []" using assms(1) by simp
  from buf_peek_stuck [OF this assms(2)] first_bytes_stuck [OF assms(2)] first_bytes_waits [of 10000] show ?thesis by simp
qed

lemma buffered_peek_of_short_read_fails_witness:
  "buf_peek_bytes 3 (replicate 9 (Peeked [CHR 0x16] False) @ Peeked [CHR 0x16] True # []) = Some (Err (LessThanBytes 3))
    \<and> first_bytes_match_buf_timeout 3 (\<lambda>p. p = ''GET'') (map (\<lambda>t. Filled t [CHR 0x16]) [1, 10000, 15000, 19999]) = None"
  using buffered_peek_of_short_read_fails [of "[CHR 0x16]" 3 9 "[]" "\<lambda>p. p = ''GET''" "[1, 10000, 15000, 19999]" "[]"] by simp

end
