(* ===== verification/Shuffle.thy ===== *)
theory Shuffle
  imports Stream_Common
begin

text \<open>
  Model of \<open>shuffle_rd_wr_filter_only\<close> of \<open>src/common/mod.rs\<close>: the loop that relays stanzas
  in both directions between the two ends of a connection, until one of them ends.

  The loop waits for the two readers at once.  A reader that is not ready keeps what it has
  read so far in its filter, also when the other one is served first and its future is
  dropped; so the model interleaves the two sides event by event: one byte or error of a
  byte stream, or one message of a WebSocket, at a time, in any order.
\<close>

section \<open>One event of a reader\<close>

datatype poll = NotReady | Ready "(bytes \<times> nat) option outcome"

fun poll_next ::
    "StanzaRead \<Rightarrow> StanzaFilter \<Rightarrow> StanzaWrite \<Rightarrow> poll \<times> StanzaRead \<times> StanzaFilter \<times> StanzaWrite"
where
  "poll_next (AsyncRead []) f wrt =
     (case current_buf f of
        Ok w \<Rightarrow> (Ready (Ok None), AsyncRead [], f, wrt)
      | Err e \<Rightarrow> (Ready (Err e), AsyncRead [], f, wrt)
      | Panic \<Rightarrow> (Ready Panic, AsyncRead [], f, wrt))"
| "poll_next (AsyncRead (RErr # rd)) f wrt =
     (case current_buf f of
        Ok w \<Rightarrow> (Ready (Err IoError), AsyncRead rd, f, wrt)
      | Err e \<Rightarrow> (Ready (Err e), AsyncRead (RErr # rd), f, wrt)
      | Panic \<Rightarrow> (Ready Panic, AsyncRead (RErr # rd), f, wrt))"
| "poll_next (AsyncRead (RByte b # rd)) f wrt =
     (case feed f b of
        (Ok None, f) \<Rightarrow> (NotReady, AsyncRead rd, f, wrt)
      | (Ok (Some idx), f) \<Rightarrow>
          (Ready (Ok (Some (take idx (buf f), end_of_first_tag f))), AsyncRead rd,
           f\<lparr>end_of_first_tag := 0\<rparr>, wrt)
      | (Err e, f) \<Rightarrow> (Ready (Err e), AsyncRead rd, f, wrt)
      | (Panic, f) \<Rightarrow> (Ready Panic, AsyncRead rd, f, wrt))"
| "poll_next (WebSocketRead (WsMsg (WsPing p) # rd)) f (WebSocketClientWrite s) =
     (case sink_feed (WsPong p) s of
        (Ok u, s) \<Rightarrow>
          (case sink_flush s of
             (Ok u, s) \<Rightarrow> (NotReady, WebSocketRead rd, f, WebSocketClientWrite s)
           | (Err e, s) \<Rightarrow> (Ready (Err e), WebSocketRead rd, f, WebSocketClientWrite s)
           | (Panic, s) \<Rightarrow> (Ready Panic, WebSocketRead rd, f, WebSocketClientWrite s))
      | (Err e, s) \<Rightarrow> (Ready (Err e), WebSocketRead rd, f, WebSocketClientWrite s)
      | (Panic, s) \<Rightarrow> (Ready Panic, WebSocketRead rd, f, WebSocketClientWrite s))"
| "poll_next (WebSocketRead rd) f wrt =
     (case StanzaRead_next (WebSocketRead rd) f wrt of (r, rd, f, wrt) \<Rightarrow> (Ready r, rd, f, wrt))"

section \<open>The loop\<close>

text \<open>
  \<open>off\<close> flags: a branch whose \<open>next\<close> failed is disabled until the loop starts over.  The loop
  starts over when a stanza has been relayed; it ends on the end of a stream, when both
  branches are disabled, on an error of a writer (which \<open>?\<close> returns), and on a panic.
\<close>

record shuffle =
  in_rd :: StanzaRead
  in_wr :: StanzaWrite
  out_rd :: StanzaRead
  out_wr :: StanzaWrite
  in_filter :: StanzaFilter
  out_filter :: StanzaFilter
  in_off :: bool
  out_off :: bool
  finished :: "unit outcome option"

definition shuffle_start ::
    "StanzaRead \<Rightarrow> StanzaWrite \<Rightarrow> StanzaRead \<Rightarrow> StanzaWrite \<Rightarrow> nat \<Rightarrow> StanzaFilter \<Rightarrow> shuffle"
where
  "shuffle_start ird iwr ord owr max_stanza_size_bytes ifilter =
     \<lparr>in_rd = ird, in_wr = iwr, out_rd = ord, out_wr = owr, in_filter = ifilter,
      out_filter = StanzaFilter_new max_stanza_size_bytes,
      in_off = False, out_off = False, finished = None\<rparr>"

definition write_and_flush ::
    "bool \<Rightarrow> bool \<Rightarrow> bytes \<Rightarrow> nat \<Rightarrow> StanzaWrite \<Rightarrow> unit outcome \<times> StanzaWrite"
where
  "write_and_flush tracing is_c2s bs e w =
     (case StanzaWrite_write_all tracing is_c2s bs e w of
        (Ok u, w) \<Rightarrow> StanzaWrite_flush w
      | (r, w) \<Rightarrow> (r, w))"

definition in_branch :: "bool \<Rightarrow> bool \<Rightarrow> shuffle \<Rightarrow> shuffle" where
  "in_branch tracing is_c2s s =
     (case poll_next (in_rd s) (in_filter s) (in_wr s) of (p, rd, f, w) \<Rightarrow>
        let s = s\<lparr>in_rd := rd, in_filter := f, in_wr := w\<rparr> in
        case p of
          NotReady \<Rightarrow> s
        | Ready (Ok None) \<Rightarrow> s\<lparr>finished := Some (Ok ())\<rparr>
        | Ready (Ok (Some (bs, e))) \<Rightarrow>
            (case write_and_flush tracing is_c2s bs e (out_wr s) of
               (Ok u, w) \<Rightarrow> s\<lparr>out_wr := w, in_off := False, out_off := False\<rparr>
             | (r, w) \<Rightarrow> s\<lparr>out_wr := w, finished := Some r\<rparr>)
        | Ready (Err e) \<Rightarrow>
            if out_off s then s\<lparr>in_off := True, finished := Some (Ok ())\<rparr> else s\<lparr>in_off := True\<rparr>
        | Ready Panic \<Rightarrow> s\<lparr>finished := Some Panic\<rparr>)"

definition out_branch :: "bool \<Rightarrow> bool \<Rightarrow> shuffle \<Rightarrow> shuffle" where
  "out_branch tracing is_c2s s =
     (case poll_next (out_rd s) (out_filter s) (out_wr s) of (p, rd, f, w) \<Rightarrow>
        let s = s\<lparr>out_rd := rd, out_filter := f, out_wr := w\<rparr> in
        case p of
          NotReady \<Rightarrow> s
        | Ready (Ok None) \<Rightarrow> s\<lparr>finished := Some (Ok ())\<rparr>
        | Ready (Ok (Some (bs, e))) \<Rightarrow>
            (case write_and_flush tracing is_c2s bs e (in_wr s) of
               (Ok u, w) \<Rightarrow> s\<lparr>in_wr := w, in_off := False, out_off := False\<rparr>
             | (r, w) \<Rightarrow> s\<lparr>in_wr := w, finished := Some r\<rparr>)
        | Ready (Err e) \<Rightarrow>
            if in_off s then s\<lparr>out_off := True, finished := Some (Ok ())\<rparr> else s\<lparr>out_off := True\<rparr>
        | Ready Panic \<Rightarrow> s\<lparr>finished := Some Panic\<rparr>)"

inductive shuffle_step :: "bool \<Rightarrow> bool \<Rightarrow> shuffle \<Rightarrow> shuffle \<Rightarrow> bool"
  for tracing is_c2s :: bool
where
  In: "finished s = None \<Longrightarrow> \<not> in_off s \<Longrightarrow> shuffle_step tracing is_c2s s (in_branch tracing is_c2s s)"
| Out: "finished s = None \<Longrightarrow> \<not> out_off s \<Longrightarrow> shuffle_step tracing is_c2s s (out_branch tracing is_c2s s)"

inductive_cases shuffle_stepE: "shuffle_step tracing is_c2s s s'"

inductive_simps shuffle_step_simps: "shuffle_step tracing is_c2s s s'"

abbreviation shuffle_run :: "bool \<Rightarrow> bool \<Rightarrow> shuffle \<Rightarrow> shuffle \<Rightarrow> bool" where
  "shuffle_run tracing is_c2s \<equiv> (shuffle_step tracing is_c2s)\<^sup>*\<^sup>*"

section \<open>Polling until ready is \<open>next\<close>\<close>

text \<open>Reading event by event, to the first result, is the reader's \<open>next\<close>.\<close>

fun poll_until :: "nat \<Rightarrow> StanzaRead \<Rightarrow> StanzaFilter \<Rightarrow> StanzaWrite
    \<Rightarrow> ((bytes \<times> nat) option outcome \<times> StanzaRead \<times> StanzaFilter \<times> StanzaWrite) option" where
  "poll_until 0 rd f w = None"
| "poll_until (Suc k) rd f w =
     (case poll_next rd f w of
        (NotReady, rd, f, w) \<Rightarrow> poll_until k rd f w
      | (Ready r, rd, f, w) \<Rightarrow> Some (r, rd, f, w))"

lemma poll_until_bytes:
  "length rd < k \<Longrightarrow> poll_until k (AsyncRead rd) f w = Some (StanzaRead_next (AsyncRead rd) f w)"
proof (induction rd arbitrary: k f)
  case Nil
  then show ?case by (cases k) (auto simp: reader_next_eoft_def split: outcome.splits)
next
  case (Cons e rd)
  then obtain k' where k: "k = Suc k'" "length rd < k'" by (cases k) auto
  show ?case
  proof (cases e)
    case (RByte b)
    obtain r f1 where "feed f b = (r, f1)" by (cases "feed f b")
    with Cons.IH [OF k(2), of f1] RByte k(1) show ?thesis
      by (auto simp: reader_next_eoft_def Let_def split: outcome.splits option.splits)
  qed (simp add: k reader_next_eoft_def split: outcome.splits)
qed

lemma poll_next_other:
  assumes "\<not> (\<exists>q rest s. es = WsMsg (WsPing q) # rest \<and> w = WebSocketClientWrite s)"
  shows "poll_next (WebSocketRead es) f w
      = (case StanzaRead_next (WebSocketRead es) f w of (r, rd, f, w) \<Rightarrow> (Ready r, rd, f, w))"
proof (cases es)
  case (Cons e rest)
  show ?thesis
  proof (cases e)
    case (WsMsg m)
    with Cons assms show ?thesis by (cases m; cases w) (auto split: prod.splits)
  qed (simp add: Cons)
qed simp

lemma poll_until_messages:
  "length rd < k \<Longrightarrow> poll_until k (WebSocketRead rd) f w = Some (StanzaRead_next (WebSocketRead rd) f w)"
proof (induction rd arbitrary: k w)
  case Nil
  then show ?case by (cases k) auto
next
  case (Cons e rd)
  then obtain k' where k: "k = Suc k'" "length rd < k'" by (cases k) auto
  show ?case
  proof (cases "\<exists>p s. e = WsMsg (WsPing p) \<and> w = WebSocketClientWrite s")
    case True
    then obtain p s where e: "e = WsMsg (WsPing p)" and w: "w = WebSocketClientWrite s" by blast
    from Cons.IH [OF k(2)] show ?thesis
      by (simp add: k e w split: prod.splits outcome.splits)
  next
    case False
    then have "poll_next (WebSocketRead (e # rd)) f w
        = (case StanzaRead_next (WebSocketRead (e # rd)) f w of (r, rd, f, w) \<Rightarrow> (Ready r, rd, f, w))"
      by (intro poll_next_other) auto
    then show ?thesis by (simp add: k split: prod.splits)
  qed
qed

section \<open>What has been relayed\<close>

text \<open>
  What a byte stream delivers: the stanzas its bytes are cut into, errors passed over, as the
  loop does when it takes up a disabled branch again.
\<close>

fun cut :: "StanzaFilter \<Rightarrow> reader \<Rightarrow> (bytes \<times> nat) list" where
  "cut f [] = []"
| "cut f (RErr # rd) = cut f rd"
| "cut f (RByte b # rd) =
     (case feed f b of
        (Ok (Some idx), f') \<Rightarrow>
          (take idx (buf f'), end_of_first_tag f') # cut (f'\<lparr>end_of_first_tag := 0\<rparr>) rd
      | (Ok None, f') \<Rightarrow> cut f' rd
      | (Err e, f') \<Rightarrow> cut f' rd
      | (Panic, f') \<Rightarrow> [])"

definition relayed :: "(bytes \<times> nat) list \<Rightarrow> wr_event list" where
  "relayed xs = concat (map (\<lambda>(bs, e). [Wrote bs, Flushed]) xs)"

text \<open>
  The ends are byte streams, the writers have no fault: what is still to come from a side,
  together with what has been written to the other, is what that side delivers.
\<close>

definition byte_stream :: "StanzaRead \<Rightarrow> bool" where
  "byte_stream r \<longleftrightarrow> (\<exists>rd. r = AsyncRead rd)"

fun to_come :: "StanzaFilter \<Rightarrow> StanzaRead \<Rightarrow> (bytes \<times> nat) list" where
  "to_come f (AsyncRead rd) = cut f rd"
| "to_come f (WebSocketRead rd) = []"

definition relays :: "wr_event list \<Rightarrow> (bytes \<times> nat) list \<Rightarrow> StanzaFilter \<Rightarrow> StanzaRead \<Rightarrow> StanzaWrite \<Rightarrow> bool" where
  "relays before all f rd w \<longleftrightarrow> byte_stream rd \<and>
     (\<exists>s done_part. w = AsyncWrite s \<and> faults s = [] \<and> sent s = before @ relayed done_part
        \<and> all = done_part @ to_come f rd)"

lemma poll_cut:
  assumes "poll_next (AsyncRead rd) f w = (p, rd', f', w')"
  shows "w' = w \<and> byte_stream rd' \<and>
    (case p of
       NotReady \<Rightarrow> cut f rd = to_come f' rd'
     | Ready (Ok (Some x)) \<Rightarrow> cut f rd = x # to_come f' rd'
     | Ready (Ok None) \<Rightarrow> cut f rd = to_come f' rd' \<and> rd = []
     | Ready (Err e) \<Rightarrow> cut f rd = to_come f' rd'
     | Ready Panic \<Rightarrow> True)"
proof (cases rd)
  case Nil
  with assms show ?thesis by (auto simp: byte_stream_def split: outcome.splits)
next
  case (Cons e rest)
  show ?thesis
  proof (cases e)
    case (RByte b)
    with Cons assms show ?thesis
      by (auto simp: byte_stream_def split: outcome.splits option.splits prod.splits)
  next
    case RErr
    with Cons assms show ?thesis by (auto simp: byte_stream_def split: outcome.splits)
  qed
qed

lemma write_and_flush_ok:
  "faults s = [] \<Longrightarrow> write_and_flush tr c bs e (AsyncWrite s) = (Ok (), AsyncWrite (log_event [Wrote bs, Flushed] s))"
  by (simp add: write_and_flush_def sink_ok)

text \<open>The invariant of a run between byte streams.\<close>

definition relay_inv ::
    "wr_event list \<Rightarrow> (bytes \<times> nat) list \<Rightarrow> wr_event list \<Rightarrow> (bytes \<times> nat) list \<Rightarrow> shuffle \<Rightarrow> bool"
where
  "relay_inv out_before in_all in_before out_all s \<longleftrightarrow>
     finished s = Some Panic \<or>
     (relays out_before in_all (in_filter s) (in_rd s) (out_wr s) \<and>
      relays in_before out_all (out_filter s) (out_rd s) (in_wr s))"

lemma relays_same:
  "relays b all f rd w \<Longrightarrow> to_come f' rd' = to_come f rd \<Longrightarrow> byte_stream rd' \<Longrightarrow> relays b all f' rd' w"
  by (auto simp: relays_def)

lemma relays_more:
  assumes "relays b all f rd w" and "to_come f rd = (bs, e) # to_come f' rd'" and "byte_stream rd'"
  shows "\<exists>w'. write_and_flush tr c bs e w = (Ok (), w') \<and> relays b all f' rd' w'"
proof -
  from assms(1) obtain s d where w: "w = AsyncWrite s" "faults s = []" "sent s = b @ relayed d"
    and all: "all = d @ to_come f rd" by (auto simp: relays_def)
  have "sent (log_event [Wrote bs, Flushed] s) = b @ relayed (d @ [(bs, e)])"
    by (simp add: w relayed_def)
  with w all assms(2,3) show ?thesis
    by (auto simp: write_and_flush_ok relays_def intro!: exI [of _ "d @ [(bs, e)]"])
qed

lemma relay_inv_in:
  assumes "relay_inv ob ia ib oa s" and fin: "finished s = None"
  shows "relay_inv ob ia ib oa (in_branch tr c s)"
proof -
  from assms have i: "relays ob ia (in_filter s) (in_rd s) (out_wr s)"
    and o: "relays ib oa (out_filter s) (out_rd s) (in_wr s)" by (simp_all add: relay_inv_def)
  from i obtain rd where rd: "in_rd s = AsyncRead rd" by (auto simp: relays_def byte_stream_def)
  obtain p rd' f' w' where p: "poll_next (AsyncRead rd) (in_filter s) (in_wr s) = (p, rd', f', w')"
    by (cases "poll_next (AsyncRead rd) (in_filter s) (in_wr s)") auto
  note c = poll_cut [OF p]
  show ?thesis
  proof (cases "\<exists>bs e. p = Ready (Ok (Some (bs, e)))")
    case True
    then obtain bs e where pe: "p = Ready (Ok (Some (bs, e)))" by blast
    from relays_more [OF i, of bs e f' rd' tr c] c pe rd obtain w2
      where "write_and_flush tr c bs e (out_wr s) = (Ok (), w2)" "relays ob ia f' rd' w2" by auto
    with c pe p rd o show ?thesis by (simp add: in_branch_def relay_inv_def Let_def)
  next
    case False
    show ?thesis
    proof (cases "p = Ready Panic")
      case True
      with p rd show ?thesis by (simp add: in_branch_def relay_inv_def Let_def)
    next
      case False
      with \<open>\<not> (\<exists>bs e. p = Ready (Ok (Some (bs, e))))\<close> have "relays ob ia f' rd' (out_wr s)"
        using relays_same [OF i, of f' rd'] c rd by (auto split: poll.splits outcome.splits option.splits)
      with False \<open>\<not> (\<exists>bs e. p = Ready (Ok (Some (bs, e))))\<close> c p rd o show ?thesis
        by (auto simp: in_branch_def relay_inv_def Let_def split: poll.splits outcome.splits option.splits)
    qed
  qed
qed

text \<open>The two branches are the same code with the sides exchanged.\<close>

definition swap_sides :: "shuffle \<Rightarrow> shuffle" where
  "swap_sides s =
     \<lparr>in_rd = out_rd s, in_wr = out_wr s, out_rd = in_rd s, out_wr = in_wr s,
      in_filter = out_filter s, out_filter = in_filter s,
      in_off = out_off s, out_off = in_off s, finished = finished s\<rparr>"

lemma out_branch_swap: "out_branch tr c s = swap_sides (in_branch tr c (swap_sides s))"
  by (auto simp: out_branch_def in_branch_def swap_sides_def Let_def
      split: poll.splits outcome.splits option.splits prod.splits)

lemma relay_inv_swap: "relay_inv ib oa ob ia (swap_sides s) = relay_inv ob ia ib oa s"
  by (auto simp: relay_inv_def swap_sides_def)

lemma finished_swap [simp]: "finished (swap_sides s) = finished s"
  by (simp add: swap_sides_def)

lemma relay_inv_out:
  "relay_inv ob ia ib oa s \<Longrightarrow> finished s = None \<Longrightarrow> relay_inv ob ia ib oa (out_branch tr c s)"
  using relay_inv_in [of ib oa ob ia "swap_sides s" tr c]
  by (simp add: out_branch_swap relay_inv_swap)

lemma relay_inv_run:
  "shuffle_run tr c s s' \<Longrightarrow> relay_inv ob ia ib oa s \<Longrightarrow> relay_inv ob ia ib oa s'"
  by (induction rule: rtranclp_induct)
    (auto elim!: shuffle_stepE intro: relay_inv_in relay_inv_out)

section \<open>Well-formed streams\<close>

lemma cut_next_loop:
  "next_loop rd f = (Ok (Some idx), rd', f') \<Longrightarrow>
     cut f rd = (take idx (buf f'), end_of_first_tag f') # cut (f'\<lparr>end_of_first_tag := 0\<rparr>) rd'"
proof (induction rd arbitrary: f)
  case (Cons e rd)
  then show ?case
    by (cases e) (auto split: outcome.splits option.splits prod.splits)
qed (auto split: outcome.splits)

lemma cut_next:
  "reader_next_eoft rd f = (Ok (Some x), rd', f') \<Longrightarrow> cut f rd = x # cut f' rd'"
  by (auto simp: reader_next_eoft_def Let_def dest!: cut_next_loop
      split: prod.splits outcome.splits option.splits)

lemma cut_none: "next_loop rd f = (Ok None, rd', f') \<Longrightarrow> cut f rd = []"
proof (induction rd arbitrary: f)
  case (Cons e rd)
  then show ?case by (cases e) (auto split: outcome.splits option.splits prod.splits)
qed simp

text \<open>A stream on which reading raises no error.\<close>

fun clean :: "StanzaFilter \<Rightarrow> reader \<Rightarrow> bool" where
  "clean f [] = is_ok (current_buf f)"
| "clean f (RErr # rd) = False"
| "clean f (RByte b # rd) =
     (case feed f b of
        (Ok (Some idx), f') \<Rightarrow> clean (f'\<lparr>end_of_first_tag := 0\<rparr>) rd
      | (Ok None, f') \<Rightarrow> clean f' rd
      | (Err e, f') \<Rightarrow> False
      | (Panic, f') \<Rightarrow> False)"

lemma clean_next_loop:
  "next_loop rd f = (Ok (Some idx), rd', f') \<Longrightarrow>
     clean f rd = clean (f'\<lparr>end_of_first_tag := 0\<rparr>) rd'"
proof (induction rd arbitrary: f)
  case (Cons e rd)
  then show ?case by (cases e) (auto split: outcome.splits option.splits prod.splits)
qed (auto split: outcome.splits)

lemma clean_next:
  "reader_next_eoft rd f = (Ok (Some x), rd', f') \<Longrightarrow> clean f rd = clean f' rd'"
  by (auto simp: reader_next_eoft_def Let_def dest!: clean_next_loop
      split: prod.splits outcome.splits option.splits)

lemma clean_none: "next_loop rd f = (Ok None, rd', f') \<Longrightarrow> clean f rd"
proof (induction rd arbitrary: f)
  case (Cons e rd)
  then show ?case by (cases e) (auto split: outcome.splits option.splits prod.splits)
qed (auto split: outcome.splits)

definition fits :: "nat \<Rightarrow> (bytes \<times> item) list \<Rightarrow> bool" where
  "fits n xs \<longleftrightarrow> (\<forall>(ws, x)\<in>set xs. CHR ''<'' \<notin> set ws \<and> ok_item x \<and> length (show_item x) \<le> n)"

definition delivered :: "(bytes \<times> item) list \<Rightarrow> (bytes \<times> nat) list" where
  "delivered xs = map (\<lambda>(ws, x). (show_item x, item_eoft x)) xs"

lemma cut_stream:
  assumes "idle n 0 f" and "fits n xs" and "CHR ''<'' \<notin> set tail"
  shows "cut f (map RByte (show_stream xs @ tail)) = delivered xs
    \<and> clean f (map RByte (show_stream xs @ tail))"
  using assms
proof (induction xs arbitrary: f)
  case Nil
  from next_junk [OF Nil.prems(1,3)] have "fst (next_loop (map RByte tail) f) = Ok None"
    by (auto simp: reader_next_def split: prod.splits outcome.splits option.splits)
  then obtain rd' f' where "next_loop (map RByte tail) f = (Ok None, rd', f')"
    by (metis prod.collapse)
  from cut_none [OF this] clean_none [OF this] show ?case
    by (simp add: show_stream_def delivered_def)
next
  case (Cons p xs)
  obtain ws x where p: "p = (ws, x)" by (cases p)
  have h: "ok_item x" "length (show_item x) \<le> n" "CHR ''<'' \<notin> set ws" and t: "fits n xs"
    using Cons.prems(2) by (auto simp: fits_def p)
  from next_eoft_item [OF Cons.prems(1) h, of "show_stream xs @ tail"]
  obtain f' where f': "idle n 0 f'" and nx: "reader_next_eoft (map RByte (ws @ show_item x @ show_stream xs @ tail)) f
      = (Ok (Some (show_item x, item_eoft x)), map RByte (show_stream xs @ tail), f')" by blast
  from cut_next [OF nx] clean_next [OF nx] Cons.IH [OF f' t Cons.prems(3)] show ?case
    by (simp add: p show_stream_def delivered_def)
qed

text \<open>On such streams no branch fails and nothing panics.\<close>

fun clean_read :: "StanzaFilter \<Rightarrow> StanzaRead \<Rightarrow> bool" where
  "clean_read f (AsyncRead rd) = clean f rd"
| "clean_read f (WebSocketRead rd) = False"

lemma poll_clean:
  assumes "poll_next (AsyncRead rd) f w = (p, rd', f', w')" and "clean f rd"
  shows "clean_read f' rd' \<and> (\<forall>r. p = Ready r \<longrightarrow> is_ok r)"
proof (cases rd)
  case Nil
  with assms show ?thesis by (auto split: outcome.splits)
next
  case (Cons e rest)
  with assms show ?thesis
    by (cases e) (auto split: outcome.splits option.splits prod.splits)
qed

definition clean_run :: "shuffle \<Rightarrow> bool" where
  "clean_run s \<longleftrightarrow> finished s \<in> {None, Some (Ok ())} \<and> \<not> in_off s \<and> \<not> out_off s
     \<and> clean_read (in_filter s) (in_rd s) \<and> clean_read (out_filter s) (out_rd s)
     \<and> (\<exists>w. out_wr s = AsyncWrite w \<and> faults w = []) \<and> (\<exists>w. in_wr s = AsyncWrite w \<and> faults w = [])"

lemma clean_run_in:
  assumes "clean_run s"
  shows "clean_run (in_branch tr c s)"
proof -
  from assms obtain rd wo wi where rd: "in_rd s = AsyncRead rd" "clean (in_filter s) rd"
    and w: "out_wr s = AsyncWrite wo" "faults wo = []" "in_wr s = AsyncWrite wi" "faults wi = []"
    by (cases "in_rd s") (auto simp: clean_run_def)
  obtain p rd' f' w' where p: "poll_next (AsyncRead rd) (in_filter s) (in_wr s) = (p, rd', f', w')"
    by (cases "poll_next (AsyncRead rd) (in_filter s) (in_wr s)") auto
  from poll_clean [OF p rd(2)] poll_cut [OF p] p rd(1) w assms show ?thesis
    by (auto simp: in_branch_def clean_run_def Let_def write_and_flush_ok
        split: poll.splits outcome.splits option.splits)
qed

lemma clean_run_swap: "clean_run (swap_sides s) = clean_run s"
  by (auto simp: clean_run_def swap_sides_def)

lemma clean_run_out: "clean_run s \<Longrightarrow> clean_run (out_branch tr c s)"
  using clean_run_in [of "swap_sides s" tr c] by (simp add: out_branch_swap clean_run_swap)

lemma clean_run_run: "shuffle_run tr c s s' \<Longrightarrow> clean_run s \<Longrightarrow> clean_run s'"
  by (induction rule: rtranclp_induct) (auto elim!: shuffle_stepE intro: clean_run_in clean_run_out)

section \<open>Termination\<close>

text \<open>
  What termination needs of a source: an event that is delivered or taken in is consumed, and
  nothing comes back.
\<close>

locale consuming_source =
  fixes poll :: "'s \<Rightarrow> 'f \<Rightarrow> 'w \<Rightarrow> poll \<times> 's \<times> 'f \<times> 'w"
    and size_of :: "'s \<Rightarrow> nat"
  assumes poll_consumes:
      "poll s f w = (p, s', f', w') \<Longrightarrow> p = NotReady \<or> (\<exists>x. p = Ready (Ok (Some x))) \<Longrightarrow> size_of s' < size_of s"
    and poll_no_growth: "poll s f w = (p, s', f', w') \<Longrightarrow> size_of s' \<le> size_of s"
begin

text \<open>Two flags set again cost less than the event that was consumed.\<close>

lemma event_pays_for_flags:
  assumes "poll s f w = (p, s', f', w')" and "p = NotReady \<or> (\<exists>x. p = Ready (Ok (Some x)))" and "flags \<le> (2::nat)"
  shows "3 * size_of s' + flags < 3 * size_of s"
  using poll_consumes [OF assms(1,2)] assms(3) by simp

lemma weight_no_growth: "poll s f w = (p, s', f', w') \<Longrightarrow> 3 * size_of s' \<le> 3 * size_of s"
  using poll_no_growth by simp

end

lemma ws_loop_no_growth: "ws_loop rd f w = (r, rd', f', w') \<Longrightarrow> length rd' \<le> length rd"
proof (induction rd f w rule: ws_loop.induct)
  case (3 m rd f w)
  then show ?case
    by (auto simp: Let_def le_SucI split: ws_message.splits if_splits StanzaWrite.splits prod.splits outcome.splits)
qed auto

lemma poll_next_sizes:
  assumes "poll_next rd f w = (p, rd', f', w')"
  shows "remaining rd' \<le> remaining rd
    \<and> (p = NotReady \<or> (\<exists>x. p = Ready (Ok (Some x))) \<longrightarrow> remaining rd' < remaining rd)"
proof (cases rd)
  case (AsyncRead es)
  show ?thesis
  proof (cases es)
    case (Cons e rest)
    with AsyncRead assms show ?thesis
      by (cases e) (auto split: outcome.splits option.splits prod.splits)
  qed (use AsyncRead assms in \<open>auto split: outcome.splits\<close>)
next
  case (WebSocketRead es)
  show ?thesis
  proof (cases "\<exists>q rest s. es = WsMsg (WsPing q) # rest \<and> w = WebSocketClientWrite s")
    case True
    with WebSocketRead assms show ?thesis by (auto split: outcome.splits prod.splits)
  next
    case False
    then have "poll_next rd f w = (case StanzaRead_next rd f w of (r, rd, f, w) \<Rightarrow> (Ready r, rd, f, w))"
      unfolding WebSocketRead by (rule poll_next_other)
    with assms WebSocketRead StanzaRead_next_consumes [of rd f w] show ?thesis
      by (auto dest: ws_loop_no_growth split: prod.splits)
  qed
qed

interpretation source: consuming_source poll_next remaining
  by unfold_locales (use poll_next_sizes in blast)+

definition shuffle_measure :: "shuffle \<Rightarrow> nat" where
  "shuffle_measure s = 3 * remaining (in_rd s) + 3 * remaining (out_rd s)
     + of_bool (\<not> in_off s) + of_bool (\<not> out_off s) + of_bool (finished s = None)"

lemma measure_in:
  assumes "finished s = None" and "\<not> in_off s"
  shows "shuffle_measure (in_branch tr c s) < shuffle_measure s"
proof -
  obtain p rd' f' w' where p: "poll_next (in_rd s) (in_filter s) (in_wr s) = (p, rd', f', w')"
    by (cases "poll_next (in_rd s) (in_filter s) (in_wr s)") auto
  have more: "3 * remaining rd' + 2 < 3 * remaining (in_rd s)" if "p = NotReady \<or> (\<exists>x. p = Ready (Ok (Some x)))"
    by (rule source.event_pays_for_flags [OF p that]) simp
  note same = source.weight_no_growth [OF p]
  show ?thesis
  proof (cases p)
    case NotReady
    with more p assms show ?thesis by (simp add: in_branch_def shuffle_measure_def)
  next
    case (Ready r)
    show ?thesis
    proof (cases "\<exists>bs e. r = Ok (Some (bs, e))")
      case True
      then obtain bs e where r: "r = Ok (Some (bs, e))" by blast
      with more Ready have "3 * remaining rd' + 2 < 3 * remaining (in_rd s)" by blast
      with p assms Ready r show ?thesis
        by (auto simp: in_branch_def shuffle_measure_def Let_def split: prod.splits outcome.splits)
    next
      case False
      with p assms Ready same show ?thesis
        by (auto simp: in_branch_def shuffle_measure_def Let_def split: outcome.splits option.splits)
    qed
  qed
qed

lemma measure_swap: "shuffle_measure (swap_sides s) = shuffle_measure s"
  by (simp add: shuffle_measure_def swap_sides_def)

lemma measure_out:
  "finished s = None \<Longrightarrow> \<not> out_off s \<Longrightarrow> shuffle_measure (out_branch tr c s) < shuffle_measure s"
  using measure_in [of "swap_sides s" tr c]
  by (simp add: out_branch_swap measure_swap) (simp add: swap_sides_def)

lemma measure_step: "shuffle_step tr c s s' \<Longrightarrow> shuffle_measure s' < shuffle_measure s"
  by (auto elim!: shuffle_stepE intro: measure_in measure_out)

text \<open>While the loop runs, one branch is enabled.\<close>

definition enabled :: "shuffle \<Rightarrow> bool" where
  "enabled s \<longleftrightarrow> finished s = None \<longrightarrow> \<not> in_off s \<or> \<not> out_off s"

lemma enabled_in: "finished s = None \<Longrightarrow> \<not> in_off s \<Longrightarrow> enabled (in_branch tr c s)"
  by (auto simp: in_branch_def enabled_def Let_def split: poll.splits outcome.splits option.splits prod.splits)

lemma enabled_out: "finished s = None \<Longrightarrow> \<not> out_off s \<Longrightarrow> enabled (out_branch tr c s)"
  by (auto simp: out_branch_def enabled_def Let_def split: poll.splits outcome.splits option.splits prod.splits)

lemma enabled_run: "shuffle_run tr c s s' \<Longrightarrow> enabled s \<Longrightarrow> enabled s'"
  by (induction rule: rtranclp_induct) (auto elim!: shuffle_stepE intro: enabled_in enabled_out)

lemma steps_bound: "(shuffle_step tr c ^^ k) s s' \<Longrightarrow> k + shuffle_measure s' \<le> shuffle_measure s"
proof (induction k arbitrary: s')
  case (Suc k)
  then obtain t where "(shuffle_step tr c ^^ k) s t" and "shuffle_step tr c t s'" by auto
  from Suc.IH [OF this(1)] measure_step [OF this(2)] show ?case by simp
qed simp

section \<open>Runs of one side\<close>

lemma run_in_error:
  assumes "next_loop rd (in_filter s) = (Err e, rd', f')" and "in_rd s = AsyncRead rd"
    and "finished s = None" and "\<not> in_off s" and "\<not> out_off s"
  shows "shuffle_run tr c s (s\<lparr>in_rd := AsyncRead rd', in_filter := f', in_off := True\<rparr>)"
  using assms
proof (induction rd arbitrary: s)
  case Nil
  then have "in_branch tr c s = s\<lparr>in_rd := AsyncRead rd', in_filter := f', in_off := True\<rparr>"
    by (auto simp: in_branch_def Let_def split: outcome.splits)
  with In [OF Nil.prems(3,4), of tr c] show ?case by auto
next
  case (Cons ev rd)
  show ?case
  proof (cases "\<exists>b f1. ev = RByte b \<and> feed (in_filter s) b = (Ok None, f1)")
    case True
    then obtain b f1 where b: "ev = RByte b" "feed (in_filter s) b = (Ok None, f1)" by blast
    let ?s = "s\<lparr>in_rd := AsyncRead rd, in_filter := f1\<rparr>"
    have "in_branch tr c s = ?s" using b Cons.prems by (simp add: in_branch_def)
    with In [OF Cons.prems(3,4), of tr c] have "shuffle_step tr c s ?s" by simp
    moreover have "shuffle_run tr c ?s (?s\<lparr>in_rd := AsyncRead rd', in_filter := f', in_off := True\<rparr>)"
      by (rule Cons.IH) (use b Cons.prems in simp_all)
    ultimately show ?thesis by (simp add: converse_rtranclp_into_rtranclp)
  next
    case False
    with Cons.prems have "in_branch tr c s = s\<lparr>in_rd := AsyncRead rd', in_filter := f', in_off := True\<rparr>"
      by (cases ev) (auto simp: in_branch_def Let_def split: outcome.splits option.splits prod.splits)
    with In [OF Cons.prems(3,4), of tr c] show ?thesis by auto
  qed
qed

lemma run_out_stanza:
  assumes "reader_next_eoft rd (out_filter s) = (Ok (Some (bs, e)), rd', f')" and "out_rd s = AsyncRead rd"
    and "write_and_flush tr c bs e (in_wr s) = (Ok (), w')" and "finished s = None" and "\<not> out_off s"
  shows "shuffle_run tr c s (s\<lparr>out_rd := AsyncRead rd', out_filter := f', in_wr := w', in_off := False, out_off := False\<rparr>)"
  using assms
proof (induction rd arbitrary: s)
  case Nil
  then show ?case by (auto simp: reader_next_eoft_def split: outcome.splits)
next
  case (Cons ev rd)
  show ?case
  proof (cases "\<exists>b f1. ev = RByte b \<and> feed (out_filter s) b = (Ok None, f1)")
    case True
    then obtain b f1 where b: "ev = RByte b" "feed (out_filter s) b = (Ok None, f1)" by blast
    let ?s = "s\<lparr>out_rd := AsyncRead rd, out_filter := f1\<rparr>"
    have "out_branch tr c s = ?s" using b Cons.prems by (simp add: out_branch_def)
    with Out [OF Cons.prems(4,5), of tr c] have "shuffle_step tr c s ?s" by simp
    moreover have "shuffle_run tr c ?s (?s\<lparr>out_rd := AsyncRead rd', out_filter := f', in_wr := w', in_off := False, out_off := False\<rparr>)"
      by (rule Cons.IH) (use b Cons.prems in \<open>simp_all add: reader_next_eoft_def\<close>)
    ultimately show ?thesis by (simp add: converse_rtranclp_into_rtranclp)
  next
    case False
    with Cons.prems have "out_branch tr c s
        = s\<lparr>out_rd := AsyncRead rd', out_filter := f', in_wr := w', in_off := False, out_off := False\<rparr>"
      by (cases ev) (auto simp: out_branch_def reader_next_eoft_def Let_def
          split: outcome.splits option.splits prod.splits)
    with Out [OF Cons.prems(4,5), of tr c] show ?thesis by auto
  qed
qed

text \<open>What the loop is when a stanza of the first side has been read and written.\<close>

definition in_written :: "reader \<Rightarrow> StanzaFilter \<Rightarrow> unit outcome \<times> StanzaWrite \<Rightarrow> shuffle \<Rightarrow> shuffle" where
  "in_written rd f res s =
     (case res of
        (Ok u, w) \<Rightarrow> s\<lparr>in_rd := AsyncRead rd, in_filter := f, out_wr := w, in_off := False, out_off := False\<rparr>
      | (r, w) \<Rightarrow> s\<lparr>in_rd := AsyncRead rd, in_filter := f, out_wr := w, finished := Some r\<rparr>)"

lemma in_written_again [simp]: "in_written rd f res (s\<lparr>in_rd := r, in_filter := g\<rparr>) = in_written rd f res s"
  by (simp add: in_written_def split: outcome.split prod.split)

lemma run_in_stanza:
  assumes "reader_next_eoft rd (in_filter s) = (Ok (Some (bs, e)), rd', f')" and "in_rd s = AsyncRead rd"
    and "finished s = None" and "\<not> in_off s"
  shows "shuffle_run tr c s (in_written rd' f' (write_and_flush tr c bs e (out_wr s)) s)"
  using assms
proof (induction rd arbitrary: s)
  case Nil
  then show ?case by (auto simp: reader_next_eoft_def split: outcome.splits)
next
  case (Cons ev rd)
  show ?case
  proof (cases "\<exists>b f1. ev = RByte b \<and> feed (in_filter s) b = (Ok None, f1)")
    case True
    then obtain b f1 where b: "ev = RByte b" "feed (in_filter s) b = (Ok None, f1)" by blast
    let ?s = "s\<lparr>in_rd := AsyncRead rd, in_filter := f1\<rparr>"
    have "in_branch tr c s = ?s" using b Cons.prems by (simp add: in_branch_def)
    with In [OF Cons.prems(3,4), of tr c] have "shuffle_step tr c s ?s" by simp
    moreover have "shuffle_run tr c ?s (in_written rd' f' (write_and_flush tr c bs e (out_wr ?s)) ?s)"
      by (rule Cons.IH) (use b Cons.prems in \<open>simp_all add: reader_next_eoft_def\<close>)
    ultimately show ?thesis by (simp add: converse_rtranclp_into_rtranclp)
  next
    case False
    with Cons.prems have "in_branch tr c s = in_written rd' f' (write_and_flush tr c bs e (out_wr s)) s"
      by (cases ev) (auto simp: in_branch_def in_written_def reader_next_eoft_def Let_def
          split: outcome.splits option.splits prod.splits)
    with In [OF Cons.prems(3,4), of tr c] show ?thesis by auto
  qed
qed

lemma overrun_in_panics:
  assumes "cnt (in_filter s) = length (buf (in_filter s))" and "in_rd s = AsyncRead rd"
  shows "finished (in_branch tr c s) = Some Panic"
proof -
  from assms(1) have "current_buf (in_filter s) = Panic" "feed (in_filter s) b = (Panic, in_filter s)" for b
    by (simp_all add: current_buf_def feed_def)
  with assms(2) show ?thesis
    by (cases rd; (cases "hd rd")?) (simp_all add: in_branch_def)
qed

lemma relayed_prefix_length: "length (delivered xs) = length xs"
  by (simp add: delivered_def)

lemma relays_prefix:
  assumes "relays b all f rd w"
  shows "\<exists>i w'. w = AsyncWrite w' \<and> sent w' = b @ relayed (take i all)
    \<and> (rd = AsyncRead [] \<longrightarrow> i = length all)"
proof -
  from assms obtain s d where "w = AsyncWrite s" "sent s = b @ relayed d" "all = d @ to_come f rd"
    by (auto simp: relays_def)
  moreover then have "rd = AsyncRead [] \<longrightarrow> length d = length all" by auto
  ultimately show ?thesis by (intro exI [of _ "length d"] exI [of _ s]) simp
qed

text \<open>A run under a given schedule: which branch is ready at each step.\<close>

fun shuffle_exec :: "bool \<Rightarrow> bool \<Rightarrow> bool list \<Rightarrow> shuffle \<Rightarrow> shuffle option" where
  "shuffle_exec tracing is_c2s [] s = Some s"
| "shuffle_exec tracing is_c2s (i # is) s =
     (if finished s \<noteq> None \<or> (if i then in_off s else out_off s) then None
      else shuffle_exec tracing is_c2s is
             (if i then in_branch tracing is_c2s s else out_branch tracing is_c2s s))"

lemma exec_run: "shuffle_exec tr c is s = Some s' \<Longrightarrow> shuffle_run tr c s s'"
proof (induction "is" arbitrary: s)
  case (Cons i "is")
  then have "shuffle_step tr c s (if i then in_branch tr c s else out_branch tr c s)"
    by (cases i) (auto simp: shuffle_step_simps split: if_splits)
  with Cons show ?case by (auto split: if_splits intro: converse_rtranclp_into_rtranclp)
qed simp

lemma map_option_the: "map_option g x = Some y \<Longrightarrow> x = Some (the x) \<and> g (the x) = y"
  by (cases x) simp_all

abbreviation no_sink :: sink where
  "no_sink \<equiv> \<lparr>sent = [], faults = []\<rparr>"

abbreviation bytes_in :: "bytes \<Rightarrow> StanzaRead" where
  "bytes_in bs \<equiv> AsyncRead (map RByte bs)"

section \<open>Interleavings of what the sides deliver\<close>

text \<open>
  What each event of a byte stream brings about, by itself: nothing yet, a stanza, or an error.
\<close>

datatype fate = Silent | Item bytes nat | Failed

fun fates :: "StanzaFilter \<Rightarrow> reader \<Rightarrow> fate list" where
  "fates f [] = []"
| "fates f (RErr # rd) = Failed # fates f rd"
| "fates f (RByte b # rd) =
     (case feed f b of
        (Ok (Some idx), f') \<Rightarrow> Item (take idx (buf f')) (end_of_first_tag f') # fates (f'\<lparr>end_of_first_tag := 0\<rparr>) rd
      | (Ok None, f') \<Rightarrow> Silent # fates f' rd
      | (Err e, f') \<Rightarrow> Failed # fates f' rd
      | (Panic, f') \<Rightarrow> [])"

fun fates_left :: "StanzaFilter \<Rightarrow> StanzaRead \<Rightarrow> fate list" where
  "fates_left f (AsyncRead rd) = fates f rd"
| "fates_left f (WebSocketRead rd) = []"

fun item_of_fate :: "fate \<Rightarrow> (bytes \<times> nat) list" where
  "item_of_fate Silent = []"
| "item_of_fate (Item bs e) = [(bs, e)]"
| "item_of_fate Failed = []"

definition items_of :: "fate list \<Rightarrow> (bytes \<times> nat) list" where
  "items_of xs = concat (map item_of_fate xs)"

lemma items_of_simps [simp]: "items_of [] = []" "items_of (xs @ ys) = items_of xs @ items_of ys" "items_of [x] = item_of_fate x"
  by (simp_all add: items_of_def)

lemma cut_fates: "cut f rd = items_of (fates f rd)"
  by (induction f rd rule: fates.induct) (auto simp: items_of_def split: prod.splits outcome.splits option.splits)

text \<open>
  A run as a sequence of events of the two sides, \<^const>\<open>True\<close> for the client's; a side is off when
  it has failed and no stanza of either side has come since.
\<close>

definition events_of :: "bool \<Rightarrow> (bool \<times> fate) list \<Rightarrow> fate list" where
  "events_of side tr = map snd (filter (\<lambda>p. fst p = side) tr)"

definition off_after :: "bool \<Rightarrow> (bool \<times> fate) list \<Rightarrow> bool" where
  "off_after side tr \<longleftrightarrow> (\<exists>u v. tr = u @ (side, Failed) # v \<and> (\<forall>c bs e. (c, Item bs e) \<notin> set v))"

definition waits_while_off :: "(bool \<times> fate) list \<Rightarrow> bool" where
  "waits_while_off tr \<longleftrightarrow> (\<forall>u side x v. tr = u @ (side, x) # v \<longrightarrow> \<not> off_after side u)"

lemma events_of_simps [simp]:
  "events_of side [] = []" "events_of side (tr @ [(c, x)]) = events_of side tr @ (if c = side then [x] else [])"
  by (auto simp: events_of_def)

lemma off_after_Nil [simp]: "\<not> off_after side []"
  by (simp add: off_after_def)

lemma off_after_snoc [simp]:
  "off_after side (tr @ [(c, Silent)]) \<longleftrightarrow> off_after side tr"
  "off_after side (tr @ [(c, Failed)]) \<longleftrightarrow> off_after side tr \<or> c = side"
  "\<not> off_after side (tr @ [(c, Item bs e)])"
proof -
  have split: "off_after side (tr @ [p]) \<longleftrightarrow>
      p = (side, Failed) \<or> (\<forall>c bs e. p \<noteq> (c, Item bs e)) \<and> off_after side tr" for p
  proof
    assume "off_after side (tr @ [p])"
    then obtain u v where uv: "tr @ [p] = u @ (side, Failed) # v" "\<forall>c bs e. (c, Item bs e) \<notin> set v"
      by (auto simp: off_after_def)
    show "p = (side, Failed) \<or> (\<forall>c bs e. p \<noteq> (c, Item bs e)) \<and> off_after side tr"
    proof (cases v rule: rev_cases)
      case (snoc v' q)
      with uv have "tr = u @ (side, Failed) # v'" "p = q" by auto
      moreover have "p \<noteq> (d, Item bs e)" for d bs e using uv(2) unfolding snoc \<open>p = q\<close> by force
      moreover have "\<forall>d bs e. (d, Item bs e) \<notin> set v'" using uv(2) snoc by simp
      ultimately show ?thesis unfolding off_after_def by blast
    qed (use uv in auto)
  next
    assume "p = (side, Failed) \<or> (\<forall>c bs e. p \<noteq> (c, Item bs e)) \<and> off_after side tr"
    then show "off_after side (tr @ [p])"
    proof
      assume "p = (side, Failed)"
      then show ?thesis unfolding off_after_def by force
    next
      assume *: "(\<forall>c bs e. p \<noteq> (c, Item bs e)) \<and> off_after side tr"
      then obtain u v where "tr = u @ (side, Failed) # v" "\<forall>c bs e. (c, Item bs e) \<notin> set v"
        by (auto simp: off_after_def)
      with * show ?thesis unfolding off_after_def by (intro exI [of _ u] exI [of _ "v @ [p]"]) auto
    qed
  qed
  show "off_after side (tr @ [(c, Silent)]) \<longleftrightarrow> off_after side tr"
    "off_after side (tr @ [(c, Failed)]) \<longleftrightarrow> off_after side tr \<or> c = side"
    "\<not> off_after side (tr @ [(c, Item bs e)])"
    by (auto simp: split)
qed

lemma waits_simps [simp]:
  "waits_while_off []" "waits_while_off (tr @ [(c, x)]) \<longleftrightarrow> waits_while_off tr \<and> \<not> off_after c tr"
proof -
  show "waits_while_off []" by (simp add: waits_while_off_def)
  show "waits_while_off (tr @ [(c, x)]) \<longleftrightarrow> waits_while_off tr \<and> \<not> off_after c tr"
  proof
    assume w: "waits_while_off (tr @ [(c, x)])"
    have "\<not> off_after s u" if "tr = u @ (s, y) # v" for u s y v
      using w that unfolding waits_while_off_def by (metis append_assoc append_Cons)
    moreover have "\<not> off_after c tr" using w unfolding waits_while_off_def by blast
    ultimately show "waits_while_off tr \<and> \<not> off_after c tr" unfolding waits_while_off_def by blast
  next
    assume w: "waits_while_off tr \<and> \<not> off_after c tr"
    have "\<not> off_after s u" if "tr @ [(c, x)] = u @ (s, y) # v" for u s y v
    proof (cases v rule: rev_cases)
      case (snoc v' q)
      with that have "tr = u @ (s, y) # v'" by simp
      with w show ?thesis unfolding waits_while_off_def by blast
    qed (use w that in auto)
    then show "waits_while_off (tr @ [(c, x)])" unfolding waits_while_off_def by blast
  qed
qed

lemma poll_fate:
  assumes "poll_next (AsyncRead rd) f w = (p, rd', f', w')"
  shows "w' = w \<and> byte_stream rd' \<and>
    (case p of
       NotReady \<Rightarrow> fates f rd = Silent # fates_left f' rd'
     | Ready (Ok (Some (bs, e))) \<Rightarrow> fates f rd = Item bs e # fates_left f' rd'
     | Ready (Ok None) \<Rightarrow> rd = [] \<and> rd' = AsyncRead [] \<and> f' = f
     | Ready (Err e) \<Rightarrow> fates f rd = Failed # fates_left f' rd'
     | Ready Panic \<Rightarrow> True)"
proof -
  have c: "current_buf f \<noteq> Err e" for e by (simp add: current_buf_def)
  show ?thesis
  proof (cases rd)
    case Nil
    with assms c show ?thesis by (auto simp: byte_stream_def split: outcome.splits)
  next
    case (Cons e rest)
    with assms c show ?thesis
      by (cases e) (auto simp: byte_stream_def split: outcome.splits option.splits prod.splits)
  qed
qed

text \<open>The events of a run, what they have written, and which sides are off after them.\<close>

definition explains ::
    "wr_event list \<Rightarrow> fate list \<Rightarrow> wr_event list \<Rightarrow> fate list \<Rightarrow> (bool \<times> fate) list \<Rightarrow> shuffle \<Rightarrow> bool"
where
  "explains out_before in_all in_before out_all tr s \<longleftrightarrow>
     byte_stream (in_rd s) \<and> byte_stream (out_rd s)
     \<and> in_all = events_of True tr @ fates_left (in_filter s) (in_rd s)
     \<and> out_all = events_of False tr @ fates_left (out_filter s) (out_rd s)
     \<and> (\<exists>k. out_wr s = AsyncWrite k \<and> faults k = [] \<and> sent k = out_before @ relayed (items_of (events_of True tr)))
     \<and> (\<exists>k. in_wr s = AsyncWrite k \<and> faults k = [] \<and> sent k = in_before @ relayed (items_of (events_of False tr)))
     \<and> (in_off s \<longleftrightarrow> off_after True tr) \<and> (out_off s \<longleftrightarrow> off_after False tr) \<and> waits_while_off tr
     \<and> (case finished s of
           None \<Rightarrow> \<not> (off_after True tr \<and> off_after False tr)
         | Some r \<Rightarrow> r = Ok () \<and> (off_after True tr \<and> off_after False tr \<or> in_rd s = AsyncRead [] \<or> out_rd s = AsyncRead []))"

lemma relayed_snoc: "relayed (xs @ [(bs, e)]) = relayed xs @ [Wrote bs, Flushed]"
  by (simp add: relayed_def)

lemma explains_in:
  assumes "explains ob ia ib oa tr s" and fin: "finished s = None" and off: "\<not> in_off s"
  shows "finished (in_branch tracing c s) = Some Panic \<or> (\<exists>tr'. explains ob ia ib oa tr' (in_branch tracing c s))"
proof -
  from assms(1) obtain rd k where rd: "in_rd s = AsyncRead rd" and k: "out_wr s = AsyncWrite k" "faults k = []"
    by (auto simp: explains_def byte_stream_def)
  obtain p rd' f' w' where p: "poll_next (AsyncRead rd) (in_filter s) (in_wr s) = (p, rd', f', w')"
    by (metis prod.exhaust)
  note f = poll_fate [OF p]
  note ex = assms(1) [unfolded explains_def rd fates_left.simps fin option.case] off
  note br = in_branch_def rd p Let_def prod.case poll.case
  have w': "w' = w" if "w = in_wr s" for w using f that by simp
  consider (silent) "p = NotReady" | (eof) "p = Ready (Ok None)" | (item) bs e where "p = Ready (Ok (Some (bs, e)))"
    | (fail) e where "p = Ready (Err e)" | (panic) "p = Ready Panic"
    by (metis poll.exhaust outcome.exhaust option.exhaust prod.exhaust)
  then show ?thesis
  proof cases
    case silent
    with ex f have "explains ob ia ib oa (tr @ [(True, Silent)]) (in_branch tracing c s)"
      by (simp add: br explains_def fin)
    then show ?thesis by blast
  next
    case eof
    then have "in_branch tracing c s = s\<lparr>in_rd := rd', in_filter := f', in_wr := w', finished := Some (Ok ())\<rparr>" by (simp add: br)
    with eof ex f have "explains ob ia ib oa tr (in_branch tracing c s)" by (simp add: explains_def)
    then show ?thesis by blast
  next
    case (item bs e)
    with ex f k have "explains ob ia ib oa (tr @ [(True, Item bs e)]) (in_branch tracing c s)"
      by (simp add: br explains_def write_and_flush_ok relayed_snoc fin)
    then show ?thesis by blast
  next
    case (fail e)
    with ex f have "explains ob ia ib oa (tr @ [(True, Failed)]) (in_branch tracing c s)"
      by (simp add: br explains_def fin)
    then show ?thesis by blast
  qed (simp add: br)
qed

text \<open>The same for the other side, with the sides of the events exchanged.\<close>

definition swap_events :: "(bool \<times> fate) list \<Rightarrow> (bool \<times> fate) list" where
  "swap_events tr = map (\<lambda>(side, x). (\<not> side, x)) tr"

lemma swap_events_swap [simp]: "swap_events (swap_events tr) = tr"
  by (induction tr) (auto simp: swap_events_def)

lemma events_of_swap [simp]: "events_of side (swap_events tr) = events_of (\<not> side) tr"
  by (induction tr) (auto simp: swap_events_def events_of_def)

lemma swap_events_snoc [simp]: "swap_events [] = []" "swap_events (tr @ [(c, x)]) = swap_events tr @ [(\<not> c, x)]"
  by (simp_all add: swap_events_def)

lemma off_after_swap [simp]: "off_after side (swap_events tr) \<longleftrightarrow> off_after (\<not> side) tr"
proof (induction tr rule: rev_induct)
  case (snoc p tr)
  obtain c x where "p = (c, x)" by (cases p)
  with snoc show ?case by (cases x) auto
qed simp

lemma waits_swap [simp]: "waits_while_off (swap_events tr) \<longleftrightarrow> waits_while_off tr"
proof (induction tr rule: rev_induct)
  case (snoc p tr)
  then show ?case by (cases p) auto
qed simp

lemma explains_swap: "explains ib oa ob ia (swap_events tr) (swap_sides s) = explains ob ia ib oa tr s"
  by (auto simp: explains_def swap_sides_def split: option.splits)

lemma explains_out:
  assumes "explains ob ia ib oa tr s" and "finished s = None" and "\<not> out_off s"
  shows "finished (out_branch tracing c s) = Some Panic \<or> (\<exists>tr'. explains ob ia ib oa tr' (out_branch tracing c s))"
proof -
  have "explains ib oa ob ia (swap_events tr) (swap_sides s)" using assms(1) by (simp add: explains_swap)
  moreover have "finished (swap_sides s) = None" "\<not> in_off (swap_sides s)" using assms(2,3) by (simp_all add: swap_sides_def)
  ultimately have "finished (in_branch tracing c (swap_sides s)) = Some Panic \<or> (\<exists>tr'. explains ib oa ob ia tr' (in_branch tracing c (swap_sides s)))"
    by (rule explains_in)
  then show ?thesis
    using explains_swap [of ob ia ib oa _ "in_branch tracing c (swap_sides s)"] by (auto simp: out_branch_swap)
qed

lemma explains_run:
  assumes "shuffle_run tracing c s0 s" and "explains ob ia ib oa [] s0"
  shows "finished s = Some Panic \<or> (\<exists>tr. explains ob ia ib oa tr s)"
  using assms(1)
proof (induction rule: rtranclp_induct)
  case (step s s')
  from step.hyps(2) have "finished s = None" by (auto elim: shuffle_stepE)
  with step.IH obtain tr where "explains ob ia ib oa tr s" by auto
  from explains_in [OF this] explains_out [OF this] step.hyps(2) show ?case by (auto elim!: shuffle_stepE)
qed (use assms(2) in blast)

section \<open>Properties\<close>

text \<open>C2: between two byte streams of well-formed items, in whatever order the bytes of the
  two sides arrive, the loop has at any moment written to each end a prefix of the other
  end's items, each unaltered, in order and flushed; once an end has been read up, all of its
  items have been written; and the loop neither fails nor panics.\<close>

theorem shuffle_relays_stanzas:
  assumes "idle n 0 ifilter" and "0 < m" and "fits n xs" and "fits m ys"
    and "CHR ''<'' \<notin> set xtail" and "CHR ''<'' \<notin> set ytail" and "faults iw = []" and "faults ow = []"
    and "shuffle_run tracing is_c2s
      (shuffle_start (AsyncRead (map RByte (show_stream xs @ xtail))) (AsyncWrite iw)
        (AsyncRead (map RByte (show_stream ys @ ytail))) (AsyncWrite ow) m ifilter) s"
  shows "\<exists>i j iw' ow'. out_wr s = AsyncWrite ow' \<and> in_wr s = AsyncWrite iw'
      \<and> sent ow' = sent ow @ relayed (take i (delivered xs)) \<and> sent iw' = sent iw @ relayed (take j (delivered ys))
      \<and> (in_rd s = AsyncRead [] \<longrightarrow> i = length xs) \<and> (out_rd s = AsyncRead [] \<longrightarrow> j = length ys)
      \<and> finished s \<in> {None, Some (Ok ())}"
proof -
  let ?s0 = "shuffle_start (AsyncRead (map RByte (show_stream xs @ xtail))) (AsyncWrite iw)
        (AsyncRead (map RByte (show_stream ys @ ytail))) (AsyncWrite ow) m ifilter"
  note x = cut_stream [OF assms(1,3,5)] and y = cut_stream [OF idle_new [OF assms(2)] assms(4,6)]
  have "relay_inv (sent ow) (delivered xs) (sent iw) (delivered ys) ?s0"
    using x y assms(7,8) by (auto simp: relay_inv_def relays_def byte_stream_def shuffle_start_def relayed_def)
  from relay_inv_run [OF assms(9) this] have r: "relay_inv (sent ow) (delivered xs) (sent iw) (delivered ys) s" .
  have "clean_run ?s0" using x y assms(7,8) by (simp add: clean_run_def shuffle_start_def)
  from clean_run_run [OF assms(9) this] have c: "clean_run s" .
  with r have ro: "relays (sent ow) (delivered xs) (in_filter s) (in_rd s) (out_wr s)"
    and ri: "relays (sent iw) (delivered ys) (out_filter s) (out_rd s) (in_wr s)"
    by (auto simp: relay_inv_def clean_run_def)
  from relays_prefix [OF ro] obtain i ow' where 1: "out_wr s = AsyncWrite ow'"
    "sent ow' = sent ow @ relayed (take i (delivered xs))" "in_rd s = AsyncRead [] \<longrightarrow> i = length xs"
    by (auto simp: delivered_def)
  from relays_prefix [OF ri] obtain j iw' where 2: "in_wr s = AsyncWrite iw'"
    "sent iw' = sent iw @ relayed (take j (delivered ys))" "out_rd s = AsyncRead [] \<longrightarrow> j = length ys"
    by (auto simp: delivered_def)
  from c have "finished s \<in> {None, Some (Ok ())}" by (simp add: clean_run_def)
  with 1 2 show ?thesis by blast
qed

lemma shuffle_relays_stanzas_witness:
  "let xs = [('' '', Stanza (EmptyElem (CHR ''a'', []))), ([], StreamEnd)];
       ys = [([], Stanza (Elem (CHR ''b'', []) [] (CHR ''b'', [])))];
       s0 = shuffle_start (bytes_in (show_stream xs @ [])) (AsyncWrite no_sink)
         (bytes_in (show_stream ys @ '' '')) (AsyncWrite no_sink) 7 (StanzaFilter_new 16);
       s = the (shuffle_exec False True (replicate 3 True @ replicate 7 False @ replicate 18 True) s0)
   in \<exists>i j iw' ow'. out_wr s = AsyncWrite ow' \<and> in_wr s = AsyncWrite iw'
      \<and> sent ow' = sent no_sink @ relayed (take i (delivered xs)) \<and> sent iw' = sent no_sink @ relayed (take j (delivered ys))
      \<and> (in_rd s = AsyncRead [] \<longrightarrow> i = length xs) \<and> (out_rd s = AsyncRead [] \<longrightarrow> j = length ys)
      \<and> finished s \<in> {None, Some (Ok ())}"
proof -
  let ?xs = "[('' '', Stanza (EmptyElem (CHR ''a'', []))), ([], StreamEnd)]"
  let ?ys = "[([], Stanza (Elem (CHR ''b'', []) [] (CHR ''b'', [])))] :: (bytes \<times> item) list"
  let ?s0 = "shuffle_start (bytes_in (show_stream ?xs @ [])) (AsyncWrite no_sink)
         (bytes_in (show_stream ?ys @ '' '')) (AsyncWrite no_sink) 7 (StanzaFilter_new 16)"
  let ?e = "shuffle_exec False True (replicate 3 True @ replicate 7 False @ replicate 18 True) ?s0"
  have x: "fits 16 ?xs" and y: "fits 7 ?ys" unfolding fits_def by code_simp+
  have t: "CHR ''<'' \<notin> set []" "CHR ''<'' \<notin> set '' ''" "faults no_sink = []" "0 < (16::nat)" "0 < (7::nat)" by simp_all
  have "?e \<noteq> None" by code_simp
  then have "?e = Some (the ?e)" by simp
  note run = exec_run [OF this]
  show ?thesis unfolding Let_def
    by (rule shuffle_relays_stanzas [OF idle_new [OF t(4)] t(5) x y t(1,2,3,3) run])
qed


text \<open>C17: on any input, with errors of the readers anywhere, a run is an interleaving of what the
  events of the two byte streams bring about, each from where it stopped, and what has been
  written to an end is the stanzas of the other side among these events, in order and flushed, as
  long as the writers accept it.  An error turns its side off until a stanza of either side has been
  relayed, and no event of a side is taken while it is off; the loop goes on unless both sides are
  off, and ends without an error then, or at the end of one of the streams.\<close>

theorem shuffle_relays_what_is_cut:
  assumes "faults iw = []" and "faults ow = []"
    and "shuffle_run tracing is_c2s (shuffle_start (AsyncRead ird) (AsyncWrite iw) (AsyncRead ord) (AsyncWrite ow) m ifilter) s"
    and "finished s \<noteq> Some Panic"
  shows "\<exists>tr. fates ifilter ird = events_of True tr @ fates_left (in_filter s) (in_rd s)
      \<and> fates (StanzaFilter_new m) ord = events_of False tr @ fates_left (out_filter s) (out_rd s)
      \<and> out_wr s = AsyncWrite (ow\<lparr>sent := sent ow @ relayed (items_of (events_of True tr))\<rparr>)
      \<and> in_wr s = AsyncWrite (iw\<lparr>sent := sent iw @ relayed (items_of (events_of False tr))\<rparr>)
      \<and> (in_off s \<longleftrightarrow> off_after True tr) \<and> (out_off s \<longleftrightarrow> off_after False tr) \<and> waits_while_off tr
      \<and> (case finished s of
           None \<Rightarrow> \<not> (off_after True tr \<and> off_after False tr)
         | Some r \<Rightarrow> r = Ok () \<and> (off_after True tr \<and> off_after False tr \<or> in_rd s = AsyncRead [] \<or> out_rd s = AsyncRead []))"
proof -
  let ?s0 = "shuffle_start (AsyncRead ird) (AsyncWrite iw) (AsyncRead ord) (AsyncWrite ow) m ifilter"
  have "explains (sent ow) (fates ifilter ird) (sent iw) (fates (StanzaFilter_new m) ord) [] ?s0"
    using assms(1,2) by (simp add: explains_def byte_stream_def shuffle_start_def relayed_def)
  from explains_run [OF assms(3) this] assms(4)
  obtain tr where "explains (sent ow) (fates ifilter ird) (sent iw) (fates (StanzaFilter_new m) ord) tr s" by blast
  then show ?thesis using assms(1,2) unfolding explains_def by (intro exI [of _ tr]) auto
qed

lemma shuffle_relays_what_is_cut_witness:
  "let s0 = shuffle_start (bytes_in ''<!a/>'') (AsyncWrite no_sink) (bytes_in ''<b/>'') (AsyncWrite no_sink) 5 (StanzaFilter_new 9);
       s = the (shuffle_exec False True ([True, True] @ replicate 4 False @ replicate 3 True) s0)
   in \<exists>tr. fates (StanzaFilter_new 9) (map RByte ''<!a/>'') = events_of True tr @ fates_left (in_filter s) (in_rd s)
      \<and> fates (StanzaFilter_new 5) (map RByte ''<b/>'') = events_of False tr @ fates_left (out_filter s) (out_rd s)
      \<and> out_wr s = AsyncWrite (no_sink\<lparr>sent := sent no_sink @ relayed (items_of (events_of True tr))\<rparr>)
      \<and> in_wr s = AsyncWrite (no_sink\<lparr>sent := sent no_sink @ relayed (items_of (events_of False tr))\<rparr>)
      \<and> (in_off s \<longleftrightarrow> off_after True tr) \<and> (out_off s \<longleftrightarrow> off_after False tr) \<and> waits_while_off tr
      \<and> (case finished s of
           None \<Rightarrow> \<not> (off_after True tr \<and> off_after False tr)
         | Some r \<Rightarrow> r = Ok () \<and> (off_after True tr \<and> off_after False tr \<or> in_rd s = AsyncRead [] \<or> out_rd s = AsyncRead []))"
proof -
  let ?s0 = "shuffle_start (bytes_in ''<!a/>'') (AsyncWrite no_sink) (bytes_in ''<b/>'') (AsyncWrite no_sink) 5 (StanzaFilter_new 9)"
  let ?e = "shuffle_exec False True ([True, True] @ replicate 4 False @ replicate 3 True) ?s0"
  have "map_option finished ?e = Some None" by code_simp
  note some = map_option_the [OF this]
  then have n: "finished (the ?e) \<noteq> Some Panic" by simp
  note e = conjunct1 [OF some]
  have t: "faults no_sink = []" by simp
  show ?thesis unfolding Let_def
    by (rule shuffle_relays_what_is_cut [OF t t exec_run [OF e] n])
qed


text \<open>C14: the loop ends: whatever the readers deliver and whatever the writers do, a run makes
  at most three steps per event that is left to read and three more, and until the loop has
  returned (or panicked) a step is possible.\<close>

theorem shuffle_terminates:
  assumes "s0 = shuffle_start ird iwr ord owr m ifilter"
  shows "((shuffle_step tracing is_c2s ^^ k) s0 s \<longrightarrow> k \<le> 3 * remaining ird + 3 * remaining ord + 3)
    \<and> (shuffle_run tracing is_c2s s0 s \<longrightarrow> ((\<exists>s'. shuffle_step tracing is_c2s s s') \<longleftrightarrow> finished s = None))"
proof -
  have m: "shuffle_measure s0 = 3 * remaining ird + 3 * remaining ord + 3" and e: "enabled s0"
    by (simp_all add: assms shuffle_start_def shuffle_measure_def enabled_def)
  then show ?thesis
    using steps_bound [of k tracing is_c2s s0 s] enabled_run [of tracing is_c2s s0 s]
    by (auto simp: shuffle_step_simps enabled_def)
qed

lemma shuffle_terminates_witness:
  "let s0 = shuffle_start (bytes_in ''<a/>'') (AsyncWrite no_sink) (WebSocketRead [WsErr]) (WebSocketClientWrite no_sink) 5 (StanzaFilter_new 9)
   in ((shuffle_step True False ^^ 20) s0 s0 \<longrightarrow> 20 \<le> 3 * remaining (bytes_in ''<a/>'') + 3 * remaining (WebSocketRead [WsErr]) + 3)
    \<and> (shuffle_run True False s0 s0 \<longrightarrow> ((\<exists>s'. shuffle_step True False s0 s') \<longleftrightarrow> finished s0 = None))"
  unfolding Let_def by (rule shuffle_terminates) (rule refl)

text \<open>C32: a stanza over the limit does not end the connection: the error only disables the
  branch, and as soon as the other side relays one stanza, the branch is taken up again and
  panics on the filter it left full.\<close>

theorem shuffle_too_big_panics:
  assumes "filter_inv ifilter" and "next_loop ird ifilter = (Err (StanzaTooBig t), ird', ifilter')"
    and "reader_next_eoft ord (StanzaFilter_new m) = (Ok (Some (bs, e)), ord', ofilter')"
    and "faults iw = []"
  shows "\<exists>s. shuffle_run tracing is_c2s (shuffle_start (AsyncRead ird) (AsyncWrite iw) (AsyncRead ord) owr m ifilter) s
      \<and> finished s = Some Panic"
proof -
  let ?s0 = "shuffle_start (AsyncRead ird) (AsyncWrite iw) (AsyncRead ord) owr m ifilter"
  let ?s1 = "?s0\<lparr>in_rd := AsyncRead ird', in_filter := ifilter', in_off := True\<rparr>"
  let ?s2 = "?s1\<lparr>out_rd := AsyncRead ord', out_filter := ofilter',
      in_wr := AsyncWrite (log_event [Wrote bs, Flushed] iw), in_off := False, out_off := False\<rparr>"
  have "shuffle_run tracing is_c2s ?s0 ?s1"
    by (rule run_in_error) (use assms(2) in \<open>simp_all add: shuffle_start_def\<close>)
  moreover have "shuffle_run tracing is_c2s ?s1 ?s2"
    by (rule run_out_stanza) (use assms(3,4) in \<open>simp_all add: shuffle_start_def write_and_flush_ok\<close>)
  moreover have "shuffle_step tracing is_c2s ?s2 (in_branch tracing is_c2s ?s2)"
    by (rule In) (simp_all add: shuffle_start_def)
  moreover have "finished (in_branch tracing is_c2s ?s2) = Some Panic"
    by (rule overrun_in_panics) (use next_loop_too_big [OF assms(1,2)] in simp_all)
  ultimately show ?thesis by (meson rtranclp.rtrancl_into_rtrancl rtranclp_trans)
qed

lemma shuffle_too_big_panics_witness:
  "\<exists>s. shuffle_run False True
      (shuffle_start (bytes_in ''<abc'') (AsyncWrite no_sink) (bytes_in ''<b/>'') (AsyncWrite no_sink) 4 (StanzaFilter_new 4)) s
      \<and> finished s = Some Panic"
proof -
  let ?n = "next_loop (map RByte ''<abc'') (StanzaFilter_new 4)"
  let ?o = "reader_next_eoft (map RByte ''<b/>'') (StanzaFilter_new 4)"
  have "fst ?n = Err (StanzaTooBig ''<abc'')" and "fst ?o = Ok (Some (''<b/>'', 3))" by code_simp+
  then have n: "?n = (Err (StanzaTooBig ''<abc''), fst (snd ?n), snd (snd ?n))"
    and o: "?o = (Ok (Some (''<b/>'', 3)), fst (snd ?o), snd (snd ?o))" by (metis prod.collapse)+
  have f: "filter_inv (StanzaFilter_new 4)" by (rule filter_inv_new) simp
  show ?thesis by (rule shuffle_too_big_panics [OF f n o]) simp
qed


end
