(* ===== verification/Starttls.thy ===== *)
theory Starttls
  imports Stream_Common
begin

text \<open>
  Model of the STARTTLS negotiations, as a server in \<open>src/tls/incoming.rs\<close> and as a client in
  \<open>src/tls/outgoing.rs\<close>: what is read and written in the clear before the TLS handshake.

  The unencrypted stream is the sequence of what its reads return and a sink; the TLS library
  takes it over afterwards.
\<close>

section \<open>As a server\<close>

text \<open>A TLS record of a hello: type 0x16 and a version from 3.0 to 3.3.\<close>

definition is_client_hello :: "bytes \<Rightarrow> bool" where
  "is_client_hello p \<longleftrightarrow>
     (of_char (p ! 0) :: nat) = 0x16 \<and> (of_char (p ! 1) :: nat) = 0x03 \<and> (of_char (p ! 2) :: nat) \<le> 0x03"

text \<open>The reply to a stream header: the client's header with \<open>to\<close> and \<open>from\<close> exchanged.\<close>

definition reply_header :: "bytes \<Rightarrow> bytes" where
  "reply_header bs =
     (if contains_seq bs ''id='' then
        replace_first
          (replace_first
            (replace_first
              (replace_first
                (replace_first bs ('' id='' @ [CHR 0x27]) ('' id='' @ CHR 0x27 # ''xmpp-proxy''))
                '' id=\"'' '' id=\"xmpp-proxy'')
              '' to='' '' bla toblala='')
            '' from='' '' to='')
          '' bla toblala='' '' from=''
      else
        replace_first
          (replace_first
            (replace_first bs '' to='' '' bla toblala='')
            '' from='' '' to='')
          '' bla toblala='' ('' id='' @ CHR 0x27 # ''xmpp-proxy'' @ CHR 0x27 # '' from=''))"

definition features_starttls :: bytes where
  "features_starttls =
     ''<stream:features><starttls xmlns=\"urn:ietf:params:xml:ns:xmpp-tls\"><required/></starttls></stream:features>''"

definition proceed :: bytes where
  "proceed = ''<proceed xmlns=\"urn:ietf:params:xml:ns:xmpp-tls\" />''"

text \<open>A sequence of writes and flushes, stopped by the first error.\<close>

fun sink_writes :: "bytes list \<Rightarrow> sink \<Rightarrow> unit outcome \<times> sink" where
  "sink_writes [] s = sink_flush s"
| "sink_writes (bs # bss) s =
     (case sink_write_all bs s of
        (Ok u, s) \<Rightarrow> sink_writes bss s
      | (r, s) \<Rightarrow> (r, s))"

function starttls_in_loop :: "reader \<Rightarrow> StanzaFilter \<Rightarrow> sink \<Rightarrow> bool outcome \<times> reader \<times> StanzaFilter \<times> sink" where
  "starttls_in_loop rd f wr =
     (case reader_next rd f of
        (Ok (Some bs), rd', f') \<Rightarrow>
          (if prefix ''<?xml '' bs then
             (case sink_writes [bs] wr of
                (Ok u, wr) \<Rightarrow> starttls_in_loop rd' f' wr
              | (Err e, wr) \<Rightarrow> (Err e, rd', f', wr)
              | (Panic, wr) \<Rightarrow> (Panic, rd', f', wr))
           else if prefix ''<stream:stream '' bs then
             (case sink_writes [reply_header bs, features_starttls] wr of
                (Ok u, wr) \<Rightarrow> starttls_in_loop rd' f' wr
              | (Err e, wr) \<Rightarrow> (Err e, rd', f', wr)
              | (Panic, wr) \<Rightarrow> (Panic, rd', f', wr))
           else if prefix ''<starttls '' bs then
             (case sink_writes [proceed] wr of
                (Ok u, wr) \<Rightarrow> (Ok True, rd', f', wr)
              | (Err e, wr) \<Rightarrow> (Err e, rd', f', wr)
              | (Panic, wr) \<Rightarrow> (Panic, rd', f', wr))
           else (Err (BadPreTlsStanza bs), rd', f', wr))
      | (Ok None, rd', f') \<Rightarrow> (Ok False, rd', f', wr)
      | (Err e, rd', f') \<Rightarrow> (Ok False, rd', f', wr)
      | (Panic, rd', f') \<Rightarrow> (Panic, rd', f', wr))"
  by pat_completeness auto
termination
  by (relation "measure (\<lambda>(rd, f, wr). length rd)") (auto dest: reader_next_consumes [OF sym])

declare starttls_in_loop.simps [simp del]

text \<open>
  Bytes in front of the handshake are read and dropped, one at a time, through the first byte
  of the filter's buffer; the end of the stream is an error of the peek.
\<close>

fun skip_to_handshake :: "reader \<Rightarrow> StanzaFilter \<Rightarrow> reader outcome \<times> StanzaFilter" where
  "skip_to_handshake [] f = (if buf f = [] then Panic else Err NotEnoughBytes, f)"
| "skip_to_handshake (RErr # rd) f = (if buf f = [] then Panic else Err IoError, f)"
| "skip_to_handshake (RByte b # rd) f =
     (if buf f = [] then (Panic, f) else
      let f = f\<lparr>buf := (buf f)[0 := b]\<rparr> in
      if (of_char b :: nat) \<noteq> 0x16 then skip_to_handshake rd f else (Ok (RByte b # rd), f))"

definition starttls_in ::
    "reader \<Rightarrow> StanzaFilter \<Rightarrow> sink \<Rightarrow> reader outcome \<times> StanzaFilter \<times> sink"
where
  "starttls_in rd f wr =
     (case starttls_in_loop rd f wr of
        (Ok proceed_sent, rd', f', wr') \<Rightarrow>
          (if \<not> proceed_sent then (Err StreamEndedBeforeOpen, f', wr')
           else (case skip_to_handshake rd' f' of (r, f') \<Rightarrow> (r, f', wr')))
      | (Err e, rd', f', wr') \<Rightarrow> (Err e, f', wr')
      | (Panic, rd', f', wr') \<Rightarrow> (Panic, f', wr'))"

section \<open>As a client\<close>

definition starttls_request :: bytes where
  "starttls_request = ''<starttls xmlns='urn:ietf:params:xml:ns:xmpp-tls'/>''"

function starttls_out_loop :: "reader \<Rightarrow> StanzaFilter \<Rightarrow> sink \<Rightarrow> bool outcome \<times> reader \<times> StanzaFilter \<times> sink" where
  "starttls_out_loop rd f wr =
     (case reader_next rd f of
        (Ok (Some bs), rd', f') \<Rightarrow>
          (if prefix ''<?xml '' bs \<or> prefix ''<stream:stream '' bs then starttls_out_loop rd' f' wr
           else if prefix ''<stream:features'' bs then
             (case sink_writes [starttls_request] wr of
                (Ok u, wr) \<Rightarrow> starttls_out_loop rd' f' wr
              | (Err e, wr) \<Rightarrow> (Err e, rd', f', wr)
              | (Panic, wr) \<Rightarrow> (Panic, rd', f', wr))
           else if prefix ''<proceed '' bs then (Ok True, rd', f', wr)
           else (Err (BadPreTlsStanza bs), rd', f', wr))
      | (Ok None, rd', f') \<Rightarrow> (Ok False, rd', f', wr)
      | (Err e, rd', f') \<Rightarrow> (Ok False, rd', f', wr)
      | (Panic, rd', f') \<Rightarrow> (Panic, rd', f', wr))"
  by pat_completeness auto
termination
  by (relation "measure (\<lambda>(rd, f, wr). length rd)") (auto dest: reader_next_consumes [OF sym])

declare starttls_out_loop.simps [simp del]

text \<open>
  The dialogue of \<open>starttls_connect\<close> after the connection is made.  The reader is buffered and
  dropped with its buffer, so no byte of the plain stream is read after the handshake starts.
\<close>

definition starttls_out ::
    "bytes \<Rightarrow> reader \<Rightarrow> StanzaFilter \<Rightarrow> sink \<Rightarrow> unit outcome \<times> StanzaFilter \<times> sink"
where
  "starttls_out stream_open rd f wr =
     (case sink_writes [stream_open] wr of
        (Ok u, wr) \<Rightarrow>
          (case starttls_out_loop rd f wr of
             (Ok proceed_received, rd', f', wr') \<Rightarrow>
               (if \<not> proceed_received then Err StreamEndedBeforeProceed else Ok (), f', wr')
           | (Err e, rd', f', wr') \<Rightarrow> (Err e, f', wr')
           | (Panic, rd', f', wr') \<Rightarrow> (Panic, f', wr'))
      | (Err e, wr) \<Rightarrow> (Err e, f, wr)
      | (Panic, wr) \<Rightarrow> (Panic, f, wr))"

section \<open>Replacing\<close>

lemma replace_borderless:
  "borderless n \<Longrightarrow> \<not> sublist n p \<Longrightarrow> replace_first (p @ n @ q) n r = p @ r @ q"
  by (rule replace_first_hit) (rule find_borderless)

text \<open>A needle can be looked for on both sides of an element that it has at most in front.\<close>

lemma sublist_at_head:
  assumes "sublist (c # n) (p @ c # q)" and "c \<notin> set n"
  shows "sublist (c # n) p \<or> sublist (c # n) (c # q)"
proof (rule disjCI)
  assume no: "\<not> sublist (c # n) (c # q)"
  from assms(1) obtain u v where uv: "p @ c # q = u @ (c # n) @ v" by (auto simp: sublist_def)
  show "sublist (c # n) p"
  proof (cases "length p \<le> length u")
    case True
    then obtain w where "u = p @ w" using uv by (metis append_eq_append_conv_if append_eq_conv_conj)
    with uv have "c # q = w @ (c # n) @ v" by simp
    with no show ?thesis by (auto simp: sublist_def)
  next
    case False
    then obtain w where p: "p = u @ w" and w: "w @ c # q = c # n @ v" "w \<noteq> []"
      using uv by (metis append_Cons append_eq_append_conv2 length_append le_add1 self_append_conv list.size(3) not_less_zero linorder_le_less_linear append_assoc append_eq_append_conv_if append_eq_conv_conj)
    then obtain w' where w': "w = c # w'" "w' @ c # q = n @ v" by (cases w) auto
    have "length n \<le> length w'"
    proof (rule ccontr)
      assume "\<not> length n \<le> length w'"
      then have "n ! length w' = c" using w'(2) by (metis nth_append nth_append_length not_less)
      with \<open>\<not> length n \<le> length w'\<close> assms(2) show False by (metis nth_mem not_le)
    qed
    then have "prefix n w'" using w'(2) by (metis append_eq_append_conv_if append_eq_conv_conj prefixI take_is_prefix)
    then show ?thesis using p w' by (metis sublist_appendI append.left_neutral prefixE append_Cons)
  qed
qed


lemma sublist_around:
  assumes "c \<notin> set n" and "n \<noteq> []"
  shows "sublist n (p @ c # q) \<longleftrightarrow> sublist n p \<or> sublist n q"
proof
  assume "sublist n (p @ c # q)"
  then obtain u v where uv: "p @ c # q = u @ n @ v" by (auto simp: sublist_def)
  from uv consider us where "p = u @ us" "us @ c # q = n @ v" | us where "u = p @ us" "c # q = us @ n @ v"
    by (auto simp: append_eq_append_conv2)
  then show "sublist n p \<or> sublist n q"
  proof cases
    case 1
    from 1(2) consider w where "us = n @ w" | w where "n = us @ w" "w @ v = c # q"
      by (auto simp: append_eq_append_conv2)
    then show ?thesis
    proof cases
      case 2
      with assms(1) have "w = []" by (cases w) auto
      with 2 1 have "p = u @ n" by simp
      then show ?thesis by simp
    qed (use 1 in \<open>auto simp: sublist_def\<close>)
  next
    case 2
    with assms have "us \<noteq> []" by (cases n) (auto)
    with 2 show ?thesis by (cases us) (auto simp: sublist_def)
  qed
next
  show "sublist n p \<or> sublist n q \<Longrightarrow> sublist n (p @ c # q)"
    by (metis append_Cons append_Nil sublist_appendI sublist_append)
qed

section \<open>The reply header\<close>

definition free_of :: "bytes list \<Rightarrow> bytes \<Rightarrow> bool" where
  "free_of ns s \<longleftrightarrow> (\<forall>n\<in>set ns. \<not> sublist n s)"

definition swapped_needles :: "bytes list" where
  "swapped_needles = ['' to='', '' from='', ''toblala='', ''id='']"

lemma needles_borderless:
  "borderless '' to=''" "borderless '' from=''" "borderless '' bla toblala=''"
  by code_simp+

lemma toblala_part: "sublist '' bla toblala='' s \<Longrightarrow> sublist ''toblala='' s"
proof -
  have "sublist ''toblala='' '' bla toblala=''" by code_simp
  then show "sublist '' bla toblala='' s \<Longrightarrow> ?thesis" by (rule sublist_order.order.trans)
qed

lemma free_needles:
  assumes "free_of swapped_needles s"
  shows "\<not> sublist '' to='' s" "\<not> sublist '' from='' s" "\<not> sublist '' bla toblala='' s" "\<not> sublist ''id='' s"
    "\<not> sublist ''toblala='' s"
  using assms toblala_part by (auto simp: free_of_def swapped_needles_def)

lemma no_id:
  assumes "free_of swapped_needles a" "free_of swapped_needles b" "free_of swapped_needles c"
  shows "\<not> contains_seq (a @ '' to='' @ b @ '' from='' @ c) ''id=''"
    and "\<not> contains_seq (a @ '' from='' @ b @ '' to='' @ c) ''id=''"
  using free_needles [OF assms(1)] free_needles [OF assms(2)] free_needles [OF assms(3)]
  by (simp_all add: slice_simps sublist_around sublist_Cons_right)

lemma no_from_in:
  assumes "free_of swapped_needles a" and "free_of swapped_needles b"
  shows "\<not> sublist '' from='' (a @ '' bla toblala='' @ b)"
proof
  assume "sublist '' from='' (a @ '' bla toblala='' @ b)"
  then have "sublist '' from='' (a @ CHR '' '' # ''bla toblala='' @ b)" by simp
  from sublist_at_head [OF this] free_needles [OF assms(1)] free_needles [OF assms(2)]
  show False by (simp add: sublist_Cons_right)
qed

lemma no_to_in:
  assumes "free_of swapped_needles a" and "free_of swapped_needles b"
  shows "\<not> sublist '' to='' (a @ '' from='' @ b)"
proof
  assume "sublist '' to='' (a @ '' from='' @ b)"
  then have "sublist '' to='' (a @ CHR '' '' # ''from='' @ b)" by simp
  from sublist_at_head [OF this] free_needles [OF assms(1)] free_needles [OF assms(2)]
  show False by (simp add: sublist_Cons_right)
qed

lemma reply_to_from:
  assumes "free_of swapped_needles a" "free_of swapped_needles b" "free_of swapped_needles c"
  shows "reply_header (a @ '' to='' @ b @ '' from='' @ c)
    = a @ '' id='' @ CHR 0x27 # ''xmpp-proxy'' @ CHR 0x27 # '' from='' @ b @ '' to='' @ c"
proof -
  note a = free_needles [OF assms(1)] and out = no_from_in [OF assms(1,2)]
  have 1: "replace_first (a @ '' to='' @ b @ '' from='' @ c) '' to='' '' bla toblala=''
      = (a @ '' bla toblala='' @ b) @ '' from='' @ c"
    using replace_borderless [OF needles_borderless(1) a(1)] by simp
  have 2: "replace_first ((a @ '' bla toblala='' @ b) @ '' from='' @ c) '' from='' '' to=''
      = a @ '' bla toblala='' @ b @ '' to='' @ c"
    using replace_borderless [OF needles_borderless(2) out] by simp
  show ?thesis
    using no_id(1) [OF assms] replace_borderless [OF needles_borderless(3) a(3)]
    unfolding reply_header_def 1 2 by simp
qed

lemma reply_from_to:
  assumes "free_of swapped_needles a" "free_of swapped_needles b" "free_of swapped_needles c"
  shows "reply_header (a @ '' from='' @ b @ '' to='' @ c)
    = a @ '' to='' @ b @ '' id='' @ CHR 0x27 # ''xmpp-proxy'' @ CHR 0x27 # '' from='' @ c"
proof -
  note a = free_needles [OF assms(1)] and b = free_needles [OF assms(2)] and out = no_to_in [OF assms(1,2)]
  have 1: "replace_first (a @ '' from='' @ b @ '' to='' @ c) '' to='' '' bla toblala=''
      = a @ '' from='' @ b @ '' bla toblala='' @ c"
    using replace_borderless [OF needles_borderless(1) out] by simp
  have 2: "replace_first (a @ '' from='' @ b @ '' bla toblala='' @ c) '' from='' '' to=''
      = (a @ '' to='' @ b) @ '' bla toblala='' @ c"
    using replace_borderless [OF needles_borderless(2) a(2)] by simp
  have "\<not> sublist '' bla toblala='' (a @ '' to='' @ b)"
    using a(5) b(5) by (auto dest!: toblala_part simp: sublist_around sublist_Cons_right)
  then show ?thesis
    using no_id(2) [OF assms] replace_borderless [OF needles_borderless(3), of "a @ '' to='' @ b"]
    unfolding reply_header_def 1 2 by simp
qed

section \<open>The dialogues\<close>

text \<open>What the server answers to an item in front of the request.\<close>

fun answer :: "item \<Rightarrow> wr_event list" where
  "answer (XmlDecl d) = [Wrote (show_item (XmlDecl d)), Flushed]"
| "answer (Header t) = [Wrote (reply_header (show_item (Header t))), Wrote features_starttls, Flushed]"
| "answer (Stanza x) = []"
| "answer StreamEnd = []"

definition opening_item :: "nat \<Rightarrow> bytes \<times> item \<Rightarrow> bool" where
  "opening_item n p \<longleftrightarrow> CHR ''<'' \<notin> set (fst p) \<and> ok_item (snd p) \<and> length (show_item (snd p)) \<le> n
     \<and> (is_decl (snd p) \<or> is_header (snd p))"

lemma sink_writes_ok:
  "faults s = [] \<Longrightarrow> sink_writes bss s = (Ok (), log_event (map Wrote bss @ [Flushed]) s)"
  by (induction bss arbitrary: s) (simp_all add: sink_ok)

lemma starttls_in_opening:
  assumes "idle n e f" and "opening_item n (ws, x)" and "faults wr = []"
  shows "\<exists>e' f'. idle n e' f' \<and> starttls_in_loop (map RByte (ws @ show_item x @ rest)) f wr
      = starttls_in_loop (map RByte rest) f' (log_event (answer x) wr)"
proof -
  from assms(2) have x: "ok_item x" "length (show_item x) \<le> n" "CHR ''<'' \<notin> set ws" "is_decl x \<or> is_header x"
    by (simp_all add: opening_item_def)
  from next_item [OF assms(1) x(1-3), of rest] obtain e' f' where f': "idle n e' f'"
    and rd: "reader_next (map RByte (ws @ show_item x @ rest)) f
      = (Ok (Some (show_item x)), map RByte rest, f')" by blast
  have "starttls_in_loop (map RByte (ws @ show_item x @ rest)) f wr
      = starttls_in_loop (map RByte rest) f' (log_event (answer x) wr)"
  proof (cases x)
    case (XmlDecl d)
    have "prefix ''<?xml '' (show_item x)" using XmlDecl by simp
    with rd XmlDecl sink_writes_ok [OF assms(3), of "[show_item x]"] show ?thesis
      by (subst starttls_in_loop.simps) (simp del: show_item.simps map_append sink_writes.simps)
  next
    case (Header t)
    with x have "prefix ''<stream:stream '' (show_item x)" "\<not> prefix ''<?xml '' (show_item x)"
      using header_item [of x] not_decl_item [of x] by auto
    with rd Header sink_writes_ok [OF assms(3), of "[reply_header (show_item x), features_starttls]"] show ?thesis
      by (subst starttls_in_loop.simps) (simp del: show_item.simps map_append sink_writes.simps)
  qed (use x in simp_all)
  with f' show ?thesis by blast
qed

lemma starttls_in_openings:
  assumes "idle n e f" and "list_all (opening_item n) xs" and "faults wr = []"
  shows "\<exists>e' f'. idle n e' f' \<and> starttls_in_loop (map RByte (show_stream xs @ rest)) f wr
      = starttls_in_loop (map RByte rest) f' (log_event (concat (map (answer \<circ> snd) xs)) wr)"
  using assms
proof (induction xs arbitrary: e f wr)
  case Nil
  then show ?case by (auto simp: show_stream_def)
next
  case (Cons p xs)
  obtain ws x where p: "p = (ws, x)" by (cases p)
  from Cons.prems p have o: "opening_item n (ws, x)" by simp
  from starttls_in_opening [OF Cons.prems(1) o Cons.prems(3), of "show_stream xs @ rest"]
  obtain e1 f1 where f1: "idle n e1 f1" and step: "starttls_in_loop (map RByte (show_stream (p # xs) @ rest)) f wr
      = starttls_in_loop (map RByte (show_stream xs @ rest)) f1 (log_event (answer x) wr)"
    by (auto simp: p show_stream_def)
  from Cons.IH [OF f1, of "log_event (answer x) wr"] Cons.prems show ?case
    unfolding step by (simp add: p)
qed

lemma skip_junk:
  assumes "CHR 0x16 \<notin> set junk" and "idle n e f"
  shows "\<exists>f'. idle n e f' \<and> skip_to_handshake (map RByte (junk @ CHR 0x16 # rest)) f = (Ok (map RByte (CHR 0x16 # rest)), f')"
  using assms
proof (induction junk arbitrary: f)
  case Nil
  then have b: "buf f \<noteq> []" by (auto simp: idle_def serves_def filter_inv_def)
  have "idle n e (f\<lparr>buf := (buf f)[0 := CHR 0x16]\<rparr>)" using Nil
    by (auto simp: idle_def serves_def filter_inv_def filter_abs_def state_inv_buf)
  with b show ?case by auto
next
  case (Cons c junk)
  then have b: "buf f \<noteq> []" by (auto simp: idle_def serves_def filter_inv_def)
  have i: "idle n e (f\<lparr>buf := (buf f)[0 := c]\<rparr>)" using Cons
    by (auto simp: idle_def serves_def filter_inv_def filter_abs_def state_inv_buf)
  have "(of_char c :: nat) \<noteq> 0x16"
  proof
    assume "(of_char c :: nat) = 0x16"
    moreover have "(of_char (CHR 0x16) :: nat) = 0x16" by code_simp
    ultimately have "c = CHR 0x16" by (metis of_char_eq_iff)
    with Cons.prems show False by simp
  qed
  with Cons.IH [OF _ i] Cons.prems b show ?case by simp
qed

lemma starttls_in_request:
  assumes "idle n e f" and "ok_item x" and "length (show_item x) \<le> n" and "CHR ''<'' \<notin> set ws"
    and "prefix ''<starttls '' (show_item x)" and "faults wr = []"
  shows "\<exists>e' f'. idle n e' f' \<and> starttls_in_loop (map RByte (ws @ show_item x @ rest)) f wr
      = (Ok True, map RByte rest, f', log_event [Wrote proceed, Flushed] wr)"
proof -
  from next_item [OF assms(1-4), of rest] obtain e' f' where f': "idle n e' f'"
    and rd: "reader_next (map RByte (ws @ show_item x @ rest)) f
      = (Ok (Some (show_item x)), map RByte rest, f')" by blast
  have "\<not> prefix ''<?xml '' (show_item x)" "\<not> prefix ''<stream:stream '' (show_item x)"
    using assms(5) by (auto simp: prefix_def)
  with rd assms(5) sink_writes_ok [OF assms(6), of "[proceed]"]
  have "starttls_in_loop (map RByte (ws @ show_item x @ rest)) f wr
      = (Ok True, map RByte rest, f', log_event [Wrote proceed, Flushed] wr)"
    by (subst starttls_in_loop.simps) (simp del: show_item.simps map_append sink_writes.simps)
  with f' show ?thesis by blast
qed

text \<open>A write that fails leaves an error, so success means that every write was made.\<close>

lemma sink_write_all_Ok: "sink_write_all bs s = (Ok u, s') \<Longrightarrow> sent s' = sent s @ [Wrote bs]"
  by (auto simp: sink_write_all_def next_fault_def split: list.splits option.splits prod.splits)

lemma sink_flush_Ok: "sink_flush s = (Ok u, s') \<Longrightarrow> sent s' = sent s @ [Flushed]"
  by (auto simp: sink_flush_def next_fault_def split: list.splits option.splits prod.splits)

lemma sink_writes_Ok: "sink_writes bss s = (Ok u, s') \<Longrightarrow> sent s' = sent s @ map Wrote bss @ [Flushed]"
proof (induction bss arbitrary: s)
  case Nil
  then show ?case by (simp add: sink_flush_Ok)
next
  case (Cons bs bss)
  then show ?case by (auto split: prod.splits outcome.splits dest!: sink_write_all_Ok)
qed

lemma starttls_in_loop_proceeds:
  "starttls_in_loop rd f wr = (Ok True, rd', f', wr') \<Longrightarrow>
     \<exists>log. sent wr' = sent wr @ log @ [Wrote proceed, Flushed]"
proof (induction rd f wr rule: starttls_in_loop.induct)
  case (1 rd f wr)
  obtain r rd1 f1 where n: "reader_next rd f = (r, rd1, f1)" by (cases "reader_next rd f") auto
  from 1(3) obtain bs where r: "r = Ok (Some bs)"
    unfolding starttls_in_loop.simps [of rd f wr] n by (auto split: outcome.splits option.splits)
  note sim = 1(3) [unfolded starttls_in_loop.simps [of rd f wr] n r, simplified]
  consider (decl) "prefix ''<?xml '' bs" | (header) "\<not> prefix ''<?xml '' bs" "prefix ''<stream:stream '' bs"
    | (req) "\<not> prefix ''<?xml '' bs" "\<not> prefix ''<stream:stream '' bs" by blast
  then show ?case
  proof cases
    case decl
    with sim obtain wr1 where w: "sink_writes [bs] wr = (Ok (), wr1)"
      and l: "starttls_in_loop rd1 f1 wr1 = (Ok True, rd', f', wr')"
      by (auto split: prod.splits outcome.splits simp del: sink_writes.simps)
    from 1(1) [OF n [symmetric] r refl refl decl w [symmetric] refl l] sink_writes_Ok [OF w] show ?thesis by auto
  next
    case header
    with sim obtain wr1 where w: "sink_writes [reply_header bs, features_starttls] wr = (Ok (), wr1)"
      and l: "starttls_in_loop rd1 f1 wr1 = (Ok True, rd', f', wr')"
      by (auto split: prod.splits outcome.splits simp del: sink_writes.simps)
    from 1(2) [OF n [symmetric] r refl refl header w [symmetric] refl l] sink_writes_Ok [OF w] show ?thesis by auto
  next
    case req
    with sim have "sink_writes [proceed] wr = (Ok (), wr')"
      by (auto split: prod.splits outcome.splits if_splits simp del: sink_writes.simps)
    from sink_writes_Ok [OF this] show ?thesis by auto
  qed
qed

lemma skip_to_handshake_Ok:
  "skip_to_handshake rd f = (Ok rd', f') \<Longrightarrow> \<exists>rest. rd' = RByte (CHR 0x16) # rest \<and> suffix rd' rd"
proof (induction rd f rule: skip_to_handshake.induct)
  case (3 c rd f)
  show ?case
  proof (cases "(of_char c :: nat) = 0x16")
    case True
    moreover have "(of_char (CHR 0x16) :: nat) = 0x16" by code_simp
    ultimately have "c = CHR 0x16" by (metis of_char_eq_iff)
    with 3 show ?thesis by (auto simp: Let_def split: if_splits)
  next
    case False
    with 3 show ?thesis by (auto simp: Let_def suffix_ConsI split: if_splits)
  qed
qed (auto split: if_splits)

text \<open>The handshake as a server starts only after \<open>proceed\<close> has been written and flushed as the
  last thing in the clear, whatever the input and whatever write fails.\<close>

lemma starttls_in_Ok:
  assumes "starttls_in rd f wr = (Ok rd', f', wr')"
  shows "\<exists>log rest. sent wr' = sent wr @ log @ [Wrote proceed, Flushed] \<and> rd' = RByte (CHR 0x16) # rest"
proof -
  from assms obtain rd1 f1 where l: "starttls_in_loop rd f wr = (Ok True, rd1, f1, wr')"
    and k: "skip_to_handshake rd1 f1 = (Ok rd', f')"
    by (auto simp: starttls_in_def split: prod.splits outcome.splits if_splits)
  from starttls_in_loop_proceeds [OF l] skip_to_handshake_Ok [OF k] show ?thesis by blast
qed

lemma next_loop_suffix: "next_loop rd f = (r, rd', f') \<Longrightarrow> suffix rd' rd"
  by (induction rd f rule: next_loop.induct)
    (auto split: prod.splits outcome.splits option.splits intro: suffix_ConsI)

lemma reader_next_suffix: "reader_next rd f = (r, rd', f') \<Longrightarrow> suffix rd' rd"
  by (auto simp: reader_next_def split: prod.splits outcome.splits option.splits dest: next_loop_suffix)

text \<open>What the client has answered when the proceed arrives.\<close>

lemma starttls_out_loop_proceeds:
  "starttls_out_loop rd f wr = (Ok True, rd', f', wr') \<Longrightarrow>
     (\<exists>k. sent wr' = sent wr @ concat (replicate k [Wrote starttls_request, Flushed]))
   \<and> (\<exists>rd0 f0 bs. suffix rd0 rd \<and> reader_next rd0 f0 = (Ok (Some bs), rd', f') \<and> prefix ''<proceed '' bs)"
proof (induction rd f wr rule: starttls_out_loop.induct)
  case (1 rd f wr)
  obtain r rd1 f1 where n: "reader_next rd f = (r, rd1, f1)" by (cases "reader_next rd f") auto
  from 1(3) obtain bs where r: "r = Ok (Some bs)"
    unfolding starttls_out_loop.simps [of rd f wr] n by (auto split: outcome.splits option.splits)
  note sim = 1(3) [unfolded starttls_out_loop.simps [of rd f wr] n r, simplified]
  have sfx: "suffix rd1 rd" using n by (rule reader_next_suffix)
  consider (skip) "prefix ''<?xml '' bs \<or> prefix ''<stream:stream '' bs"
    | (feat) "\<not> (prefix ''<?xml '' bs \<or> prefix ''<stream:stream '' bs)" "prefix ''<stream:features'' bs"
    | (other) "\<not> (prefix ''<?xml '' bs \<or> prefix ''<stream:stream '' bs)" "\<not> prefix ''<stream:features'' bs" by blast
  then show ?case
  proof cases
    case skip
    with sim have l: "starttls_out_loop rd1 f1 wr = (Ok True, rd', f', wr')" by auto
    from 1(1) [OF n [symmetric] r refl refl skip l] sfx show ?thesis by (meson suffix_order.trans)
  next
    case feat
    with sim obtain wr1 where w: "sink_writes [starttls_request] wr = (Ok (), wr1)"
      and l: "starttls_out_loop rd1 f1 wr1 = (Ok True, rd', f', wr')"
      by (auto split: prod.splits outcome.splits simp del: sink_writes.simps)
    from 1(2) [OF n [symmetric] r refl refl feat w [symmetric] refl l]
    obtain k where k: "sent wr' = sent wr1 @ concat (replicate k [Wrote starttls_request, Flushed])"
      and p: "\<exists>rd0 f0 bs. suffix rd0 rd1 \<and> reader_next rd0 f0 = (Ok (Some bs), rd', f') \<and> prefix ''<proceed '' bs"
      by blast
    from k sink_writes_Ok [OF w]
    have "sent wr' = sent wr @ concat (replicate (Suc k) [Wrote starttls_request, Flushed])" by simp
    moreover from p sfx have "\<exists>rd0 f0 bs. suffix rd0 rd \<and> reader_next rd0 f0 = (Ok (Some bs), rd', f') \<and> prefix ''<proceed '' bs"
      by (meson suffix_order.trans)
    ultimately show ?thesis by blast
  next
    case other
    with sim have e: "prefix ''<proceed '' bs" "rd1 = rd'" "f1 = f'" "wr' = wr" by (auto split: if_splits)
    have "sent wr' = sent wr @ concat (replicate 0 [Wrote starttls_request, Flushed])" using e by simp
    with e n r show ?thesis by blast
  qed
qed

text \<open>The whole dialogue; the filter is between stanzas afterwards.\<close>

lemma starttls_in_run:
  assumes "idle n e f" and "list_all (opening_item n) xs" and "faults wr = []"
    and "ok_item x" and "length (show_item x) \<le> n" and "prefix ''<starttls '' (show_item x)"
    and "CHR ''<'' \<notin> set ws" and "CHR 0x16 \<notin> set junk"
  shows "\<exists>e' f'. idle n e' f' \<and> starttls_in (map RByte (show_stream xs @ ws @ show_item x @ junk @ CHR 0x16 # rest)) f wr
      = (Ok (map RByte (CHR 0x16 # rest)), f',
         wr\<lparr>sent := sent wr @ concat (map (answer \<circ> snd) xs) @ [Wrote proceed, Flushed]\<rparr>)"
proof -
  let ?wr = "log_event (concat (map (answer \<circ> snd) xs)) wr"
  obtain e1 f1 where f1: "idle n e1 f1"
    and 1: "starttls_in_loop (map RByte (show_stream xs @ ws @ show_item x @ junk @ CHR 0x16 # rest)) f wr
      = starttls_in_loop (map RByte (ws @ show_item x @ junk @ CHR 0x16 # rest)) f1 ?wr"
    using starttls_in_openings [OF assms(1-3)] by blast
  have "faults ?wr = []" using assms(3) by simp
  from starttls_in_request [OF f1 assms(4,5,7,6) this] obtain e2 f2 where f2: "idle n e2 f2"
    and 2: "starttls_in_loop (map RByte (ws @ show_item x @ junk @ CHR 0x16 # rest)) f1 ?wr
      = (Ok True, map RByte (junk @ CHR 0x16 # rest), f2, log_event [Wrote proceed, Flushed] ?wr)" by blast
  from skip_junk [OF assms(8) f2] obtain f3
    where "idle n e2 f3" "skip_to_handshake (map RByte (junk @ CHR 0x16 # rest)) f2 = (Ok (map RByte (CHR 0x16 # rest)), f3)" by blast
  then show ?thesis
    unfolding starttls_in_def 1 2 by (intro exI [of _ e2] exI [of _ f3]) (simp add: log_event_def del: map_append list.map)
qed

text \<open>
  The dialogue as a client: what a server may send before it lets the handshake start, what is sent
  to it, and what is left in the filter, which is the place of the end of the first tag that was read:
  \<open>next\<close> notes it and does not take it back.
\<close>

definition awaits_starttls :: "nat \<Rightarrow> bytes \<times> item \<Rightarrow> bool" where
  "awaits_starttls n p \<longleftrightarrow> CHR ''<'' \<notin> set (fst p) \<and> ok_item (snd p) \<and> length (show_item (snd p)) \<le> n
     \<and> (is_decl (snd p) \<or> is_header (snd p) \<or> prefix ''<stream:features'' (show_item (snd p)))"

definition requests :: "item \<Rightarrow> wr_event list" where
  "requests x = (if is_decl x \<or> is_header x then [] else [Wrote starttls_request, Flushed])"

definition noted :: "nat \<Rightarrow> item list \<Rightarrow> nat" where
  "noted = foldl (\<lambda>e x. if e = 0 then item_eoft x else e)"

lemma noted_simps [simp]: "noted e [] = e" "noted e (x # xs) = noted (if e = 0 then item_eoft x else e) xs"
  by (simp_all add: noted_def)

lemma noted_snoc: "noted e (xs @ [x]) = (if noted e xs = 0 then item_eoft x else noted e xs)"
  by (simp add: noted_def)

lemma starttls_out_awaits:
  assumes "idle n e f" and "awaits_starttls n (ws, x)" and "faults wr = []"
  shows "\<exists>f'. idle n (noted e [x]) f' \<and> starttls_out_loop (map RByte (ws @ show_item x @ rest)) f wr
      = starttls_out_loop (map RByte rest) f' (log_event (requests x) wr)"
proof -
  from assms(2) have x: "ok_item x" "length (show_item x) \<le> n" "CHR ''<'' \<notin> set ws"
    "is_decl x \<or> is_header x \<or> prefix ''<stream:features'' (show_item x)"
    by (simp_all add: awaits_starttls_def)
  from next_item_any [OF assms(1) x(1-3), of rest] obtain f' where f': "idle n (noted e [x]) f'"
    and rd: "reader_next (map RByte (ws @ show_item x @ rest)) f = (Ok (Some (show_item x)), map RByte rest, f')" by auto
  have d: "is_decl x \<Longrightarrow> prefix ''<?xml '' (show_item x)" by (cases x) simp_all
  have "starttls_out_loop (map RByte (ws @ show_item x @ rest)) f wr
      = starttls_out_loop (map RByte rest) f' (log_event (requests x) wr)"
    using rd x d not_decl_item [of x] header_item [of x] sink_writes_ok [OF assms(3), of "[starttls_request]"]
    by (subst starttls_out_loop.simps) (auto simp: requests_def simp del: show_item.simps map_append sink_writes.simps)
  with f' show ?thesis by blast
qed

lemma starttls_out_awaits_all:
  assumes "idle n e f" and "list_all (awaits_starttls n) xs" and "faults wr = []"
  shows "\<exists>f'. idle n (noted e (map snd xs)) f' \<and> starttls_out_loop (map RByte (show_stream xs @ rest)) f wr
      = starttls_out_loop (map RByte rest) f' (log_event (concat (map (requests \<circ> snd) xs)) wr)"
  using assms
proof (induction xs arbitrary: e f wr)
  case Nil
  then show ?case by (auto simp: show_stream_def)
next
  case (Cons p xs)
  obtain ws x where p: "p = (ws, x)" by (cases p)
  from Cons.prems p have o: "awaits_starttls n (ws, x)" by simp
  from starttls_out_awaits [OF Cons.prems(1) o Cons.prems(3), of "show_stream xs @ rest"]
  obtain f1 where f1: "idle n (noted e [x]) f1" and step: "starttls_out_loop (map RByte (show_stream (p # xs) @ rest)) f wr
      = starttls_out_loop (map RByte (show_stream xs @ rest)) f1 (log_event (requests x) wr)"
    by (auto simp: p show_stream_def simp del: noted_simps)
  from Cons.IH [OF f1, of "log_event (requests x) wr"] Cons.prems show ?case
    unfolding step by (simp add: p)
qed

lemma starttls_out_run:
  assumes "idle n e f" and "list_all (awaits_starttls n) xs" and "faults wr = []"
    and "ok_item x" and "length (show_item x) \<le> n" and "CHR ''<'' \<notin> set ws" and "prefix ''<proceed '' (show_item x)"
  shows "\<exists>f'. idle n (noted e (map snd xs @ [x])) f'
    \<and> starttls_out stream_open (map RByte (show_stream xs @ ws @ show_item x @ rest)) f wr
      = (Ok (), f', log_event ([Wrote stream_open, Flushed] @ concat (map (requests \<circ> snd) xs)) wr)"
proof -
  let ?wr = "log_event [Wrote stream_open, Flushed] wr"
  have w: "sink_writes [stream_open] wr = (Ok (), ?wr)" using sink_writes_ok [OF assms(3), of "[stream_open]"] by simp
  have "faults ?wr = []" using assms(3) by simp
  from starttls_out_awaits_all [OF assms(1,2) this, of "ws @ show_item x @ rest"] obtain f1
    where f1: "idle n (noted e (map snd xs)) f1"
      and 1: "starttls_out_loop (map RByte (show_stream xs @ ws @ show_item x @ rest)) f ?wr
        = starttls_out_loop (map RByte (ws @ show_item x @ rest)) f1 (log_event (concat (map (requests \<circ> snd) xs)) ?wr)" by blast
  from next_item_any [OF f1 assms(4-6), of rest] obtain f2 where f2: "idle n (noted e (map snd xs @ [x])) f2"
    and rd: "reader_next (map RByte (ws @ show_item x @ rest)) f1 = (Ok (Some (show_item x)), map RByte rest, f2)"
    by (auto simp: noted_snoc)
  have "\<not> prefix ''<?xml '' (show_item x)" "\<not> prefix ''<stream:stream '' (show_item x)" "\<not> prefix ''<stream:features'' (show_item x)"
    using assms(7) by (auto simp: prefix_def)
  with rd assms(7) have "starttls_out_loop (map RByte (ws @ show_item x @ rest)) f1 w2 = (Ok True, map RByte rest, f2, w2)" for w2
    by (subst starttls_out_loop.simps) (simp del: show_item.simps map_append)
  with f2 w 1 show ?thesis
    by (intro exI [of _ f2]) (simp add: starttls_out_def log_event_def del: map_append sink_writes.simps)
qed

section \<open>Properties\<close>

text \<open>The reply to a stream header without an id is the client's header with its \<open>to\<close> and
  \<open>from\<close> exchanged, in whichever order they stand, and an id put in front of its \<open>from\<close>.\<close>

theorem reply_header_exchanges:
  assumes "free_of swapped_needles a" and "free_of swapped_needles b" and "free_of swapped_needles c"
  shows "reply_header (a @ '' to='' @ b @ '' from='' @ c)
        = a @ '' id='' @ CHR 0x27 # ''xmpp-proxy'' @ CHR 0x27 # '' from='' @ b @ '' to='' @ c
      \<and> reply_header (a @ '' from='' @ b @ '' to='' @ c)
        = a @ '' to='' @ b @ '' id='' @ CHR 0x27 # ''xmpp-proxy'' @ CHR 0x27 # '' from='' @ c"
  using reply_to_from [OF assms] reply_from_to [OF assms] by (rule conjI)

lemma reply_header_exchanges_witness:
  "reply_header (''<stream:stream'' @ '' to='' @ ''\"a.b\"'' @ '' from='' @ ''\"c.d\">'')
        = ''<stream:stream'' @ '' id='' @ CHR 0x27 # ''xmpp-proxy'' @ CHR 0x27 # '' from='' @ ''\"a.b\"'' @ '' to='' @ ''\"c.d\">''
      \<and> reply_header (''<stream:stream'' @ '' from='' @ ''\"a.b\"'' @ '' to='' @ ''\"c.d\">'')
        = ''<stream:stream'' @ '' to='' @ ''\"a.b\"'' @ '' id='' @ CHR 0x27 # ''xmpp-proxy'' @ CHR 0x27 # '' from='' @ ''\"c.d\">''"
  by (rule reply_header_exchanges; code_simp)

text \<open>The STARTTLS dialogue as a server: the declarations and headers in front of the request
  are answered one by one, the request with \<open>proceed\<close>, whatever follows up to the first byte
  0x16 is dropped, and the handshake is left to the TLS library from that byte on.\<close>

theorem starttls_in_dialogue:
  assumes "idle n e f" and "list_all (opening_item n) xs" and "faults wr = []"
    and "ok_item x" and "length (show_item x) \<le> n" and "prefix ''<starttls '' (show_item x)"
    and "CHR ''<'' \<notin> set ws" and "CHR 0x16 \<notin> set junk"
  shows "\<exists>f'. starttls_in (map RByte (show_stream xs @ ws @ show_item x @ junk @ CHR 0x16 # rest)) f wr
      = (Ok (map RByte (CHR 0x16 # rest)), f',
         wr\<lparr>sent := sent wr @ concat (map (answer \<circ> snd) xs) @ [Wrote proceed, Flushed]\<rparr>)"
  using starttls_in_run [OF assms, of rest] by blast

lemma starttls_in_dialogue_witness:
  "\<exists>f'. starttls_in (map RByte (show_stream [('''', XmlDecl ''v?''), ('' '', Header (CHR ''s'', map Plain ''tream:stream to=b''))]
        @ '' '' @ show_item (Stanza (EmptyElem (CHR ''s'', map Plain ''tarttls x''))) @ '' '' @ CHR 0x16 # ''hello'')) (StanzaFilter_new 40) \<lparr>sent = [], faults = []\<rparr>
      = (Ok (map RByte (CHR 0x16 # ''hello'')), f',
         \<lparr>sent = [], faults = []\<rparr>\<lparr>sent := sent \<lparr>sent = [], faults = []\<rparr> @ concat (map (answer \<circ> snd)
           [('''', XmlDecl ''v?''), ('' '', Header (CHR ''s'', map Plain ''tream:stream to=b''))]) @ [Wrote proceed, Flushed]\<rparr>)"
  by (rule starttls_in_dialogue [OF idle_new]; code_simp)

text \<open>C15: on any input and whatever write fails, the TLS handshake as a client starts only after
  a stanza \<open>proceed\<close> has been read from the server, and all that was sent in the clear is the
  stream header and requests for STARTTLS.\<close>

theorem starttls_out_sound:
  assumes "starttls_out stream_open rd f wr = (Ok (), f', wr')"
  shows "\<exists>k rd0 f0 rd' bs. sent wr' = sent wr @ [Wrote stream_open, Flushed] @ concat (replicate k [Wrote starttls_request, Flushed])
      \<and> suffix rd0 rd \<and> reader_next rd0 f0 = (Ok (Some bs), rd', f') \<and> prefix ''<proceed '' bs"
proof -
  from assms obtain wr1 rd' where w: "sink_writes [stream_open] wr = (Ok (), wr1)"
    and l: "starttls_out_loop rd f wr1 = (Ok True, rd', f', wr')"
    by (auto simp: starttls_out_def split: prod.splits outcome.splits if_splits simp del: sink_writes.simps)
  from starttls_out_loop_proceeds [OF l] sink_writes_Ok [OF w] show ?thesis by auto
qed

lemma starttls_out_sound_witness:
  "\<exists>f' wr'. starttls_out ''<s>'' (map RByte ''<stream:features/><proceed x/>'') (StanzaFilter_new 40) \<lparr>sent = [], faults = []\<rparr>
      = (Ok (), f', wr')
    \<and> (\<exists>k rd0 f0 rd' bs. sent wr' = sent \<lparr>sent = [], faults = []\<rparr> @ [Wrote ''<s>'', Flushed] @ concat (replicate k [Wrote starttls_request, Flushed])
      \<and> suffix rd0 (map RByte ''<stream:features/><proceed x/>'') \<and> reader_next rd0 f0 = (Ok (Some bs), rd', f') \<and> prefix ''<proceed '' bs)"
proof -
  let ?r = "starttls_out ''<s>'' (map RByte ''<stream:features/><proceed x/>'') (StanzaFilter_new 40) \<lparr>sent = [], faults = []\<rparr>"
  have "fst ?r = Ok ()" by code_simp
  then have "?r = (Ok (), fst (snd ?r), snd (snd ?r))" by (metis prod.collapse)
  with starttls_out_sound [OF this] show ?thesis by blast
qed

end
