(* ===== verification/Rust_Net.thy ===== *)
theory Rust_Net
  imports Conn_Order Rust_Str "HOL-Library.Word"
begin

text \<open>
  What the program uses of the standard library to print: numbers, network addresses and
  bytes that may not be UTF-8.  The addresses are written to the log and, in the header of the
  PROXY protocol, to the backend.
\<close>

section \<open>Numbers\<close>

definition hex_digits :: bytes where
  "hex_digits = ''0123456789abcdef''"

definition digit_char :: "int \<Rightarrow> byte" where
  "digit_char d = hex_digits ! nat (d mod 16)"

function show_base :: "int \<Rightarrow> int \<Rightarrow> bytes" where
  "show_base b n = (if b < 2 \<or> n < b then [digit_char n] else show_base b (n div b) @ [digit_char (n mod b)])"
  by pat_completeness auto
termination
  by (relation "measure (\<lambda>(b, n). nat n)") (auto intro: int_div_less_self)

declare show_base.simps [simp del]

definition show_num :: "int \<Rightarrow> bytes" where
  "show_num n = show_base 10 n"

lemma digit_char_in: "digit_char d \<in> set hex_digits"
proof -
  have "nat (d mod 16) < length hex_digits" by (simp add: hex_digits_def nat_less_iff)
  then show ?thesis unfolding digit_char_def by (rule nth_mem)
qed

lemma show_base_chars: "set (show_base b n) \<subseteq> set hex_digits"
proof (induction b n rule: show_base.induct)
  case (1 b n)
  then show ?case using digit_char_in by (subst show_base.simps) auto
qed

lemma div_less_of_mult: "0 < (b :: int) \<Longrightarrow> n < b * c \<Longrightarrow> n div b < c"
proof (rule ccontr)
  assume b: "0 < b" and n: "n < b * c" and "\<not> n div b < c"
  then have "b * c \<le> b * (n div b)" by (intro mult_left_mono) simp_all
  also have "\<dots> \<le> n" using pos_mod_sign [OF b, of n] mult_div_mod_eq [of b n] by linarith
  finally show False using n by simp
qed

lemma show_base_length: "2 \<le> b \<Longrightarrow> n < b ^ k \<Longrightarrow> 0 < k \<Longrightarrow> length (show_base b n) \<le> k"
proof (induction k arbitrary: n)
  case (Suc k)
  show ?case
  proof (cases "n < b")
    case True
    then show ?thesis by (subst show_base.simps) simp
  next
    case False
    with Suc.prems have "0 < k" by (cases k) auto
    moreover have "n div b < b ^ k" using Suc.prems by (intro div_less_of_mult) simp_all
    ultimately have "length (show_base b (n div b)) \<le> k" using Suc by simp
    with False Suc.prems show ?thesis by (subst show_base.simps) simp
  qed
qed simp

section \<open>Addresses\<close>

text \<open>A port, and for version 6 the flow information and the scope.\<close>

datatype SocketAddr =
    SocketAddrV4 "32 word" "16 word"
  | SocketAddrV6 "128 word" "16 word" "32 word" "32 word"

fun sa_ip :: "SocketAddr \<Rightarrow> IpAddr" where
  "sa_ip (SocketAddrV4 a p) = V4 a"
| "sa_ip (SocketAddrV6 a p fl sc) = V6 a"

fun sa_port :: "SocketAddr \<Rightarrow> 16 word" where
  "sa_port (SocketAddrV4 a p) = p"
| "sa_port (SocketAddrV6 a p fl sc) = p"

fun sa_is_ipv4 :: "SocketAddr \<Rightarrow> bool" where
  "sa_is_ipv4 (SocketAddrV4 a p) = True"
| "sa_is_ipv4 (SocketAddrV6 a p fl sc) = False"

text \<open>The \<open>k\<close>-th group of \<open>s\<close> bits, counted from the right.\<close>

definition bit_group :: "nat \<Rightarrow> nat \<Rightarrow> int \<Rightarrow> int" where
  "bit_group s k n = n div 2 ^ (s * k) mod 2 ^ s"

fun join_with :: "bytes \<Rightarrow> bytes list \<Rightarrow> bytes" where
  "join_with sep [] = []"
| "join_with sep [x] = x"
| "join_with sep (x # y # xs) = x @ sep @ join_with sep (y # xs)"

definition show_ipv4 :: "int \<Rightarrow> bytes" where
  "show_ipv4 n = join_with ''.'' (map (\<lambda>k. show_num (bit_group 8 k n)) [3, 2, 1, 0])"

definition segments :: "128 word \<Rightarrow> int list" where
  "segments a = map (\<lambda>k. bit_group 16 k (uint a)) [7, 6, 5, 4, 3, 2, 1, 0]"

text \<open>
  The first longest run of zeros, as its start and length: the arguments are the index, the
  current run and the longest run so far.
\<close>

fun longest_zeros :: "nat \<Rightarrow> nat \<times> nat \<Rightarrow> nat \<times> nat \<Rightarrow> int list \<Rightarrow> nat \<times> nat" where
  "longest_zeros i cur longest [] = longest"
| "longest_zeros i cur longest (x # xs) =
     (if x = 0 then
        (let cur = (if snd cur = 0 then i else fst cur, snd cur + 1);
             longest = (if snd cur > snd longest then cur else longest)
         in longest_zeros (i + 1) cur longest xs)
      else longest_zeros (i + 1) (0, 0) longest xs)"

definition show_segments :: "int list \<Rightarrow> bytes" where
  "show_segments xs = join_with '':'' (map (show_base 16) xs)"

definition show_ipv6 :: "128 word \<Rightarrow> bytes" where
  "show_ipv6 a =
     (let ss = segments a in
      if take 6 ss = [0, 0, 0, 0, 0, 0xFFFF] then ''::ffff:'' @ show_ipv4 (uint a mod 2 ^ 32)
      else case longest_zeros 0 (0, 0) (0, 0) ss of (start, len) \<Rightarrow>
        if len > 1 then show_segments (take start ss) @ ''::'' @ show_segments (drop (start + len) ss)
        else show_segments ss)"

fun show_ip :: "IpAddr \<Rightarrow> bytes" where
  "show_ip (V4 a) = show_ipv4 (uint a)"
| "show_ip (V6 a) = show_ipv6 a"

fun show_SocketAddr :: "SocketAddr \<Rightarrow> bytes" where
  "show_SocketAddr (SocketAddrV4 a p) = show_ipv4 (uint a) @ '':'' @ show_num (uint p)"
| "show_SocketAddr (SocketAddrV6 a p fl sc) =
     (if sc = 0 then ''['' @ show_ipv6 a @ '']:'' @ show_num (uint p)
      else ''['' @ show_ipv6 a @ ''%'' @ show_num (uint sc) @ '']:'' @ show_num (uint p))"

section \<open>What is printed\<close>

definition addr_chars :: "bytes" where
  "addr_chars = ''0123456789abcdef.:''"

lemma join_with_chars: "set (join_with sep xs) \<subseteq> set sep \<union> (\<Union>x\<in>set xs. set x)"
  by (induction sep xs rule: join_with.induct) auto

lemma show_base_addr: "set (show_base b n) \<subseteq> set addr_chars"
proof -
  have "set hex_digits \<subseteq> set addr_chars" by code_simp
  with show_base_chars show ?thesis by (rule subset_trans)
qed

lemma show_ipv4_chars: "set (show_ipv4 n) \<subseteq> set addr_chars"
proof -
  have "set ''.'' \<subseteq> set addr_chars" by code_simp
  then show ?thesis
    using join_with_chars [of "''.''" "map (\<lambda>k. show_num (bit_group 8 k n)) [3, 2, 1, 0]"] show_base_addr
    unfolding show_ipv4_def show_num_def by fastforce
qed

lemma show_segments_chars: "set (show_segments xs) \<subseteq> set addr_chars"
proof -
  have "set '':'' \<subseteq> set addr_chars" by code_simp
  then show ?thesis
    using join_with_chars [of "'':''" "map (show_base 16) xs"] show_base_addr
    unfolding show_segments_def by fastforce
qed

lemma show_ip_chars: "set (show_ip a) \<subseteq> set addr_chars"
proof -
  have "set ''::ffff:'' \<subseteq> set addr_chars" "set ''::'' \<subseteq> set addr_chars" by code_simp+
  then show ?thesis
    using show_ipv4_chars show_segments_chars
    by (cases a) (auto simp: show_ipv6_def Let_def split: prod.splits)
qed

lemma join_with_length:
  assumes "\<forall>x\<in>set xs. length x \<le> m" and "length sep = 1"
  shows "length (join_with sep xs) \<le> (m + 1) * length xs - 1"
  using assms
proof (induction sep xs rule: join_with.induct)
  case (3 sep x y xs)
  then have "length (join_with sep (y # xs)) \<le> (m + 1) * length (y # xs) - 1" "length x \<le> m" by auto
  with 3 show ?case by simp
qed auto

lemma show_ipv4_length: "length (show_ipv4 n) \<le> 15"
proof -
  have "length (show_num (bit_group 8 k n)) \<le> 3" for k
    unfolding show_num_def by (rule show_base_length) (auto simp: bit_group_def intro: less_trans [of _ 256])
  then show ?thesis
    using join_with_length [of "map (\<lambda>k. show_num (bit_group 8 k n)) [3, 2, 1, 0]" 3 "''.''"]
    unfolding show_ipv4_def by simp
qed

lemma show_segments_length:
  assumes "\<forall>x\<in>set xs. x < 2 ^ 16"
  shows "length (show_segments xs) \<le> 5 * length xs - 1"
proof -
  have "\<forall>x\<in>set (map (show_base 16) xs). length x \<le> 4"
    using assms by (auto intro!: show_base_length)
  from join_with_length [OF this, of "'':''"] show ?thesis by (simp add: show_segments_def)
qed

lemma longest_zeros_bound:
  assumes "fst cur + snd cur \<le> i" and "fst longest + snd longest \<le> i"
  shows "fst (longest_zeros i cur longest xs) + snd (longest_zeros i cur longest xs) \<le> i + length xs"
  using assms
proof (induction xs arbitrary: i cur longest)
  case (Cons x xs)
  show ?case
  proof (cases "x = 0")
    case True
    let ?cur = "(if snd cur = 0 then i else fst cur, snd cur + 1)"
    let ?longest = "if snd ?cur > snd longest then ?cur else longest"
    have "fst ?cur + snd ?cur \<le> i + 1" "fst ?longest + snd ?longest \<le> i + 1" using Cons.prems by auto
    from Cons.IH [OF this]
    have "fst (longest_zeros (i + 1) ?cur ?longest xs) + snd (longest_zeros (i + 1) ?cur ?longest xs)
        \<le> i + length (x # xs)" by (simp only: list.size)
    moreover have "longest_zeros i cur longest (x # xs) = longest_zeros (i + 1) ?cur ?longest xs"
      using True by (simp only: longest_zeros.simps Let_def if_True simp_thms)
    ultimately show ?thesis by (simp only:)
  next
    case False
    with Cons.IH [of "(0, 0)" "i + 1" longest] Cons.prems show ?thesis by simp
  qed
qed simp

lemma segments_bound: "x \<in> set (segments a) \<Longrightarrow> x < 2 ^ 16"
  by (auto simp: segments_def bit_group_def)

lemma show_ipv6_length: "length (show_ipv6 a) \<le> 39"
proof -
  let ?ss = "segments a"
  obtain s l where z: "longest_zeros 0 (0, 0) (0, 0) ?ss = (s, l)" by (cases "longest_zeros 0 (0, 0) (0, 0) ?ss")
  have n: "length ?ss = 8" by (simp add: segments_def)
  have sl: "s + l \<le> 8" using longest_zeros_bound [of "(0, 0)" 0 "(0, 0)" ?ss] z n by simp
  have "length (show_segments (take s ?ss)) \<le> 5 * s - 1"
    using show_segments_length [of "take s ?ss"] segments_bound sl n by (auto dest: in_set_takeD)
  moreover have "length (show_segments (drop (s + l) ?ss)) \<le> 5 * (8 - (s + l)) - 1"
    using show_segments_length [of "drop (s + l) ?ss"] segments_bound n by (auto dest: in_set_dropD)
  moreover have "length (show_segments ?ss) \<le> 39"
    using show_segments_length [of ?ss] segments_bound n by auto
  moreover have "length (show_ipv4 (uint a mod 2 ^ 32)) \<le> 15" by (rule show_ipv4_length)
  ultimately show ?thesis using z sl by (auto simp: show_ipv6_def Let_def)
qed

lemma show_ip_length: "length (show_ip a) \<le> 39"
proof (cases a)
  case (V4 x)
  with show_ipv4_length [of "uint x"] show ?thesis by simp
next
  case (V6 x)
  with show_ipv6_length [of x] show ?thesis by simp
qed

lemma show_port_length: "length (show_num (uint (p :: 16 word))) \<le> 5"
proof -
  have "uint p < 2 ^ 16" using uint_lt2p [of p] by simp
  then have "uint p < 10 ^ 5" by simp
  then show ?thesis unfolding show_num_def by (intro show_base_length) simp_all
qed

section \<open>Bytes that may not be UTF-8\<close>

text \<open>
  \<open>String::from_utf8_lossy\<close>: each maximal piece that begins like a character but is none
  becomes U+FFFD.  \<open>bad_width\<close> is the length of that piece.
\<close>

definition bad_width :: "bytes \<Rightarrow> nat" where
  "bad_width s =
     (case s of
        [] \<Rightarrow> 0
      | a # r \<Rightarrow>
          (let x = (of_char a :: nat); y = (of_char (hd r) :: nat) in
           if r \<noteq> [] \<and> 0xE0 \<le> x \<and> x \<le> 0xEF \<and> conts 1 r
              \<and> (x = 0xE0 \<longrightarrow> 0xA0 \<le> y) \<and> (x = 0xED \<longrightarrow> y \<le> 0x9F) then 2
           else if r \<noteq> [] \<and> 0xF0 \<le> x \<and> x \<le> 0xF4 \<and> conts 1 r
              \<and> (x = 0xF0 \<longrightarrow> 0x90 \<le> y) \<and> (x = 0xF4 \<longrightarrow> y \<le> 0x8F)
           then (if conts 2 r then 3 else 2)
           else 1))"

function from_utf8_lossy :: "bytes \<Rightarrow> bytes" where
  "from_utf8_lossy s =
     (if s = [] then []
      else if utf8_width s = 0
      then [CHR 0xEF, CHR 0xBF, CHR 0xBD] @ from_utf8_lossy (drop (bad_width s) s)
      else take (utf8_width s) s @ from_utf8_lossy (drop (utf8_width s) s))"
  by pat_completeness auto
termination
  by (relation "measure length") (auto simp: bad_width_def Let_def split: list.splits)

declare from_utf8_lossy.simps [simp del]

text \<open>\<open>to_str\<close> of \<open>src/common/mod.rs\<close>.\<close>

definition to_str :: "bytes \<Rightarrow> bytes" where
  "to_str s = from_utf8_lossy s"

lemma from_utf8_lossy_valid: "utf8_valid s \<Longrightarrow> from_utf8_lossy s = s"
proof (induction s rule: utf8_valid.induct)
  case (1 s)
  show ?case
  proof (cases "s = []")
    case True
    then show ?thesis by (simp add: from_utf8_lossy.simps)
  next
    case False
    with 1(2) have "utf8_width s \<noteq> 0" "utf8_valid (drop (utf8_width s) s)"
      by (auto simp: utf8_valid.simps [of s] split: if_splits)
    with 1(1) False show ?thesis by (subst from_utf8_lossy.simps) simp
  qed
qed

end
