(* ===== verification/Context.thy ===== *)
theory Context
  imports Stream_Common Rust_Net
begin

text \<open>
  Model of \<open>src/context.rs\<close>: what is known of a connection, and the two prefixes of its lines in
  the log, one per direction.  \<open>logging\<close> is \<open>log_enabled!\<close> of the level info; the random
  identifier is an argument of \<open>new\<close>.
\<close>

section \<open>The operations\<close>

record Context =
  conn_id :: bytes
  log_from :: bytes
  log_to :: bytes
  proto :: bytes
  ctx_is_c2s :: "bool option"
  ctx_to :: "bytes option"
  to_addr :: "bytes option"
  ctx_from :: "bytes option"
  client_addr :: SocketAddr

definition Context_new :: "bool \<Rightarrow> bytes \<Rightarrow> bytes \<Rightarrow> SocketAddr \<Rightarrow> Context" where
  "Context_new logging rnd prt addr =
     (case (if logging
            then (rnd @ '': ('' @ show_SocketAddr addr @ '' <- ('' @ prt @ ''-unk)):'',
                  rnd @ '': ('' @ show_SocketAddr addr @ '' -> ('' @ prt @ ''-unk)):'', rnd)
            else ([], [], [])) of
        (to_log, from_log, ident) \<Rightarrow>
          \<lparr>conn_id = ident, log_from = from_log, log_to = to_log, proto = prt, ctx_is_c2s = None,
           ctx_to = None, to_addr = None, ctx_from = None, client_addr = addr\<rparr>)"

definition or_unk :: "bytes option \<Rightarrow> bytes" where
  "or_unk x = (case x of Some s \<Rightarrow> s | None \<Rightarrow> ''unk'')"

definition context_line :: "Context \<Rightarrow> bytes" where
  "context_line c =
     conn_id c @ '': ('' @ show_SocketAddr (client_addr c) @ '' ('' @ or_unk (ctx_from c) @ '') -> (''
     @ proto c @ ''-'' @ or_unk (map_option c2s (ctx_is_c2s c)) @ '') -> '' @ or_unk (to_addr c)
     @ '' ('' @ or_unk (ctx_to c) @ '')):''"

definition re_calc :: "Context \<Rightarrow> Context" where
  "re_calc c =
     (let c = c\<lparr>log_from := context_line c\<rparr>
      in c\<lparr>log_to := replace_all '' -> '' '' <- '' (log_from c)\<rparr>)"

definition set_proto :: "bool \<Rightarrow> bytes \<Rightarrow> Context \<Rightarrow> Context" where
  "set_proto logging prt c = (if logging then re_calc (c\<lparr>proto := prt, to_addr := None\<rparr>) else c)"

text \<open>An attribute of a stream header, with either quote; the apostrophe is tried first.\<close>

definition header_attr :: "bytes \<Rightarrow> bytes \<Rightarrow> bytes outcome" where
  "header_attr name stream_open =
     or_else (extract_between stream_open ('' '' @ name @ ''='' @ [CHR 0x27]) [CHR 0x27])
       (extract_between stream_open ('' '' @ name @ ''=\"'') ''\"'')"

definition set_c2s_stream_open :: "bool \<Rightarrow> bool \<Rightarrow> bytes \<Rightarrow> Context \<Rightarrow> Context" where
  "set_c2s_stream_open logging is_c2s stream_open c =
     (if logging then
        re_calc (c\<lparr>ctx_is_c2s := Some is_c2s,
          ctx_from := to_option (map_outcome to_str (header_attr ''from'' stream_open)),
          ctx_to := to_option (map_outcome to_str (header_attr ''to'' stream_open))\<rparr>)
      else c)"

definition set_to_addr :: "bool \<Rightarrow> bytes \<Rightarrow> Context \<Rightarrow> Context" where
  "set_to_addr logging addr c = (if logging then re_calc (c\<lparr>to_addr := Some addr\<rparr>) else c)"

section \<open>What they keep\<close>

text \<open>The lines are those of the fields.\<close>

definition in_step :: "Context \<Rightarrow> bool" where
  "in_step c \<longleftrightarrow> log_from c = context_line c \<and> log_to c = replace_all '' -> '' '' <- '' (context_line c)"

lemma context_line_logs [simp]:
  "context_line (c\<lparr>log_from := x\<rparr>) = context_line c" "context_line (c\<lparr>log_to := x\<rparr>) = context_line c"
  by (simp_all add: context_line_def)

lemma re_calc_fields [simp]:
  "conn_id (re_calc c) = conn_id c" "client_addr (re_calc c) = client_addr c" "in_step (re_calc c)"
  "proto (re_calc c) = proto c" "to_addr (re_calc c) = to_addr c" "ctx_from (re_calc c) = ctx_from c"
  "ctx_to (re_calc c) = ctx_to c" "ctx_is_c2s (re_calc c) = ctx_is_c2s c"
  by (simp_all add: re_calc_def in_step_def)

datatype ctx_op = SetProto bytes | SetStreamOpen bool bytes | SetToAddr bytes

fun ctx_apply :: "bool \<Rightarrow> ctx_op \<Rightarrow> Context \<Rightarrow> Context" where
  "ctx_apply logging (SetProto p) c = set_proto logging p c"
| "ctx_apply logging (SetStreamOpen k s) c = set_c2s_stream_open logging k s c"
| "ctx_apply logging (SetToAddr a) c = set_to_addr logging a c"

lemma ctx_apply_keeps [simp]:
  "client_addr (ctx_apply lg o1 c) = client_addr c" "conn_id (ctx_apply lg o1 c) = conn_id c"
  "ctx_apply False o1 c = c" "in_step (ctx_apply True o1 c)"
  by (cases o1; simp add: set_proto_def set_c2s_stream_open_def set_to_addr_def)+

lemma ctx_run_keeps:
  "client_addr (fold (ctx_apply lg) os c) = client_addr c \<and> conn_id (fold (ctx_apply lg) os c) = conn_id c"
  by (induction os arbitrary: c) simp_all

lemma or_else_Panic_iff: "or_else m k = Panic \<longleftrightarrow> m = Panic \<or> (\<exists>e. m = Err e \<and> k = Panic)"
  by (cases m) auto

lemma header_attr_no_panic: "header_attr name s \<noteq> Panic"
  by (simp add: header_attr_def or_else_Panic_iff extract_between_no_panic)

section \<open>Properties\<close>

text \<open>Whatever is learnt of a connection, its address and identifier stay, and when the level
  is on, both prefixes of its log lines show the fields as they are after the last change;
  when it is off nothing changes.\<close>

theorem context_in_step:
  assumes "os \<noteq> []"
  shows "let c = fold (ctx_apply logging) os (Context_new logging rnd prt addr) in
      client_addr c = addr
      \<and> (logging \<longrightarrow> conn_id c = rnd \<and> log_from c = context_line c
           \<and> log_to c = replace_all '' -> '' '' <- '' (context_line c))
      \<and> (\<not> logging \<longrightarrow> c = Context_new False rnd prt addr)"
proof -
  from assms obtain os' o1 where os: "os = os' @ [o1]" by (cases os rule: rev_cases) auto
  let ?c = "fold (ctx_apply logging) os (Context_new logging rnd prt addr)"
  have "\<not> logging \<Longrightarrow> ?c = Context_new False rnd prt addr" by (induction os) simp_all
  moreover have "logging \<Longrightarrow> in_step ?c" by (simp add: os)
  ultimately show ?thesis
    using ctx_run_keeps [of logging os "Context_new logging rnd prt addr"]
    by (auto simp: Let_def in_step_def Context_new_def)
qed

lemma context_in_step_witness:
  "let c = fold (ctx_apply True) [SetProto ''p'', SetToAddr ''a''] (Context_new True ''id'' ''t'' (SocketAddrV4 1 2)) in
      client_addr c = SocketAddrV4 1 2
      \<and> (True \<longrightarrow> conn_id c = ''id'' \<and> log_from c = context_line c
           \<and> log_to c = replace_all '' -> '' '' <- '' (context_line c))
      \<and> (\<not> True \<longrightarrow> c = Context_new False ''id'' ''t'' (SocketAddrV4 1 2))"
  by (rule context_in_step) simp

end
