(* ===== verification/Incoming.thy ===== *)
theory Incoming
  imports Srv_Collect Shuffle Starttls Context
begin

text \<open>
  Model of \<open>src/common/incoming.rs\<close> and of the handlers that end in it: \<open>src/tls/incoming.rs\<close>,
  \<open>src/websocket/incoming.rs\<close>, \<open>src/quic/incoming.rs\<close> and \<open>src/webtransport/incoming.rs\<close>.  A
  connection from outside is read up to its header; a server has to show a certificate that is
  valid for the domain the header names; then the backend is connected and told who is calling.

  What the handlers rely on is the record \<open>incoming_env\<close>: the world of \<open>get_xmpp_connections\<close>, the
  library that checks certificates, the digests, the time, and connecting to the backend.
\<close>

section \<open>Configuration and environment\<close>

record IncomingConfig =
  max_stanza_size_bytes :: nat
  s2s_target :: "SocketAddr SocketAddrPath option"
  c2s_target :: "SocketAddr SocketAddrPath option"
  use_proxy :: bool

record ServerCerts =
  peer_certificates :: "bytes list option"
  sni :: "bytes option"
  alpn :: "bytes option"
  is_tls :: bool

definition ServerCerts_from_tls :: "bytes list option \<Rightarrow> bytes option \<Rightarrow> bytes option \<Rightarrow> ServerCerts" where
  "ServerCerts_from_tls certs server_nm protocol =
     \<lparr>peer_certificates = certs, sni = server_nm, alpn = protocol, is_tls = True\<rparr>"

text \<open>Of a QUIC connection, the identity and the handshake data, when they have the expected type.\<close>

definition ServerCerts_from_quic ::
    "bytes list option \<Rightarrow> (bytes option \<times> bytes option) option \<Rightarrow> ServerCerts"
where
  "ServerCerts_from_quic identity handshake_data =
     (case (case handshake_data of Some h \<Rightarrow> h | None \<Rightarrow> (None, None)) of
        (server_nm, protocol) \<Rightarrow>
          \<lparr>peer_certificates = identity, sni = server_nm, alpn = protocol, is_tls = False\<rparr>)"

record ('u, 'l, 'b, 'n, 't) incoming_env =
  found :: "('u, 'l, 'b, 'n) world"
  pki :: "('n, 't) webpki"
  sha256 :: "bytes \<Rightarrow> bytes"
  sha512 :: "bytes \<Rightarrow> bytes"
  time_now :: 't
  backend :: "SocketAddr SocketAddrPath \<Rightarrow> (reader \<times> sink) outcome"
  logging :: bool

section \<open>The backend\<close>

fun show_target :: "SocketAddr SocketAddrPath \<Rightarrow> bytes" where
  "show_target (SocketAddr sa) = show_SocketAddr sa"
| "show_target (SocketPath p) = p"

definition proxy_header :: "SocketAddr \<Rightarrow> SocketAddr \<Rightarrow> bytes" where
  "proxy_header client local_addr =
     ''PROXY TCP'' @ (if sa_is_ipv4 client then ''4'' else ''6'') @ '' '' @ show_ip (sa_ip client) @ '' ''
     @ show_ip (sa_ip local_addr) @ '' '' @ show_num (uint (sa_port client)) @ '' ''
     @ show_num (uint (sa_port local_addr)) @ [CHR 0x0D, CHR 0x0A]"

text \<open>
  The header is printed into the filter's buffer, as far as it fits, and sent from there up to
  the first newline of the buffer.
\<close>

definition send_proxy_header ::
    "SocketAddr \<Rightarrow> SocketAddr \<Rightarrow> StanzaFilter \<Rightarrow> sink \<Rightarrow> unit outcome \<times> StanzaFilter \<times> sink"
where
  "send_proxy_header client local_addr f s =
     (let hdr = proxy_header client local_addr;
          f' = f\<lparr>buf := take (length (buf f)) hdr @ drop (length hdr) (buf f)\<rparr> in
      if length (buf f) < length hdr then (Err WriteZero, f', s)
      else case first_index_of (buf f') [CHR 0x0A] of
             Ok i \<Rightarrow> (case sink_write_all (take (i + 1) (buf f')) s of (r, s) \<Rightarrow> (r, f', s))
           | Err e \<Rightarrow> (Err e, f', s)
           | Panic \<Rightarrow> (Panic, f', s))"

text \<open>The last result is the sink of the backend, when it was connected.\<close>

definition open_incoming ::
    "('u, 'l, 'b, 'n, 't) incoming_env \<Rightarrow> IncomingConfig \<Rightarrow> SocketAddr \<Rightarrow> Context \<Rightarrow> bytes \<Rightarrow> bool
      \<Rightarrow> StanzaFilter \<Rightarrow> (StanzaRead \<times> StanzaWrite) outcome \<times> Context \<times> StanzaFilter \<times> sink option"
where
  "open_incoming env config local_addr ctx stream_open is_c2s f =
     (case (if is_c2s then c2s_target config else s2s_target config) of
        None \<Rightarrow> (Err (TargetNotDefined is_c2s), ctx, f, None)
      | Some tgt \<Rightarrow>
          (let ctx = set_to_addr (logging env) (show_target tgt) ctx in
           case backend env tgt of
             Ok (brd, s) \<Rightarrow>
               (case (if use_proxy config then send_proxy_header (client_addr ctx) local_addr f s
                      else (Ok (), f, s)) of
                  (Ok u, f, s) \<Rightarrow>
                    (case sink_writes [stream_open] s of
                       (Ok u, s) \<Rightarrow> (Ok (AsyncRead brd, AsyncWrite s), ctx, f, Some s)
                     | (Err e, s) \<Rightarrow> (Err e, ctx, f, Some s)
                     | (Panic, s) \<Rightarrow> (Panic, ctx, f, Some s))
                | (Err e, f, s) \<Rightarrow> (Err e, ctx, f, Some s)
                | (Panic, f, s) \<Rightarrow> (Panic, ctx, f, Some s))
           | Err e \<Rightarrow> (Err e, ctx, f, None)
           | Panic \<Rightarrow> (Panic, ctx, f, None)))"

section \<open>The session\<close>

text \<open>
  The certificate of a server: \<open>certs[0]\<close> panics when the list is empty.
\<close>

definition s2s_auth :: "('u, 'l, 'b, 'n, 't) incoming_env \<Rightarrow> ServerCerts \<Rightarrow> bytes \<Rightarrow> unit outcome" where
  "s2s_auth env certs stream_open =
     bind_ok (bind_ok (header_attr ''from'' stream_open) from_utf8) (\<lambda>domain.
     bind_ok (get_xmpp_connections (found env) domain False) (\<lambda>conns_verifier.
       case peer_certificates certs of
         None \<Rightarrow> Err (NoClientCert domain)
       | Some [] \<Rightarrow> Panic
       | Some (cert # chain) \<Rightarrow>
           verify_cert (pki env) (sha256 env) (sha512 env) (snd conns_verifier) cert chain (time_now env)))"

text \<open>
  A session that reaches the shuffle loop is the loop's start state with the kind of stream;
  \<open>shuffle_rd_wr_filter_only\<close> runs from there.
\<close>

type_synonym session = "(bool \<times> shuffle) outcome \<times> Context \<times> sink option"

definition shuffle_rd_wr_filter ::
    "('u, 'l, 'b, 'n, 't) incoming_env \<Rightarrow> IncomingConfig \<Rightarrow> ServerCerts \<Rightarrow> SocketAddr \<Rightarrow> Context
      \<Rightarrow> StanzaRead \<Rightarrow> StanzaWrite \<Rightarrow> StanzaFilter \<Rightarrow> session"
where
  "shuffle_rd_wr_filter env config certs local_addr ctx ird iwr f =
     (case stream_preamble ird iwr f of
        (Ok (stream_open, is_c2s), ird, iwr, f) \<Rightarrow>
          (let ctx = set_c2s_stream_open (logging env) is_c2s stream_open ctx in
           case (if is_c2s then Ok () else s2s_auth env certs stream_open) of
             Ok u \<Rightarrow>
               (case open_incoming env config local_addr ctx stream_open is_c2s f of
                  (Ok (ord, owr), ctx, f, s) \<Rightarrow>
                    (Ok (is_c2s, shuffle_start ird iwr ord owr (max_stanza_size_bytes config) f), ctx, s)
                | (Err e, ctx, f, s) \<Rightarrow> (Err e, ctx, s)
                | (Panic, ctx, f, s) \<Rightarrow> (Panic, ctx, s))
           | Err e \<Rightarrow> (Err e, ctx, None)
           | Panic \<Rightarrow> (Panic, ctx, None))
      | (Err e, ird, iwr, f) \<Rightarrow> (Err e, ctx, None)
      | (Panic, ird, iwr, f) \<Rightarrow> (Panic, ctx, None))"

definition shuffle_rd_wr ::
    "('u, 'l, 'b, 'n, 't) incoming_env \<Rightarrow> IncomingConfig \<Rightarrow> ServerCerts \<Rightarrow> SocketAddr \<Rightarrow> Context
      \<Rightarrow> StanzaRead \<Rightarrow> StanzaWrite \<Rightarrow> session"
where
  "shuffle_rd_wr env config certs local_addr ctx ird iwr =
     shuffle_rd_wr_filter env config certs local_addr ctx ird iwr
       (StanzaFilter_new (max_stanza_size_bytes config))"

section \<open>The handlers\<close>

text \<open>
  \<open>handle_websocket_connection\<close>: the handshake of the library is on the stream it was called with.
\<close>

definition handle_websocket_connection ::
    "('u, 'l, 'b, 'n, 't) incoming_env \<Rightarrow> ws_accept \<Rightarrow> IncomingConfig \<Rightarrow> ServerCerts
      \<Rightarrow> SocketAddr \<Rightarrow> Context \<Rightarrow> StanzaFilter \<Rightarrow> session"
where
  "handle_websocket_connection env accept_hdr config certs local_addr ctx f =
     (let ctx = set_proto (logging env) ''websocket-in'' ctx in
      case incoming_websocket_connection accept_hdr (max_stanza_size_bytes config) of
        Ok (ird, iwr) \<Rightarrow> shuffle_rd_wr_filter env config certs local_addr ctx ird iwr f
      | Err e \<Rightarrow> (Err e, ctx, None)
      | Panic \<Rightarrow> (Panic, ctx, None))"

text \<open>
  The TLS library on an unencrypted stream: the certificates, what the sniff of the decrypted
  stream sees, its bytes and its sink, and the WebSocket handshake on it.
\<close>

record tls_stream =
  tls_certs :: ServerCerts
  tls_peeks :: "fill_poll list"
  tls_reader :: reader
  tls_sink :: sink
  tls_websocket :: ws_accept

text \<open>
  \<open>handle_tls_connection\<close>; \<^const>\<open>None\<close> when a sniff is still waiting.  The sniffed bytes are
  left in the filter's buffer.
\<close>

definition after_tls ::
    "('u, 'l, 'b, 'n, 't) incoming_env \<Rightarrow> (reader \<Rightarrow> sink \<Rightarrow> tls_stream outcome) \<Rightarrow> IncomingConfig
      \<Rightarrow> SocketAddr \<Rightarrow> Context \<Rightarrow> reader \<Rightarrow> sink \<Rightarrow> StanzaFilter \<Rightarrow> session option"
where
  "after_tls env accept config local_addr ctx rd wr f =
     (case accept rd wr of
        Ok t \<Rightarrow>
          (case first_bytes_match_buf_timeout 3 (\<lambda>p. p = ''GET'') (tls_peeks t) of
             None \<Rightarrow> None
           | Some (Ok websocket) \<Rightarrow>
               Some (if websocket
                 then handle_websocket_connection env (tls_websocket t) config (tls_certs t) local_addr ctx f
                 else shuffle_rd_wr_filter env config (tls_certs t) local_addr ctx
                        (AsyncRead (tls_reader t)) (AsyncWrite (tls_sink t)) f)
           | Some (Err e) \<Rightarrow> Some (Err e, ctx, None)
           | Some Panic \<Rightarrow> Some (Panic, ctx, None))
      | Err e \<Rightarrow> Some (Err e, ctx, None)
      | Panic \<Rightarrow> Some (Panic, ctx, None))"

definition handle_tls_connection ::
    "('u, 'l, 'b, 'n, 't) incoming_env \<Rightarrow> (nat \<Rightarrow> peek_event list \<Rightarrow> bytes outcome option)
      \<Rightarrow> (reader \<Rightarrow> sink \<Rightarrow> tls_stream outcome) \<Rightarrow> IncomingConfig
      \<Rightarrow> SocketAddr \<Rightarrow> Context \<Rightarrow> peek_event list \<Rightarrow> reader \<Rightarrow> sink \<Rightarrow> session option"
where
  "handle_tls_connection env peek_bytes accept config local_addr ctx peeks rd wr =
     (let f = StanzaFilter_new (max_stanza_size_bytes config) in
      if max_stanza_size_bytes config < 3 then Some (Panic, ctx, None) else
      case peek_bytes 3 peeks of
        None \<Rightarrow> None
      | Some (Err e) \<Rightarrow> Some (Err e, ctx, None)
      | Some Panic \<Rightarrow> Some (Panic, ctx, None)
      | Some (Ok p) \<Rightarrow>
          (let f = f\<lparr>buf := p @ drop 3 (buf f)\<rparr>;
               direct_tls = is_client_hello p;
               ctx = set_proto (logging env) (if direct_tls then ''directtls-in'' else ''starttls-in'') ctx in
           if direct_tls then after_tls env accept config local_addr ctx rd wr f
           else case starttls_in rd f wr of
                  (Ok rd, f, wr) \<Rightarrow> after_tls env accept config local_addr ctx rd wr f
                | (Err e, f, wr) \<Rightarrow> Some (Err e, ctx, None)
                | (Panic, f, wr) \<Rightarrow> Some (Panic, ctx, None)))"

text \<open>
  The streams that a QUIC connection opens, until \<open>accept_bi\<close> fails: each is a session of its
  own, with the certificates of the connection.
\<close>

definition handle_quic_session ::
    "('u, 'l, 'b, 'n, 't) incoming_env \<Rightarrow> (reader \<times> sink) list \<Rightarrow> IncomingConfig \<Rightarrow> ServerCerts
      \<Rightarrow> SocketAddr \<Rightarrow> Context \<Rightarrow> session list"
where
  "handle_quic_session env streams config certs local_addr ctx =
     map (\<lambda>(rd, s). shuffle_rd_wr env config certs local_addr ctx (AsyncRead rd) (AsyncWrite s)) streams"

text \<open>The two steps of the WebTransport handshake can fail; no stream is accepted then.\<close>

definition handle_webtransport_session ::
    "('u, 'l, 'b, 'n, 't) incoming_env \<Rightarrow> unit outcome \<Rightarrow> unit outcome \<Rightarrow> (reader \<times> sink) list
      \<Rightarrow> IncomingConfig \<Rightarrow> ServerCerts \<Rightarrow> SocketAddr \<Rightarrow> Context \<Rightarrow> session list"
where
  "handle_webtransport_session env request accepted streams config certs local_addr ctx =
     (let ctx = set_proto (logging env) ''webtransport-in'' ctx in
      if is_ok request \<and> is_ok accepted
      then map (\<lambda>(rd, s). shuffle_rd_wr env config certs local_addr ctx (AsyncRead rd) (AsyncWrite s)) streams
      else [])"

text \<open>One QUIC connection: the protocol chosen in the handshake tells the two apart.\<close>

definition handle_quic_connection ::
    "('u, 'l, 'b, 'n, 't) incoming_env \<Rightarrow> bytes \<Rightarrow> unit outcome \<Rightarrow> unit outcome \<Rightarrow> (reader \<times> sink) list
      \<Rightarrow> IncomingConfig \<Rightarrow> bytes list option \<Rightarrow> (bytes option \<times> bytes option) option
      \<Rightarrow> SocketAddr \<Rightarrow> bytes \<Rightarrow> SocketAddr \<Rightarrow> session list"
where
  "handle_quic_connection env webtransport_alpn request accepted streams config identity handshake local_addr rnd remote =
     (let ctx = Context_new (logging env) rnd ''quic-in'' remote;
          certs = ServerCerts_from_quic identity handshake in
      if alpn certs = Some webtransport_alpn
      then handle_webtransport_session env request accepted streams config certs local_addr ctx
      else handle_quic_session env streams config certs local_addr ctx)"

section \<open>The header of the PROXY protocol\<close>

lemma addr_chars_plain: "CHR 0x0A \<notin> set addr_chars" "CHR '' '' \<notin> set addr_chars"
  by code_simp+

lemma show_ip_plain: "CHR 0x0A \<notin> set (show_ip a)" "CHR '' '' \<notin> set (show_ip a)"
  using show_ip_chars addr_chars_plain by blast+

lemma show_num_plain: "CHR 0x0A \<notin> set (show_num n)" "CHR '' '' \<notin> set (show_num n)"
  using show_base_addr addr_chars_plain unfolding show_num_def by blast+

text \<open>The header without the line feed that ends it.\<close>

definition proxy_line :: "SocketAddr \<Rightarrow> SocketAddr \<Rightarrow> bytes" where
  "proxy_line client local_addr = butlast (proxy_header client local_addr)"

lemma proxy_header_line:
  "proxy_header c l = proxy_line c l @ [CHR 0x0A]" "CHR 0x0A \<notin> set (proxy_line c l)"
  by (auto simp: proxy_line_def proxy_header_def show_ip_plain show_num_plain butlast_append)

lemma proxy_header_length: "length (proxy_header c l) \<le> 104"
  using show_ip_length [of "sa_ip c"] show_ip_length [of "sa_ip l"]
    show_port_length [of "sa_port c"] show_port_length [of "sa_port l"]
  by (simp add: proxy_header_def)

lemma send_proxy_header_ok:
  assumes "104 \<le> length (buf f)" and "faults s = []"
  shows "\<exists>b. length b = length (buf f) \<and> send_proxy_header c l f s
      = (Ok (), f\<lparr>buf := b\<rparr>, log_event [Wrote (proxy_header c l)] s)"
proof -
  let ?h = "proxy_header c l"
  let ?b = "?h @ drop (length ?h) (buf f)"
  have len: "length ?h \<le> length (buf f)" using proxy_header_length [of c l] assms(1) by simp
  have "first_index_of ?b [CHR 0x0A] = Ok (length (proxy_line c l))"
    unfolding proxy_header_line(1) append_assoc
    using slice_find.find_single [OF proxy_header_line(2)] by simp
  moreover have "take (length (proxy_line c l) + 1) ?b = ?h" by (simp add: proxy_header_line(1))
  ultimately have "send_proxy_header c l f s = (Ok (), f\<lparr>buf := ?b\<rparr>, log_event [Wrote ?h] s)"
    using len assms(2) by (simp add: send_proxy_header_def Let_def sink_ok del: append_assoc)
  moreover have "length ?b = length (buf f)" using len by simp
  ultimately show ?thesis by blast
qed

lemma idle_buf: "idle n e f \<Longrightarrow> length b = length (buf f) \<Longrightarrow> idle n e (f\<lparr>buf := b\<rparr>)"
  by (auto simp: idle_def serves_def filter_inv_def filter_abs_def state_inv_buf)

lemma idle_length: "idle n e f \<Longrightarrow> length (buf f) = n"
  by (simp add: idle_def serves_def filter_inv_def)

section \<open>Opening the session\<close>

definition target_of :: "IncomingConfig \<Rightarrow> bool \<Rightarrow> SocketAddr SocketAddrPath option" where
  "target_of config is_c2s = (if is_c2s then c2s_target config else s2s_target config)"

definition announcement :: "IncomingConfig \<Rightarrow> SocketAddr \<Rightarrow> SocketAddr \<Rightarrow> wr_event list" where
  "announcement config client local_addr =
     (if use_proxy config then [Wrote (proxy_header client local_addr)] else [])"

lemma set_to_addr_client [simp]: "client_addr (set_to_addr lg a c) = client_addr c"
  by (simp add: set_to_addr_def)

lemma set_stream_open_client [simp]: "client_addr (set_c2s_stream_open lg k s c) = client_addr c"
  by (simp add: set_c2s_stream_open_def)

lemma open_incoming_ok:
  assumes "target_of config is_c2s = Some tgt" and "backend env tgt = Ok (brd, bs)" and "faults bs = []"
    and "idle n e f" and "use_proxy config \<longrightarrow> 104 \<le> n"
  shows "\<exists>ctx' f'. idle n e f' \<and> client_addr ctx' = client_addr ctx \<and>
      open_incoming env config local_addr ctx stream_open is_c2s f
      = (Ok (AsyncRead brd, AsyncWrite (log_event (announcement config (client_addr ctx) local_addr @ [Wrote stream_open, Flushed]) bs)),
         ctx', f', Some (log_event (announcement config (client_addr ctx) local_addr @ [Wrote stream_open, Flushed]) bs))"
proof -
  let ?ctx = "set_to_addr (logging env) (show_target tgt) ctx"
  have "\<exists>f'. idle n e f' \<and> (if use_proxy config then send_proxy_header (client_addr ctx) local_addr f bs else (Ok (), f, bs))
      = (Ok (), f', log_event (announcement config (client_addr ctx) local_addr) bs)"
  proof (cases "use_proxy config")
    case True
    with assms have "104 \<le> length (buf f)" by (simp add: idle_length)
    from send_proxy_header_ok [OF this assms(3), of "client_addr ctx" local_addr] idle_buf [OF assms(4)] True
    show ?thesis by (auto simp: announcement_def)
  qed (use assms in \<open>simp add: announcement_def\<close>)
  then obtain f' where f': "idle n e f'" and
    p: "(if use_proxy config then send_proxy_header (client_addr ctx) local_addr f bs else (Ok (), f, bs))
      = (Ok (), f', log_event (announcement config (client_addr ctx) local_addr) bs)" by blast
  have fl: "faults (log_event (announcement config (client_addr ctx) local_addr) bs) = []" using assms(3) by simp
  have t: "(if is_c2s then c2s_target config else s2s_target config) = Some tgt"
    using assms(1) by (simp add: target_of_def)
  have "open_incoming env config local_addr ctx stream_open is_c2s f
      = (Ok (AsyncRead brd, AsyncWrite (log_event (announcement config (client_addr ctx) local_addr @ [Wrote stream_open, Flushed]) bs)),
         ?ctx, f', Some (log_event (announcement config (client_addr ctx) local_addr @ [Wrote stream_open, Flushed]) bs))"
    unfolding open_incoming_def t option.case Let_def assms(2) outcome.case prod.case set_to_addr_client p
      sink_writes_ok [OF fl]
    by simp
  moreover have "client_addr ?ctx = client_addr ctx" by simp
  ultimately show ?thesis using f' by blast
qed

text \<open>The bytes among what was written.\<close>

fun wrote :: "wr_event \<Rightarrow> bytes" where
  "wrote (Wrote bs) = bs"
| "wrote (Fed m) = []"
| "wrote Flushed = []"

definition written :: "wr_event list \<Rightarrow> bytes" where
  "written evs = concat (map wrote evs)"

lemma written_simps [simp]:
  "written [] = []" "written (e # evs) = wrote e @ written evs" "written (a @ b) = written a @ written b"
  by (simp_all add: written_def)

text \<open>A write that fails leaves a part of what was to be written.\<close>

lemma sink_write_all_part:
  "sink_write_all bs s = (r, s') \<Longrightarrow>
     \<exists>evs. sent s' = sent s @ evs \<and> prefix (written evs) bs \<and> (r = Ok () \<longrightarrow> evs = [Wrote bs])"
  by (auto simp: sink_write_all_def next_fault_def take_is_prefix split: list.splits option.splits prod.splits)

lemma sink_flush_part:
  "sink_flush s = (r, s') \<Longrightarrow> \<exists>evs. sent s' = sent s @ evs \<and> written evs = [] \<and> (r = Ok () \<longrightarrow> evs = [Flushed])"
  by (auto simp: sink_flush_def next_fault_def split: list.splits option.splits prod.splits)

lemma send_proxy_header_part:
  assumes "send_proxy_header c l f s = (r, f', s')"
  shows "\<exists>evs. sent s' = sent s @ evs \<and> prefix (written evs) (proxy_header c l) \<and> (r = Ok () \<longrightarrow> evs = [Wrote (proxy_header c l)])"
proof (cases "length (buf f) < length (proxy_header c l)")
  case True
  with assms show ?thesis by (auto simp: send_proxy_header_def Let_def)
next
  case False
  let ?h = "proxy_header c l"
  let ?b = "?h @ drop (length ?h) (buf f)"
  have "first_index_of ?b [CHR 0x0A] = Ok (length (proxy_line c l))"
    unfolding proxy_header_line(1) append_assoc
    using slice_find.find_single [OF proxy_header_line(2)] by simp
  moreover have "take (length (proxy_line c l) + 1) ?b = ?h" by (simp add: proxy_header_line(1))
  ultimately have "sink_write_all ?h s = (r, s')"
    using assms False by (simp add: send_proxy_header_def Let_def split: prod.splits)
  from sink_write_all_part [OF this] show ?thesis .
qed

text \<open>What the backend of a session is sent, and what the session goes on with.\<close>

definition backend_opened ::
    "('u, 'l, 'b, 'n, 't) incoming_env \<Rightarrow> IncomingConfig \<Rightarrow> SocketAddr \<Rightarrow> SocketAddr \<Rightarrow> bytes \<Rightarrow> bool
      \<Rightarrow> (StanzaRead \<times> StanzaWrite) outcome \<Rightarrow> sink \<Rightarrow> bool"
where
  "backend_opened env config client local_addr stream_open is_c2s r s \<longleftrightarrow>
     (\<exists>tgt brd bs evs. target_of config is_c2s = Some tgt \<and> backend env tgt = Ok (brd, bs)
        \<and> sent s = sent bs @ evs \<and> prefix (written evs) (written (announcement config client local_addr) @ stream_open)
        \<and> (case r of
              Ok io \<Rightarrow> io = (AsyncRead brd, AsyncWrite s) \<and> evs = announcement config client local_addr @ [Wrote stream_open, Flushed]
            | _ \<Rightarrow> True))"

lemma sink_writes_part:
  assumes "sink_writes [bs] s = (r, s')"
  shows "\<exists>evs. sent s' = sent s @ evs \<and> prefix (written evs) bs \<and> (r = Ok () \<longrightarrow> evs = [Wrote bs, Flushed])"
proof -
  obtain w s1 where w: "sink_write_all bs s = (w, s1)" by fastforce
  from sink_write_all_part [OF this] obtain e1 where e1: "sent s1 = sent s @ e1" "prefix (written e1) bs" "w = Ok () \<longrightarrow> e1 = [Wrote bs]"
    by blast
  show ?thesis
  proof (cases "w = Ok ()")
    case True
    with assms w have "sink_flush s1 = (r, s')" by simp
    from sink_flush_part [OF this] e1 True show ?thesis by auto
  next
    case False
    with assms w e1 show ?thesis by (cases w) auto
  qed
qed

lemma open_incoming_contact:
  assumes "open_incoming env config local_addr ctx stream_open is_c2s f = (r, ctx', f', Some s)"
  shows "backend_opened env config (client_addr ctx) local_addr stream_open is_c2s r s"
proof -
  from assms obtain tgt brd bs where t: "target_of config is_c2s = Some tgt" and b: "backend env tgt = Ok (brd, bs)"
    by (auto simp: open_incoming_def target_of_def Let_def split: option.splits outcome.splits)
  let ?ann = "announcement config (client_addr ctx) local_addr"
  obtain p f1 s1 where p: "(if use_proxy config then send_proxy_header (client_addr ctx) local_addr f bs else (Ok (), f, bs)) = (p, f1, s1)"
    by (metis prod.exhaust)
  have "\<exists>evs. sent s1 = sent bs @ evs \<and> prefix (written evs) (written ?ann) \<and> (p = Ok () \<longrightarrow> evs = ?ann)"
    using p send_proxy_header_part [of "client_addr ctx" local_addr f bs p f1 s1]
    by (auto simp: announcement_def split: if_splits)
  then obtain e1 where e1: "sent s1 = sent bs @ e1" "prefix (written e1) (written ?ann)" "p = Ok () \<longrightarrow> e1 = ?ann" by blast
  note sim = assms [unfolded open_incoming_def t [unfolded target_of_def] option.case Let_def b outcome.case prod.case set_to_addr_client p]
  show ?thesis
  proof (cases "p = Ok ()")
    case True
    obtain w s2 where w: "sink_writes [stream_open] s1 = (w, s2)" by fastforce
    from sink_writes_part [OF this] obtain e2 where e2: "sent s2 = sent s1 @ e2" "prefix (written e2) stream_open"
      "w = Ok () \<longrightarrow> e2 = [Wrote stream_open, Flushed]" by blast
    from sim True w have "s2 = s \<and> (case r of Ok io \<Rightarrow> w = Ok () \<and> io = (AsyncRead brd, AsyncWrite s) | _ \<Rightarrow> True)"
      by (cases w) (auto simp del: sink_writes.simps)
    with t b e1 e2 True show ?thesis
      unfolding backend_opened_def by (cases r) auto
  next
    case False
    with sim have "s1 = s \<and> (case r of Ok io \<Rightarrow> False | _ \<Rightarrow> True)" by (cases p) auto
    with t b e1 show ?thesis
      unfolding backend_opened_def by (cases r) (auto simp: prefix_prefix)
  qed
qed

text \<open>What it is to be a server of a domain, and what is asked of a stream header.\<close>

definition certified :: "('u, 'l, 'b, 'n, 't) incoming_env \<Rightarrow> ServerCerts \<Rightarrow> bytes \<Rightarrow> bool" where
  "certified env certs domain \<longleftrightarrow>
     (\<exists>conns v cert chain. get_xmpp_connections (found env) domain False = Ok (conns, v)
        \<and> peer_certificates certs = Some (cert # chain)
        \<and> verify_cert (pki env) (sha256 env) (sha512 env) v cert chain (time_now env) = Ok ())"

definition authenticated :: "('u, 'l, 'b, 'n, 't) incoming_env \<Rightarrow> ServerCerts \<Rightarrow> bytes \<Rightarrow> bool" where
  "authenticated env certs stream_open \<longleftrightarrow>
     (\<exists>domain. header_attr ''from'' stream_open = Ok domain \<and> utf8_valid domain \<and> certified env certs domain)"

lemma shown_cert_iff:
  "(case certs of None \<Rightarrow> Err x | Some [] \<Rightarrow> Panic | Some (cert # chain) \<Rightarrow> check cert chain) = Ok ()
     \<longleftrightarrow> (\<exists>cert chain. certs = Some (cert # chain) \<and> check cert chain = Ok ())"
  by (auto split: option.splits list.splits)

lemma from_utf8_Ok_iff: "from_utf8 s = Ok t \<longleftrightarrow> utf8_valid s \<and> t = s"
  by (auto simp: from_utf8_def)

lemma s2s_auth_iff: "s2s_auth env certs stream_open = Ok () \<longleftrightarrow> authenticated env certs stream_open"
  by (auto simp: s2s_auth_def authenticated_def certified_def outcome_simps from_utf8_Ok_iff shown_cert_iff)

text \<open>
  A session that contacted a backend: the header was read from the stream it was given, a server
  was authenticated for that header, and that header is what the backend was sent.
\<close>

definition session_of ::
    "('u, 'l, 'b, 'n, 't) incoming_env \<Rightarrow> IncomingConfig \<Rightarrow> ServerCerts \<Rightarrow> SocketAddr \<Rightarrow> SocketAddr
      \<Rightarrow> StanzaRead \<Rightarrow> StanzaWrite \<Rightarrow> StanzaFilter \<Rightarrow> (bool \<times> shuffle) outcome \<Rightarrow> sink \<Rightarrow> bool"
where
  "session_of env config certs client local_addr ird iwr f r s \<longleftrightarrow>
     (\<exists>stream_open is_c2s ird' iwr' f' f'' io. stream_preamble ird iwr f = (Ok (stream_open, is_c2s), ird', iwr', f')
        \<and> (is_c2s \<or> authenticated env certs stream_open)
        \<and> backend_opened env config client local_addr stream_open is_c2s io s
        \<and> r = map_outcome (\<lambda>(ord, owr). (is_c2s, shuffle_start ird' iwr' ord owr (max_stanza_size_bytes config) f'')) io)"

lemma session_contact:
  assumes "shuffle_rd_wr_filter env config certs local_addr ctx ird iwr f = (r, ctx', Some s)"
  shows "session_of env config certs (client_addr ctx) local_addr ird iwr f r s"
proof -
  from assms obtain stream_open is_c2s ird' iwr' f' where p: "stream_preamble ird iwr f = (Ok (stream_open, is_c2s), ird', iwr', f')"
    by (auto simp: shuffle_rd_wr_filter_def split: prod.splits outcome.splits)
  let ?ctx = "set_c2s_stream_open (logging env) is_c2s stream_open ctx"
  obtain io ctx1 f'' s1 where o: "open_incoming env config local_addr ?ctx stream_open is_c2s f' = (io, ctx1, f'', s1)"
    by (metis prod.exhaust)
  note sim = assms [unfolded shuffle_rd_wr_filter_def p Let_def prod.case outcome.case o]
  from sim have a: "is_c2s \<or> authenticated env certs stream_open"
    by (auto simp: s2s_auth_iff [symmetric] split: outcome.splits if_splits)
  from sim have "s1 = Some s" and r: "r = map_outcome (\<lambda>(ord, owr). (is_c2s, shuffle_start ird' iwr' ord owr (max_stanza_size_bytes config) f'')) io"
    by (auto split: outcome.splits if_splits prod.splits)
  with open_incoming_contact [of env config local_addr ?ctx stream_open is_c2s f' io ctx1 f'' s] o p a
  show ?thesis unfolding session_of_def by fastforce
qed


definition preamble :: "(bytes \<times> bytes) list \<Rightarrow> item \<Rightarrow> bytes" where
  "preamble ds x = concat (map (show_item \<circ> XmlDecl \<circ> snd) ds) @ show_item x"

definition decls_ok :: "nat \<Rightarrow> (bytes \<times> bytes) list \<Rightarrow> bool" where
  "decls_ok n ds \<longleftrightarrow> (\<forall>(ws, d)\<in>set ds. CHR ''<'' \<notin> set ws \<and> ok_item (XmlDecl d) \<and> length (show_item (XmlDecl d)) \<le> n)"

definition header_input :: "(bytes \<times> bytes) list \<Rightarrow> bytes \<Rightarrow> item \<Rightarrow> bytes \<Rightarrow> StanzaRead" where
  "header_input ds ws x rest = AsyncRead (map RByte (show_stream (map (apsnd XmlDecl) ds) @ ws @ show_item x @ rest))"

lemma header_read:
  assumes "idle n e f" and "ok_item x" and "is_header x" and "length (show_item x) \<le> n" and "CHR ''<'' \<notin> set ws"
    and "decls_ok n ds"
  shows "\<exists>f'. idle n 0 f' \<and> stream_preamble (header_input ds ws x rest) w f
      = (Ok (preamble ds x, declares_client (show_item x)), AsyncRead (map RByte rest), w, f')"
proof -
  have "\<not> is_decl x" using assms(3) by (cases x) simp_all
  from preamble_items [OF assms(1,2) this assms(4,5) assms(6) [unfolded decls_ok_def], of "[]" rest w]
  show ?thesis
    using assms(3) by (simp only: stream_preamble_def header_input_def preamble_def append_Nil if_True)
qed

lemma session_opens:
  assumes "idle n e f" and "ok_item x" and "is_header x" and "length (show_item x) \<le> n" and "CHR ''<'' \<notin> set ws"
    and "decls_ok n ds"
    and "declares_client (show_item x) = is_c2s" and "is_c2s \<or> authenticated env certs (preamble ds x)"
    and "target_of config is_c2s = Some tgt" and "backend env tgt = Ok (brd, bs)" and "faults bs = []"
    and "use_proxy config \<longrightarrow> 104 \<le> n"
  shows "\<exists>ctx' f' bs'. idle n 0 f'
      \<and> bs' = log_event (announcement config (client_addr ctx) local_addr @ [Wrote (preamble ds x), Flushed]) bs
      \<and> shuffle_rd_wr_filter env config certs local_addr ctx (header_input ds ws x rest) wr f
        = (Ok (is_c2s, shuffle_start (AsyncRead (map RByte rest)) wr (AsyncRead brd) (AsyncWrite bs') (max_stanza_size_bytes config) f'),
           ctx', Some bs')"
proof -
  from header_read [OF assms(1-6), of rest wr] assms(7)
  obtain f1 where f1: "idle n 0 f1" and pre: "stream_preamble (header_input ds ws x rest) wr f
      = (Ok (preamble ds x, is_c2s), AsyncRead (map RByte rest), wr, f1)" by blast
  have auth: "(if is_c2s then Ok () else s2s_auth env certs (preamble ds x)) = Ok ()"
    using assms(8) by (cases is_c2s) (simp_all add: s2s_auth_iff)
  let ?ctx = "set_c2s_stream_open (logging env) is_c2s (preamble ds x) ctx"
  from open_incoming_ok [OF assms(9-11) f1 assms(12), of ?ctx local_addr "preamble ds x"]
  show ?thesis unfolding shuffle_rd_wr_filter_def pre Let_def prod.case outcome.case auth by auto
qed

section \<open>The handlers reach a backend\<close>

lemma set_proto_client [simp]: "client_addr (set_proto lg p c) = client_addr c"
  by (simp add: set_proto_def re_calc_def)

lemma websocket_contact:
  assumes "handle_websocket_connection env hs config certs local_addr ctx f = (r, ctx', Some s)"
  shows "\<exists>ird iwr. incoming_websocket_connection hs (max_stanza_size_bytes config) = Ok (ird, iwr)
      \<and> session_of env config certs (client_addr ctx) local_addr ird iwr f r s"
  using assms session_contact [of env config certs local_addr "set_proto (logging env) ''websocket-in'' ctx" _ _ f r ctx' s]
  by (auto simp: handle_websocket_connection_def Let_def split: outcome.splits prod.splits)

text \<open>
  The stream inside an encrypted one: a WebSocket when its first bytes are \<open>GET\<close>, the stream itself
  otherwise.
\<close>

definition inside_tls :: "nat \<Rightarrow> tls_stream \<Rightarrow> StanzaRead \<Rightarrow> StanzaWrite \<Rightarrow> bool" where
  "inside_tls n t ird iwr \<longleftrightarrow>
     (\<exists>websocket. first_bytes_match_buf_timeout 3 (\<lambda>p. p = ''GET'') (tls_peeks t) = Some (Ok websocket)
        \<and> (if websocket then incoming_websocket_connection (tls_websocket t) n = Ok (ird, iwr)
           else ird = AsyncRead (tls_reader t) \<and> iwr = AsyncWrite (tls_sink t)))"

lemma after_tls_contact:
  assumes "after_tls env accept config local_addr ctx rd wr f = Some (r, ctx', Some s)"
  shows "\<exists>t ird iwr. accept rd wr = Ok t \<and> inside_tls (max_stanza_size_bytes config) t ird iwr
      \<and> session_of env config (tls_certs t) (client_addr ctx) local_addr ird iwr f r s"
proof -
  from assms obtain t w where t: "accept rd wr = Ok t"
    and g: "first_bytes_match_buf_timeout 3 (\<lambda>p. p = ''GET'') (tls_peeks t) = Some (Ok w)"
    and s: "(if w then handle_websocket_connection env (tls_websocket t) config (tls_certs t) local_addr ctx f
       else shuffle_rd_wr_filter env config (tls_certs t) local_addr ctx (AsyncRead (tls_reader t)) (AsyncWrite (tls_sink t)) f)
      = (r, ctx', Some s)"
    by (auto simp: after_tls_def split: outcome.splits option.splits)
  show ?thesis
  proof (cases w)
    case True
    with s have "handle_websocket_connection env (tls_websocket t) config (tls_certs t) local_addr ctx f = (r, ctx', Some s)" by simp
    from websocket_contact [OF this] t g True show ?thesis unfolding inside_tls_def by auto
  next
    case False
    with s have "shuffle_rd_wr_filter env config (tls_certs t) local_addr ctx (AsyncRead (tls_reader t)) (AsyncWrite (tls_sink t)) f = (r, ctx', Some s)" by simp
    from session_contact [OF this] t g False show ?thesis unfolding inside_tls_def by auto
  qed
qed

definition after_proceed :: "sink \<Rightarrow> reader \<Rightarrow> sink \<Rightarrow> bool" where
  "after_proceed wr rd' wr' \<longleftrightarrow>
     (\<exists>log rest. sent wr' = sent wr @ log @ [Wrote proceed, Flushed] \<and> rd' = RByte (CHR 0x16) # rest)"

text \<open>
  How the handshake is reached: at once after a TLS hello, else through the dialogue in the clear,
  which ends with \<open>proceed\<close>.  The filter starts with the sniffed bytes in its buffer.
\<close>

definition reaches_handshake ::
    "(nat \<Rightarrow> peek_event list \<Rightarrow> bytes outcome option) \<Rightarrow> nat \<Rightarrow> peek_event list \<Rightarrow> reader \<Rightarrow> sink
      \<Rightarrow> reader \<Rightarrow> sink \<Rightarrow> StanzaFilter \<Rightarrow> bool"
where
  "reaches_handshake peek_bytes n pks rd wr rd' wr' f \<longleftrightarrow>
     (\<exists>p f0. peek_bytes 3 pks = Some (Ok p) \<and> f0 = (StanzaFilter_new n)\<lparr>buf := p @ drop 3 (buf (StanzaFilter_new n))\<rparr>
        \<and> (if is_client_hello p then rd' = rd \<and> wr' = wr \<and> f = f0
           else starttls_in rd f0 wr = (Ok rd', f, wr') \<and> after_proceed wr rd' wr'))"

lemma tls_contact:
  assumes "handle_tls_connection env peek_bytes accept config local_addr ctx pks rd wr = Some (r, ctx', Some s)"
  shows "\<exists>rd' wr' f t ird iwr. reaches_handshake peek_bytes (max_stanza_size_bytes config) pks rd wr rd' wr' f
      \<and> accept rd' wr' = Ok t \<and> inside_tls (max_stanza_size_bytes config) t ird iwr
      \<and> session_of env config (tls_certs t) (client_addr ctx) local_addr ird iwr f r s"
proof -
  from assms obtain p where p: "peek_bytes 3 pks = Some (Ok p)"
    by (auto simp: handle_tls_connection_def Let_def split: if_splits option.splits outcome.splits)
  note sim = assms [unfolded handle_tls_connection_def p Let_def, simplified]
  let ?f = "(StanzaFilter_new (max_stanza_size_bytes config))\<lparr>buf := p @ drop 3 (buf (StanzaFilter_new (max_stanza_size_bytes config)))\<rparr>"
  show ?thesis
  proof (cases "is_client_hello p")
    case True
    with sim have "after_tls env accept config local_addr (set_proto (logging env) ''directtls-in'' ctx) rd wr ?f = Some (r, ctx', Some s)"
      by (auto split: if_splits)
    from after_tls_contact [OF this] True p show ?thesis unfolding reaches_handshake_def by fastforce
  next
    case False
    with sim obtain rd' f' wr' where st: "starttls_in rd ?f wr = (Ok rd', f', wr')"
      and a: "after_tls env accept config local_addr (set_proto (logging env) ''starttls-in'' ctx) rd' wr' f' = Some (r, ctx', Some s)"
      by (auto split: if_splits prod.splits outcome.splits)
    from starttls_in_Ok [OF st] have "after_proceed wr rd' wr'" by (simp add: after_proceed_def)
    with after_tls_contact [OF a] st False p show ?thesis unfolding reaches_handshake_def by fastforce
  qed
qed

section \<open>The attribute that is verified\<close>

lemma from_needle_borderless: "borderless ('' from='' @ [CHR 0x27])"
  by code_simp

lemma quoted_from_found:
  assumes "\<not> sublist ('' from='' @ [CHR 0x27]) p" and "CHR 0x27 \<notin> set x"
  shows "header_attr ''from'' (p @ '' a=\"'' @ '' from='' @ CHR 0x27 # x @ CHR 0x27 # q) = Ok x"
proof -
  let ?n = "'' from='' @ [CHR 0x27]"
  have "\<not> sublist ?n (p @ '' a=\"'')"
  proof
    assume "sublist ?n (p @ '' a=\"'')"
    then have "sublist (CHR '' '' # ''from='' @ [CHR 0x27]) (p @ CHR '' '' # ''a=\"'')" by simp
    from sublist_at_head [OF this] assms(1) show False by (auto simp: sublist_Cons_right)
  qed
  from find_borderless [OF from_needle_borderless this, of "x @ CHR 0x27 # q"]
  have "extract_between ((p @ '' a=\"'') @ ?n @ x @ CHR 0x27 # q) ?n [CHR 0x27] = Ok x"
    unfolding extract_between_Ok_iff using assms(2) by blast
  then show ?thesis by (simp add: header_attr_def)
qed

section \<open>Properties\<close>

text \<open>C4: a backend is contacted for a TCP connection only after a TLS handshake, which itself
  started on a TLS hello or after \<open>proceed\<close> was sent; only for a header that was read from the
  stream inside that TLS, through the filter the dialogue in the clear left; only when the
  configuration has a backend for this kind of stream; and for a server only when the certificate
  it showed in that handshake was verified for the domain that this header names.  What the
  backend was sent is the PROXY header, when configured, and this header, or a part of them when a
  write failed; a session that opens goes on with the rest of that stream and this backend.\<close>

theorem backend_needs_verified_peer:
  assumes "handle_tls_connection env peek_bytes accept config local_addr ctx pks rd wr = Some (r, ctx', Some s)"
  shows "\<exists>rd' wr' f t ird iwr stream_open is_c2s ird' iwr' f' f'' io.
      reaches_handshake peek_bytes (max_stanza_size_bytes config) pks rd wr rd' wr' f
      \<and> accept rd' wr' = Ok t \<and> inside_tls (max_stanza_size_bytes config) t ird iwr
      \<and> stream_preamble ird iwr f = (Ok (stream_open, is_c2s), ird', iwr', f')
      \<and> (is_c2s \<or> authenticated env (tls_certs t) stream_open)
      \<and> backend_opened env config (client_addr ctx) local_addr stream_open is_c2s io s
      \<and> r = map_outcome (\<lambda>(ord, owr). (is_c2s, shuffle_start ird' iwr' ord owr (max_stanza_size_bytes config) f'')) io"
  using tls_contact [OF assms] unfolding session_of_def by blast

text \<open>A session with a well-formed header, of a client or of a verified server, connects the
  backend of its kind, writes to it the PROXY header, when configured, and the declarations
  and header just as they came, flushes, and enters the shuffle loop with everything after
  the header still to be read.  104 bytes of buffer are enough for any PROXY header.\<close>

theorem session_announces_client:
  assumes "idle n 0 f" and "ok_item x" and "is_header x" and "length (show_item x) \<le> n" and "CHR ''<'' \<notin> set ws"
    and "decls_ok n ds"
    and "declares_client (show_item x) = is_c2s" and "is_c2s \<or> authenticated env certs (preamble ds x)"
    and "target_of config is_c2s = Some tgt" and "backend env tgt = Ok (brd, bs)" and "faults bs = []"
    and "use_proxy config \<longrightarrow> 104 \<le> n"
  shows "\<exists>ctx' f' bs'. idle n 0 f'
      \<and> sent bs' = sent bs @ announcement config (client_addr ctx) local_addr @ [Wrote (preamble ds x), Flushed]
      \<and> shuffle_rd_wr_filter env config certs local_addr ctx (header_input ds ws x rest) wr f
        = (Ok (is_c2s, shuffle_start (AsyncRead (map RByte rest)) wr (AsyncRead brd) (AsyncWrite bs') (max_stanza_size_bytes config) f'),
           ctx', Some bs')"
  using session_opens [OF assms, of ctx local_addr rest wr] by auto

text \<open>A header whose attribute \<open>a\<close> has a quoted \<open>from\<close> in its value.\<close>

definition spoofed :: "bytes \<Rightarrow> bytes \<Rightarrow> piece list \<Rightarrow> piece list \<Rightarrow> item" where
  "spoofed own victim ps qs = Header (CHR ''s'', ps @ map Plain '' a='' @ [Quoted True ('' from='' @ CHR 0x27 # own @ [CHR 0x27])]
     @ map Plain '' from='' @ [Quoted True victim] @ qs)"

lemma spoofed_from:
  assumes "\<not> sublist ('' from='' @ [CHR 0x27]) (CHR ''<'' # show_tag (CHR ''s'', ps))" and "CHR 0x27 \<notin> set own"
  shows "header_attr ''from'' (show_item (spoofed own victim ps qs)) = Ok own"
  using quoted_from_found [OF assms, of "CHR 0x22 # '' from='' @ CHR 0x22 # victim @ CHR 0x22 # concat (map show_piece qs) @ ''>''"]
  by (simp add: spoofed_def quote_def show_tag_def)

text \<open>C36: the domain that is verified is what follows the first \<open>from=\<close> with an apostrophe in the
  bytes of the header, even inside the value of another attribute: a peer with a certificate
  for its own domain passes the check with a header whose \<open>from\<close> attribute is another domain,
  the session opens, and the backend is sent that header as it is.\<close>

theorem s2s_from_spoofed:
  assumes "idle n 0 f" and "ok_item (spoofed own victim ps qs)" and "length (show_item (spoofed own victim ps qs)) \<le> n"
    and "\<not> sublist ('' from='' @ [CHR 0x27]) (CHR ''<'' # show_tag (CHR ''s'', ps))" and "CHR 0x27 \<notin> set own"
    and "utf8_valid own" and "certified env certs own"
    and "\<not> declares_client (show_item (spoofed own victim ps qs))"
    and "s2s_target config = Some tgt" and "backend env tgt = Ok (brd, bs)" and "faults bs = []"
    and "use_proxy config \<longrightarrow> 104 \<le> n"
  shows "s2s_auth env certs (show_item (spoofed own victim ps qs)) = Ok ()
    \<and> (\<exists>ctx' f' bs'. idle n 0 f'
      \<and> sent bs' = sent bs @ announcement config (client_addr ctx) local_addr @ [Wrote (show_item (spoofed own victim ps qs)), Flushed]
      \<and> shuffle_rd_wr_filter env config certs local_addr ctx (AsyncRead (map RByte (show_item (spoofed own victim ps qs) @ rest))) wr f
        = (Ok (False, shuffle_start (AsyncRead (map RByte rest)) wr (AsyncRead brd) (AsyncWrite bs') (max_stanza_size_bytes config) f'),
           ctx', Some bs'))"
proof -
  let ?x = "spoofed own victim ps qs"
  from spoofed_from [OF assms(4,5), of victim qs] assms(6,7) have a: "authenticated env certs (show_item ?x)"
    by (auto simp: authenticated_def)
  have h: "is_header ?x" "preamble [] ?x = show_item ?x" "decls_ok n []" "header_input [] [] ?x rest = AsyncRead (map RByte (show_item ?x @ rest))"
    by (simp_all add: spoofed_def preamble_def decls_ok_def header_input_def show_stream_def)
  from session_opens [OF assms(1,2) h(1) assms(3) _ h(3) _ _ _ assms(10-12), where ws = "[]" and is_c2s = False and certs = certs
      and ctx = ctx and local_addr = local_addr and rest = rest and wr = wr] a assms(8,9)
  show ?thesis by (auto simp: s2s_auth_iff h target_of_def)
qed

text \<open>An environment with one backend, where every certificate is good for every name.\<close>

definition example_env :: "(bytes, bytes, bytes, bytes, unit) incoming_env" where
  "example_env =
     \<lparr>found = example_world,
      pki = \<lparr>ee_try_from = (\<lambda>c. Inr ()), verify_for_usage = (\<lambda>c i t. Inr ()),
             valid_for_subject_name = (\<lambda>c n. n = c), spki_of_trusted_cert = (\<lambda>c. Inr c)\<rparr>,
      sha256 = id, sha512 = id, time_now = (), backend = (\<lambda>t. Ok ([], no_sink)), logging = False\<rparr>"

definition example_config :: IncomingConfig where
  "example_config =
     \<lparr>max_stanza_size_bytes = 120, s2s_target = None, c2s_target = Some (SocketPath ''/c''), use_proxy = True\<rparr>"

definition example_certs :: ServerCerts where
  "example_certs = ServerCerts_from_tls (Some [''a'']) None None"

definition example_s2s :: IncomingConfig where
  "example_s2s = example_config\<lparr>s2s_target := Some (SocketPath ''/s'')\<rparr>"

definition spoofed_ctx :: Context where
  "spoofed_ctx = Context_new False [] ''tcp-in'' (SocketAddrV4 0x7f000001 5269)"

lemma s2s_from_spoofed_witness:
  "s2s_auth example_env example_certs (show_item (spoofed ''a'' ''b'' (map Plain ''tream:stream'') [])) = Ok ()
    \<and> (\<exists>ctx' f' bs'. idle 120 0 f'
      \<and> sent bs' = sent no_sink @ announcement example_s2s (client_addr spoofed_ctx) (SocketAddrV4 1 2)
          @ [Wrote (show_item (spoofed ''a'' ''b'' (map Plain ''tream:stream'') [])), Flushed]
      \<and> shuffle_rd_wr_filter example_env example_s2s example_certs (SocketAddrV4 1 2) spoofed_ctx
          (AsyncRead (map RByte (show_item (spoofed ''a'' ''b'' (map Plain ''tream:stream'') []) @ ''<x/>''))) (AsyncWrite no_sink) (StanzaFilter_new 120)
        = (Ok (False, shuffle_start (AsyncRead (map RByte ''<x/>'')) (AsyncWrite no_sink) (AsyncRead []) (AsyncWrite bs') (max_stanza_size_bytes example_s2s) f'),
           ctx', Some bs'))"
proof (rule s2s_from_spoofed [OF idle_new])
  have "s2s_auth example_env example_certs (''<s from='' @ CHR 0x27 # ''a'' @ CHR 0x27 # ''>'') = Ok ()" by code_simp
  moreover have "header_attr ''from'' (''<s from='' @ CHR 0x27 # ''a'' @ CHR 0x27 # ''>'') = Ok ''a''" by code_simp
  ultimately show "certified example_env example_certs ''a''" by (simp add: s2s_auth_iff authenticated_def)
  show "s2s_target example_s2s = Some (SocketPath ''/s'')" by (simp add: example_s2s_def)
  show "backend example_env (SocketPath ''/s'') = Ok ([], no_sink)" by (simp add: example_env_def)
qed code_simp+


definition example_header :: item where
  "example_header = Header (CHR ''s'', map Plain ''tream:stream xmlns='' @ [Quoted True ''jabber:client''])"

definition example_ctx :: Context where
  "example_ctx = Context_new False [] ''tcp-in'' (SocketAddrV4 0x7f000001 5222)"

definition example_accept :: "reader \<Rightarrow> sink \<Rightarrow> tls_stream outcome" where
  "example_accept rd wr =
     Ok \<lparr>tls_certs = example_certs, tls_peeks = [Filled 0 ''<str''],
         tls_reader = map RByte (show_item example_header), tls_sink = no_sink, tls_websocket = (\<lambda>r c. Err IoError)\<rparr>"

lemma session_announces_client_witness:
  "\<exists>ctx' f' bs'. idle 120 0 f'
      \<and> sent bs' = sent no_sink @ announcement example_config (client_addr example_ctx) (SocketAddrV4 1 2) @ [Wrote (preamble [([], ''v?'')] example_header), Flushed]
      \<and> shuffle_rd_wr_filter example_env example_config example_certs (SocketAddrV4 1 2) example_ctx
          (header_input [([], ''v?'')] '' '' example_header ''<a/>'') (AsyncWrite no_sink) (StanzaFilter_new 120)
        = (Ok (True, shuffle_start (AsyncRead (map RByte ''<a/>'')) (AsyncWrite no_sink) (AsyncRead []) (AsyncWrite bs') (max_stanza_size_bytes example_config) f'),
           ctx', Some bs')"
  by (rule session_announces_client [OF idle_new, where tgt = "SocketPath ''/c''"])
    (((rule disjI1, rule TrueI) | (simp add: target_of_def example_config_def example_env_def decls_ok_def; fail)) | code_simp)+

lemma backend_needs_verified_peer_witness:
  "\<exists>r s rd' wr' f t ird iwr stream_open is_c2s ird' iwr' f' f'' io.
      reaches_handshake tcp_peek_bytes 120 [Peeked [CHR 0x16, CHR 0x03, CHR 0x01] False] [] no_sink rd' wr' f
      \<and> example_accept rd' wr' = Ok t \<and> inside_tls 120 t ird iwr
      \<and> stream_preamble ird iwr f = (Ok (stream_open, is_c2s), ird', iwr', f')
      \<and> (is_c2s \<or> authenticated example_env (tls_certs t) stream_open)
      \<and> backend_opened example_env example_config (client_addr example_ctx) (SocketAddrV4 1 2) stream_open is_c2s io s
      \<and> r = map_outcome (\<lambda>(ord, owr). (is_c2s, shuffle_start ird' iwr' ord owr 120 f'')) io"
proof -
  let ?r = "handle_tls_connection example_env tcp_peek_bytes example_accept example_config (SocketAddrV4 1 2) example_ctx
      [Peeked [CHR 0x16, CHR 0x03, CHR 0x01] False] [] no_sink"
  have "map_option (\<lambda>(r, c, s). s \<noteq> None) ?r = Some True" by code_simp
  then obtain r c s where r: "?r = Some (r, c, Some s)" by auto
  have "max_stanza_size_bytes example_config = 120" by (simp add: example_config_def)
  with backend_needs_verified_peer [OF r] show ?thesis by metis
qed

end
