(* ===== verification/Quic_Suite.thy ===== *)
theory Quic_Suite
  imports Prelude "HOL-Library.Word"
begin

text \<open>
  Model of \<open>initial_suite_from_provider\<close> of \<open>src/quic/mod.rs\<close>: the cipher suite for the first packets
  of a QUIC connection, searched among those of the process-wide provider of cryptography.

  Of a cipher suite the code looks at its number and, when it is one of TLS 1.3, at the suite for
  QUIC it may have; suites for QUIC are named by bytes.
\<close>

record CipherSuite =
  cs_suite :: "16 word"
  cs_tls13 :: "bytes option option"

text \<open>The number of \<open>TLS13_AES_128_GCM_SHA256\<close>.\<close>

definition tls13_aes_128_gcm_sha256 :: "16 word" where
  "tls13_aes_128_gcm_sha256 = 0x1301"

text \<open>The closure given to \<open>find_map\<close>, and \<open>find_map\<close>.\<close>

definition quic_suite_of :: "CipherSuite \<Rightarrow> bytes option" where
  "quic_suite_of cs =
     (case cs_tls13 cs of
        Some suite \<Rightarrow> if cs_suite cs = tls13_aes_128_gcm_sha256 then suite else None
      | None \<Rightarrow> None)"

fun find_map :: "('a \<Rightarrow> 'b option) \<Rightarrow> 'a list \<Rightarrow> 'b option" where
  "find_map f [] = None"
| "find_map f (x # xs) = (case f x of Some y \<Rightarrow> Some y | None \<Rightarrow> find_map f xs)"

definition initial_suite_from_provider :: "CipherSuite list option \<Rightarrow> bytes outcome" where
  "initial_suite_from_provider provider =
     (case provider of
        None \<Rightarrow> Err NoDefaultProvider
      | Some suites \<Rightarrow> (case find_map quic_suite_of suites of Some q \<Rightarrow> Ok q | None \<Rightarrow> Err NoQuicSuite))"

lemma find_map_skip [simp]: "\<forall>a\<in>set as. f a = None \<Longrightarrow> find_map f (as @ xs) = find_map f xs"
  by (induction as) simp_all

lemma find_map_SomeD: "find_map f xs = Some y \<Longrightarrow> \<exists>as x bs. xs = as @ x # bs \<and> f x = Some y \<and> (\<forall>a\<in>set as. f a = None)"
proof (induction xs)
  case (Cons z zs)
  show ?case
  proof (cases "f z")
    case None
    with Cons obtain as x bs where "zs = as @ x # bs" "f x = Some y" "\<forall>a\<in>set as. f a = None" by auto
    with None show ?thesis by (intro exI [of _ "z # as"]) simp
  next
    case (Some w)
    with Cons.prems show ?thesis by (intro exI [of _ "[]"]) simp
  qed
qed simp

text \<open>The suite is the first one of the provider that fits.\<close>

lemma quic_suite_of_Some:
  "quic_suite_of cs = Some q \<longleftrightarrow> cs_suite cs = tls13_aes_128_gcm_sha256 \<and> cs_tls13 cs = Some (Some q)"
  by (auto simp: quic_suite_of_def split: option.splits)

lemma initial_suite_Ok:
  "initial_suite_from_provider p = Ok q \<longleftrightarrow>
     (\<exists>as cs bs. p = Some (as @ cs # bs) \<and> cs_suite cs = tls13_aes_128_gcm_sha256 \<and> cs_tls13 cs = Some (Some q)
        \<and> (\<forall>c\<in>set as. quic_suite_of c = None))" (is "?l \<longleftrightarrow> ?r")
proof
  assume ?l
  then obtain suites where "p = Some suites" "find_map quic_suite_of suites = Some q"
    by (auto simp: initial_suite_from_provider_def split: option.splits)
  with find_map_SomeD [OF this(2)] show ?r by (auto simp: quic_suite_of_Some)
next
  assume ?r
  then obtain as cs bs where "p = Some (as @ cs # bs)" "quic_suite_of cs = Some q" "\<forall>c\<in>set as. quic_suite_of c = None"
    unfolding quic_suite_of_Some by blast
  then show ?l by (simp add: initial_suite_from_provider_def)
qed

end
