(* ===== verification/Outgoing.thy ===== *)
theory Outgoing
  imports Incoming Quic_Suite
begin

text \<open>
  Model of the outgoing side: \<open>src/outgoing.rs\<close>, \<open>srv_connect\<close> and \<open>XmppConnection::connect\<close> of
  \<open>src/srv.rs\<close>, \<open>src/common/outgoing.rs\<close>, and the connectors of \<open>src/tls/outgoing.rs\<close>.  A local
  client or server is read up to its header, the servers of the domain it names are tried in
  order until one answers with a header, and the answer is passed back.

  What a connection to the network gives is the record \<open>net\<close>: the unencrypted stream of an
  address, and for each kind of connection what the library's handshake returns, given the
  TLS configuration, the name to verify and the address.
\<close>

section \<open>Configuration and network\<close>

text \<open>
  The TLS configuration of an attempt: who checks the certificate, whether the proxy's own
  certificate is offered, and the protocols.
\<close>

record 'n ClientConfig =
  verifier :: "'n XmppServerCertVerifier"
  client_cert :: bool
  alpn_protocols :: "bytes list"

record 'n OutgoingVerifierConfig =
  verifier_max_stanza_size_bytes :: nat
  config_alpn :: "'n ClientConfig"
  connector :: "'n ClientConfig"

definition alpn_xmpp_client :: bytes where
  "alpn_xmpp_client = ''xmpp-client''"

definition alpn_xmpp_server :: bytes where
  "alpn_xmpp_server = ''xmpp-server''"

definition with_custom_certificate_verifier ::
    "nat \<Rightarrow> bool \<Rightarrow> 'n XmppServerCertVerifier \<Rightarrow> 'n OutgoingVerifierConfig"
where
  "with_custom_certificate_verifier max_size is_c2s cert_verifier =
     (let config = \<lparr>verifier = cert_verifier, client_cert = \<not> is_c2s, alpn_protocols = []\<rparr>;
          with_alpn = config\<lparr>alpn_protocols :=
            alpn_protocols config @ [if is_c2s then alpn_xmpp_client else alpn_xmpp_server]\<rparr>
      in \<lparr>verifier_max_stanza_size_bytes = max_size, config_alpn = with_alpn, connector = config\<rparr>)"

type_synonym io = "StanzaWrite \<times> StanzaRead"

record ('u, 'l, 'b, 'n) net =
  net_world :: "('u, 'l, 'b, 'n) world"
  lookup_ip :: "bytes \<Rightarrow> IpAddr list outcome"
  tcp_connect :: "SocketAddr \<Rightarrow> (reader \<times> sink) outcome"
  tls_handshake :: "'n ClientConfig \<Rightarrow> 'n \<Rightarrow> SocketAddr \<Rightarrow> (reader \<times> sink) outcome"
  into_client_request :: "'u \<Rightarrow> headers outcome"
  header_value :: "bytes \<Rightarrow> bytes outcome"
  ws_client :: "'u \<Rightarrow> headers \<Rightarrow> WebSocketConfig \<Rightarrow> reader \<times> sink \<Rightarrow> (ws_event list \<times> sink) outcome"
  provider :: "CipherSuite list option"
  client_endpoint :: "'n ClientConfig \<Rightarrow> bytes \<Rightarrow> unit outcome"
  wt_alpn :: bytes
  quic_open :: "'n ClientConfig \<Rightarrow> bytes \<Rightarrow> SocketAddr \<Rightarrow> (reader \<times> sink) outcome"
  wt_open :: "'n ClientConfig \<Rightarrow> bytes \<Rightarrow> SocketAddr \<Rightarrow> 'l \<Rightarrow> (reader \<times> sink) outcome"
  net_logging :: bool
  net_tracing :: bool

section \<open>The connectors\<close>

definition byte_io :: "reader \<times> sink \<Rightarrow> io" where
  "byte_io p = (AsyncWrite (snd p), AsyncRead (fst p))"

definition tls_connect ::
    "('u, 'l, 'b, 'n) net \<Rightarrow> SocketAddr \<Rightarrow> bytes \<Rightarrow> 'n OutgoingVerifierConfig \<Rightarrow> io outcome"
where
  "tls_connect net addr nm config =
     bind_ok (server_name (net_world net) nm) (\<lambda>dnsname.
     bind_ok (tcp_connect net addr) (\<lambda>stream.
     map_outcome byte_io (tls_handshake net (config_alpn config) dnsname addr)))"

definition starttls_connect ::
    "('u, 'l, 'b, 'n) net \<Rightarrow> SocketAddr \<Rightarrow> bytes \<Rightarrow> bytes \<Rightarrow> StanzaFilter \<Rightarrow> 'n OutgoingVerifierConfig
      \<Rightarrow> io outcome \<times> StanzaFilter"
where
  "starttls_connect net addr nm stream_open f config =
     (case server_name (net_world net) nm of
        Ok dnsname \<Rightarrow>
          (case tcp_connect net addr of
             Ok (rd, s) \<Rightarrow>
               (case starttls_out stream_open rd f s of
                  (Ok u, f, s) \<Rightarrow> (map_outcome byte_io (tls_handshake net (connector config) dnsname addr), f)
                | (Err e, f, s) \<Rightarrow> (Err e, f)
                | (Panic, f, s) \<Rightarrow> (Panic, f))
           | Err e \<Rightarrow> (Err e, f)
           | Panic \<Rightarrow> (Panic, f))
      | Err e \<Rightarrow> (Err e, f)
      | Panic \<Rightarrow> (Panic, f))"

definition websocket_connect ::
    "('u, 'l, 'b, 'n) net \<Rightarrow> SocketAddr \<Rightarrow> bytes \<Rightarrow> 'u \<Rightarrow> bytes \<Rightarrow> 'n OutgoingVerifierConfig \<Rightarrow> io outcome"
where
  "websocket_connect net addr nm url origin config =
     bind_ok (into_client_request net url) (\<lambda>request.
     bind_ok (header_value net origin) (\<lambda>origin_value.
     let request = request @ [(''sec-websocket-protocol'', ''xmpp''), (''origin'', origin_value)] in
     bind_ok (server_name (net_world net) nm) (\<lambda>dnsname.
     bind_ok (tcp_connect net addr) (\<lambda>stream.
     bind_ok (tls_handshake net (connector config) dnsname addr) (\<lambda>stream.
     map_outcome (\<lambda>(msgs, s). (WebSocketClientWrite s, WebSocketRead msgs))
       (ws_client net url request (ws_cfg (verifier_max_stanza_size_bytes config)) stream))))))"

text \<open>
  The endpoint is made once for a configuration and kept, error or not; making it again would give
  the same.  That of WebTransport has the protocol of HTTP/3 instead of that of XMPP.
\<close>

definition quic_endpoint :: "('u, 'l, 'b, 'n) net \<Rightarrow> 'n OutgoingVerifierConfig \<Rightarrow> 'n ClientConfig outcome" where
  "quic_endpoint net config =
     bind_ok (initial_suite_from_provider (provider net)) (\<lambda>suite.
     map_outcome (\<lambda>u. config_alpn config) (client_endpoint net (config_alpn config) suite))"

definition webtransport_endpoint :: "('u, 'l, 'b, 'n) net \<Rightarrow> 'n OutgoingVerifierConfig \<Rightarrow> 'n ClientConfig outcome" where
  "webtransport_endpoint net config =
     (let client_cfg = (config_alpn config)\<lparr>alpn_protocols := [wt_alpn net]\<rparr> in
      bind_ok (initial_suite_from_provider (provider net)) (\<lambda>suite.
      map_outcome (\<lambda>u. client_cfg) (client_endpoint net client_cfg suite)))"

definition quic_connect ::
    "('u, 'l, 'b, 'n) net \<Rightarrow> SocketAddr \<Rightarrow> bytes \<Rightarrow> 'n OutgoingVerifierConfig \<Rightarrow> io outcome"
where
  "quic_connect net addr nm config =
     bind_ok (quic_endpoint net config) (\<lambda>client_cfg. map_outcome byte_io (quic_open net client_cfg nm addr))"

definition webtransport_connect ::
    "('u, 'l, 'b, 'n) net \<Rightarrow> SocketAddr \<Rightarrow> bytes \<Rightarrow> 'l \<Rightarrow> 'n OutgoingVerifierConfig \<Rightarrow> io outcome"
where
  "webtransport_connect net addr nm url config =
     bind_ok (webtransport_endpoint net config) (\<lambda>client_cfg. map_outcome byte_io (wt_open net client_cfg nm addr url))"

section \<open>One connection\<close>

fun socket_addr :: "IpAddr \<Rightarrow> 16 word \<Rightarrow> SocketAddr" where
  "socket_addr (V4 a) p = SocketAddrV4 a p"
| "socket_addr (V6 a) p = SocketAddrV6 a p 0 0"

text \<open>
  One address.  For the two kinds over HTTPS a secure connection is tried a second time under
  the name of the domain, when that differs from its target.
\<close>

definition try_ip ::
    "('u, 'l, 'b, 'n) net \<Rightarrow> ('u, 'l) XmppConnection \<Rightarrow> bytes \<Rightarrow> bytes \<Rightarrow> StanzaFilter
      \<Rightarrow> 'n OutgoingVerifierConfig \<Rightarrow> SocketAddr \<Rightarrow> (io \<times> bytes) outcome \<times> StanzaFilter"
where
  "try_ip net c orig_domain stream_open f config addr =
     (let domain = if secure c then target c else orig_domain in
      case conn_type c of
        StartTLS \<Rightarrow>
          (case starttls_connect net addr domain stream_open f config of
             (r, f) \<Rightarrow> (map_outcome (\<lambda>s. (s, ''starttls-out'')) r, f))
      | DirectTLS \<Rightarrow> (map_outcome (\<lambda>s. (s, ''directtls-out'')) (tls_connect net addr domain config), f)
      | QUIC \<Rightarrow> (map_outcome (\<lambda>s. (s, ''quic-out'')) (quic_connect net addr domain config), f)
      | WebSocket url origin \<Rightarrow>
          (map_outcome (\<lambda>s. (s, ''websocket-out''))
             (case websocket_connect net addr domain url origin config of
                Err e \<Rightarrow>
                  (if secure c \<and> target c \<noteq> orig_domain
                   then websocket_connect net addr orig_domain url origin config else Err e)
              | r \<Rightarrow> r), f)
      | WebTransport url \<Rightarrow>
          (map_outcome (\<lambda>s. (s, ''webtransport-out''))
             (case webtransport_connect net addr domain url config of
                Err e \<Rightarrow>
                  (if secure c \<and> target c \<noteq> orig_domain
                   then webtransport_connect net addr orig_domain url config else Err e)
              | r \<Rightarrow> r), f))"

fun try_ips ::
    "('u, 'l, 'b, 'n) net \<Rightarrow> ('u, 'l) XmppConnection \<Rightarrow> bytes \<Rightarrow> bytes \<Rightarrow> StanzaFilter
      \<Rightarrow> 'n OutgoingVerifierConfig \<Rightarrow> IpAddr list \<Rightarrow> (io \<times> SocketAddr \<times> bytes) outcome \<times> StanzaFilter"
where
  "try_ips net c domain stream_open f config [] = (Err (CannotConnect (target c)), f)"
| "try_ips net c domain stream_open f config (ip # is) =
     (let addr = socket_addr ip (port c) in
      case try_ip net c domain stream_open f config addr of
        (Ok (s, prt), f) \<Rightarrow> (Ok (s, addr, prt), f)
      | (Err e, f) \<Rightarrow> try_ips net c domain stream_open f config is
      | (Panic, f) \<Rightarrow> (Panic, f))"

definition ips_of :: "('u, 'l, 'b, 'n) net \<Rightarrow> ('u, 'l) XmppConnection \<Rightarrow> IpAddr list outcome" where
  "ips_of net c = (if ips c = [] then lookup_ip net (target c) else Ok (ips c))"

definition conn_connect ::
    "('u, 'l, 'b, 'n) net \<Rightarrow> ('u, 'l) XmppConnection \<Rightarrow> bytes \<Rightarrow> bytes \<Rightarrow> StanzaFilter
      \<Rightarrow> 'n OutgoingVerifierConfig \<Rightarrow> (io \<times> SocketAddr \<times> bytes) outcome \<times> StanzaFilter"
where
  "conn_connect net c domain stream_open f config =
     (case ips_of net c of
        Ok is \<Rightarrow> try_ips net c domain stream_open f config is
      | Err e \<Rightarrow> (Err e, f)
      | Panic \<Rightarrow> (Panic, f))"

section \<open>All connections of a domain\<close>

text \<open>
  An error of a write returns; a bad answer goes on to the next record.  The filter goes
  through all attempts.
\<close>

type_synonym connected = "(io \<times> bytes) outcome \<times> StanzaFilter \<times> Context"

fun srv_connect_loop ::
    "('u, 'l, 'b, 'n) net \<Rightarrow> bytes \<Rightarrow> bool \<Rightarrow> bytes \<Rightarrow> 'n OutgoingVerifierConfig
      \<Rightarrow> ('u, 'l) XmppConnection list \<Rightarrow> StanzaFilter \<Rightarrow> Context \<Rightarrow> connected"
where
  "srv_connect_loop net domain is_c2s stream_open config [] f ctx = (Err AllConnectionAttemptsFailed, f, ctx)"
| "srv_connect_loop net domain is_c2s stream_open config (srv # srvs) f ctx =
     (case conn_connect net srv domain stream_open f config of
        (Err e, f) \<Rightarrow> srv_connect_loop net domain is_c2s stream_open config srvs f ctx
      | (Panic, f) \<Rightarrow> (Panic, f, ctx)
      | (Ok ((owr, ord), addr, prt), f) \<Rightarrow>
          (let ctx = set_to_addr (net_logging net) (show_SocketAddr addr) (set_proto (net_logging net) prt ctx) in
           case write_and_flush (net_tracing net) is_c2s stream_open (length stream_open) owr of
             (Ok u, owr) \<Rightarrow>
               (case stream_preamble ord owr f of
                  (Ok (server_response, k), ord, owr, f) \<Rightarrow> (Ok ((owr, ord), server_response), f, ctx)
                | (Err e, ord, owr, f) \<Rightarrow>
                    srv_connect_loop net domain is_c2s stream_open config srvs f
                      (set_proto (net_logging net) ''unk-out'' ctx)
                | (Panic, ord, owr, f) \<Rightarrow> (Panic, f, ctx))
           | (Err e, owr) \<Rightarrow> (Err e, f, ctx)
           | (Panic, owr) \<Rightarrow> (Panic, f, ctx)))"

definition srv_connect ::
    "('u, 'l, 'b, 'n) net \<Rightarrow> bytes \<Rightarrow> bool \<Rightarrow> bytes \<Rightarrow> StanzaFilter \<Rightarrow> Context \<Rightarrow> nat \<Rightarrow> connected"
where
  "srv_connect net domain is_c2s stream_open f ctx max_size =
     (case get_xmpp_connections (net_world net) domain is_c2s of
        Ok (srvs, cert_verifier) \<Rightarrow>
          srv_connect_loop net domain is_c2s stream_open
            (with_custom_certificate_verifier max_size is_c2s cert_verifier) srvs f ctx
      | Err e \<Rightarrow> (Err e, f, ctx)
      | Panic \<Rightarrow> (Panic, f, ctx))"

section \<open>The handler\<close>

text \<open>
  \<open>handle_outgoing_connection\<close> of a stream whose first bytes have been looked at; \<^const>\<open>None\<close> while
  the sniff waits.  The result is the start of the shuffle loop.
\<close>

definition answer_client ::
    "('u, 'l, 'b, 'n) net \<Rightarrow> nat \<Rightarrow> Context \<Rightarrow> StanzaRead \<Rightarrow> StanzaWrite \<Rightarrow> StanzaFilter
      \<Rightarrow> (bool \<times> shuffle) outcome \<times> Context"
where
  "answer_client net max_size ctx ird iwr f =
     (case stream_preamble ird iwr f of
        (Ok (stream_open, is_c2s), ird, iwr, f) \<Rightarrow>
          (let ctx = set_c2s_stream_open (net_logging net) is_c2s stream_open ctx in
           case bind_ok (header_attr ''to'' stream_open) from_utf8 of
             Ok to_domain \<Rightarrow>
               (case srv_connect net to_domain is_c2s stream_open f ctx max_size of
                  (Ok ((owr, ord), server_response), f, ctx) \<Rightarrow>
                    (case write_and_flush (net_tracing net) is_c2s server_response 0 iwr of
                       (Ok u, iwr) \<Rightarrow> (Ok (is_c2s, shuffle_start ird iwr ord owr max_size f), ctx)
                     | (Err e, iwr) \<Rightarrow> (Err e, ctx)
                     | (Panic, iwr) \<Rightarrow> (Panic, ctx))
                | (Err e, f, ctx) \<Rightarrow> (Err e, ctx)
                | (Panic, f, ctx) \<Rightarrow> (Panic, ctx))
           | Err e \<Rightarrow> (Err e, ctx)
           | Panic \<Rightarrow> (Panic, ctx))
      | (Err e, ird, iwr, f) \<Rightarrow> (Err e, ctx)
      | (Panic, ird, iwr, f) \<Rightarrow> (Panic, ctx))"

definition handle_outgoing_connection ::
    "('u, 'l, 'b, 'n) net \<Rightarrow> (nat \<Rightarrow> peek_event list \<Rightarrow> bytes outcome option) \<Rightarrow> nat \<Rightarrow> Context
      \<Rightarrow> peek_event list \<Rightarrow> reader \<times> sink \<Rightarrow> ws_accept
      \<Rightarrow> ((bool \<times> shuffle) outcome \<times> Context) option"
where
  "handle_outgoing_connection net peek_bytes max_size ctx pks stream accept_hdr =
     (let f = StanzaFilter_new max_size in
      if max_size < 3 then Some (Panic, ctx) else
      case peek_bytes 3 pks of
        None \<Rightarrow> None
      | Some (Err e) \<Rightarrow> Some (Err e, ctx)
      | Some Panic \<Rightarrow> Some (Panic, ctx)
      | Some (Ok p) \<Rightarrow>
          (let f = f\<lparr>buf := p @ drop 3 (buf f)\<rparr> in
           if p = ''GET'' then
             (case incoming_websocket_connection accept_hdr max_size of
                Ok (ird, iwr) \<Rightarrow> Some (answer_client net max_size ctx ird iwr f)
              | Err e \<Rightarrow> Some (Err e, ctx)
              | Panic \<Rightarrow> Some (Panic, ctx))
           else Some (answer_client net max_size ctx (AsyncRead (fst stream)) (AsyncWrite (snd stream)) f)))"

section \<open>Where a connection comes from\<close>

text \<open>The library's handshakes, given a configuration, the name to verify and the address.\<close>

inductive handshakes ::
    "('u, 'l, 'b, 'n) net \<Rightarrow> 'n OutgoingVerifierConfig \<Rightarrow> bytes \<Rightarrow> SocketAddr \<Rightarrow> io \<Rightarrow> bool"
  for net :: "('u, 'l, 'b, 'n) net" and config nm addr
where
  Direct: "server_name (net_world net) nm = Ok n \<Longrightarrow> tls_handshake net (config_alpn config) n addr = Ok p
     \<Longrightarrow> handshakes net config nm addr (byte_io p)"
| Start: "server_name (net_world net) nm = Ok n \<Longrightarrow> tls_handshake net (connector config) n addr = Ok p
     \<Longrightarrow> handshakes net config nm addr (byte_io p)"
| Quic: "quic_open net (config_alpn config) nm addr = Ok p \<Longrightarrow> handshakes net config nm addr (byte_io p)"
| WebTr: "wt_open net ((config_alpn config)\<lparr>alpn_protocols := [wt_alpn net]\<rparr>) nm addr url = Ok p \<Longrightarrow> handshakes net config nm addr (byte_io p)"
| WebSo: "server_name (net_world net) nm = Ok n \<Longrightarrow> tls_handshake net (connector config) n addr = Ok p
     \<Longrightarrow> ws_client net url request (ws_cfg (verifier_max_stanza_size_bytes config)) p = Ok (msgs, k)
     \<Longrightarrow> handshakes net config nm addr (WebSocketClientWrite k, WebSocketRead msgs)"

lemma tls_connect_Ok: "tls_connect net addr nm config = Ok s \<Longrightarrow> handshakes net config nm addr s"
  by (auto simp: tls_connect_def outcome_simps intro: handshakes.intros)

lemma websocket_connect_Ok:
  "websocket_connect net addr nm url origin config = Ok s \<Longrightarrow> handshakes net config nm addr s"
  by (auto simp: websocket_connect_def Let_def outcome_simps intro: handshakes.intros)

lemma quic_connect_Ok: "quic_connect net addr nm config = Ok s \<Longrightarrow> handshakes net config nm addr s"
  by (auto simp: quic_connect_def quic_endpoint_def outcome_simps intro: handshakes.intros)

lemma webtransport_connect_Ok:
  "webtransport_connect net addr nm url config = Ok s \<Longrightarrow> handshakes net config nm addr s"
  by (auto simp: webtransport_connect_def webtransport_endpoint_def Let_def outcome_simps intro: handshakes.intros)

lemma starttls_connect_Ok:
  "starttls_connect net addr nm stream_open f config = (Ok s, f') \<Longrightarrow> handshakes net config nm addr s"
  by (auto simp: starttls_connect_def outcome_simps split: outcome.splits prod.splits intro: handshakes.intros)

text \<open>The name under which a connection may be made.\<close>

definition allowed_name :: "('u, 'l) XmppConnection \<Rightarrow> bytes \<Rightarrow> bytes \<Rightarrow> bool" where
  "allowed_name c domain nm \<longleftrightarrow> nm = domain \<or> secure c \<and> nm = target c"

lemma try_ip_Ok:
  assumes "try_ip net c domain stream_open f config addr = (Ok (s, prt), f')"
  shows "\<exists>nm. allowed_name c domain nm \<and> handshakes net config nm addr s"
proof -
  let ?nm = "if secure c then target c else domain"
  have a: "allowed_name c domain ?nm" "allowed_name c domain domain" by (simp_all add: allowed_name_def)
  show ?thesis
  proof (cases "conn_type c")
    case StartTLS
    with assms obtain g where "starttls_connect net addr ?nm stream_open f config = (Ok s, g)"
      by (auto simp: try_ip_def Let_def outcome_simps split: prod.splits)
    with a show ?thesis by (metis starttls_connect_Ok)
  next
    case DirectTLS
    with assms have "tls_connect net addr ?nm config = Ok s"
      by (auto simp: try_ip_def Let_def outcome_simps)
    with a show ?thesis by (metis tls_connect_Ok)
  next
    case QUIC
    with assms have "quic_connect net addr ?nm config = Ok s"
      by (auto simp: try_ip_def Let_def outcome_simps)
    with a show ?thesis by (metis quic_connect_Ok)
  next
    case (WebSocket url origin)
    with assms have "websocket_connect net addr ?nm url origin config = Ok s \<or> websocket_connect net addr domain url origin config = Ok s"
      by (auto simp: try_ip_def Let_def outcome_simps split: outcome.splits if_splits)
    with a show ?thesis by (metis websocket_connect_Ok)
  next
    case (WebTransport url)
    with assms have "webtransport_connect net addr ?nm url config = Ok s \<or> webtransport_connect net addr domain url config = Ok s"
      by (auto simp: try_ip_def Let_def outcome_simps split: outcome.splits if_splits)
    with a show ?thesis by (metis webtransport_connect_Ok)
  qed
qed

lemma try_ips_Ok:
  "try_ips net c domain stream_open f config is = (Ok (s, addr, prt), f') \<Longrightarrow>
     \<exists>ip nm. ip \<in> set is \<and> addr = socket_addr ip (port c) \<and> allowed_name c domain nm \<and> handshakes net config nm addr s"
proof (induction "is" arbitrary: f)
  case (Cons ip "is")
  obtain r g where t: "try_ip net c domain stream_open f config (socket_addr ip (port c)) = (r, g)"
    by (cases "try_ip net c domain stream_open f config (socket_addr ip (port c))")
  show ?case
  proof (cases r)
    case (Ok x)
    obtain s1 p1 where x: "x = (s1, p1)" by (cases x)
    from try_ip_Ok [OF t [unfolded Ok x]] Cons.prems t Ok x show ?thesis by (auto simp: Let_def)
  next
    case (Err e)
    with Cons t show ?thesis by (fastforce simp: Let_def)
  next
    case Panic
    with Cons.prems t show ?thesis by (simp add: Let_def)
  qed
qed simp

text \<open>What a write in plain bytes sends.\<close>

definition plainly_sent :: "StanzaWrite \<Rightarrow> bytes \<Rightarrow> StanzaWrite \<Rightarrow> bool" where
  "plainly_sent w bs w' \<longleftrightarrow>
     (case w of
        AsyncWrite k \<Rightarrow> sent (sink_of w') = sent k @ [Wrote bs, Flushed]
      | WebSocketClientWrite k \<Rightarrow> True)"

lemma write_and_flush_plain: "write_and_flush tr k bs e w = (Ok u, w') \<Longrightarrow> plainly_sent w bs w'"
  by (cases w) (auto simp: plainly_sent_def write_and_flush_def map_prod_def split: prod.splits outcome.splits
      dest!: sink_write_all_Ok sink_flush_Ok)

text \<open>
  Connections that were tried in vain, one after the other, and the filter they leave: each could
  not be made, or was made and announced to and then did not answer with a header.
\<close>

inductive tried ::
    "('u, 'l, 'b, 'n) net \<Rightarrow> bytes \<Rightarrow> bool \<Rightarrow> bytes \<Rightarrow> 'n OutgoingVerifierConfig
      \<Rightarrow> ('u, 'l) XmppConnection list \<Rightarrow> StanzaFilter \<Rightarrow> StanzaFilter \<Rightarrow> bool"
  for net :: "('u, 'l, 'b, 'n) net" and domain is_c2s stream_open config
where
  Untried: "tried net domain is_c2s stream_open config [] f f"
| Unmade: "conn_connect net c domain stream_open f config = (Err e, f1)
     \<Longrightarrow> tried net domain is_c2s stream_open config cs f1 f2
     \<Longrightarrow> tried net domain is_c2s stream_open config (c # cs) f f2"
| Unanswered: "conn_connect net c domain stream_open f config = (Ok ((owr, ord), addr, prt), f1)
     \<Longrightarrow> write_and_flush (net_tracing net) is_c2s stream_open (length stream_open) owr = (Ok (), owr1)
     \<Longrightarrow> stream_preamble ord owr1 f1 = (Err e, ord2, owr2, f2)
     \<Longrightarrow> tried net domain is_c2s stream_open config cs f2 f3
     \<Longrightarrow> tried net domain is_c2s stream_open config (c # cs) f f3"

text \<open>
  A connection of the domain that was made, announced to, and answered with a header, which was
  read from that connection through the filter as it then was.
\<close>

definition answered ::
    "('u, 'l, 'b, 'n) net \<Rightarrow> bytes \<Rightarrow> bool \<Rightarrow> bytes \<Rightarrow> 'n OutgoingVerifierConfig \<Rightarrow> StanzaFilter
      \<Rightarrow> ('u, 'l) XmppConnection \<Rightarrow> io \<Rightarrow> bytes \<Rightarrow> StanzaFilter \<Rightarrow> bool"
where
  "answered net domain is_c2s stream_open config f c s resp f' \<longleftrightarrow>
     (\<exists>is ip nm owr ord prt f1 owr1 k. ips_of net c = Ok is \<and> ip \<in> set is \<and> allowed_name c domain nm
        \<and> handshakes net config nm (socket_addr ip (port c)) (owr, ord)
        \<and> conn_connect net c domain stream_open f config = (Ok ((owr, ord), socket_addr ip (port c), prt), f1)
        \<and> write_and_flush (net_tracing net) is_c2s stream_open (length stream_open) owr = (Ok (), owr1)
        \<and> plainly_sent owr stream_open owr1
        \<and> stream_preamble ord owr1 f1 = (Ok (resp, k), snd s, fst s, f'))"

lemma conn_connect_Ok:
  assumes "conn_connect net c domain stream_open f config = (Ok (s, addr, prt), f')"
  shows "\<exists>is ip nm. ips_of net c = Ok is \<and> ip \<in> set is \<and> addr = socket_addr ip (port c)
    \<and> allowed_name c domain nm \<and> handshakes net config nm addr s"
  using assms try_ips_Ok [of net c domain stream_open f config _ s addr prt f']
  by (auto simp: conn_connect_def split: outcome.splits)

lemma srv_connect_loop_Ok:
  "srv_connect_loop net domain is_c2s stream_open config srvs f ctx = (Ok (s, resp), f', ctx') \<Longrightarrow>
     \<exists>pre c post f2. srvs = pre @ c # post \<and> tried net domain is_c2s stream_open config pre f f2
       \<and> answered net domain is_c2s stream_open config f2 c s resp f'"
proof (induction srvs arbitrary: f ctx)
  case (Cons srv srvs)
  obtain r g where t: "conn_connect net srv domain stream_open f config = (r, g)"
    by (cases "conn_connect net srv domain stream_open f config")
  note sim = Cons.prems [unfolded srv_connect_loop.simps t Let_def, simplified]
  show ?case
  proof (cases r)
    case (Err e)
    with sim Cons.IH obtain pre c post f2 where "srvs = pre @ c # post" "tried net domain is_c2s stream_open config pre g f2"
      "answered net domain is_c2s stream_open config f2 c s resp f'" by fastforce
    with tried.Unmade [OF t [unfolded Err]] show ?thesis by (metis append_Cons)
  next
    case Panic
    with sim show ?thesis by simp
  next
    case (Ok x)
    obtain owr ord addr prt where x: "x = ((owr, ord), addr, prt)" by (metis prod.exhaust)
    obtain w owr1 where w: "write_and_flush (net_tracing net) is_c2s stream_open (length stream_open) owr = (w, owr1)"
      by fastforce
    obtain p ord2 owr2 g2 where p: "stream_preamble ord owr1 g = (p, ord2, owr2, g2)"
      by (metis prod.exhaust)
    from sim Ok x w have w1: "w = Ok ()" by (auto split: outcome.splits)
    note t1 = t [unfolded Ok x] and ww = w [unfolded w1]
    show ?thesis
    proof (cases p)
      case (Ok y)
      with sim \<open>r = Ok x\<close> x w w1 p have s: "s = (owr2, ord2)" "resp = fst y" "f' = g2" by (auto split: prod.splits)
      from conn_connect_Ok [OF t1] t1 ww write_and_flush_plain [OF ww] p Ok s
      have "answered net domain is_c2s stream_open config f srv s resp f'"
        unfolding answered_def by (cases y) force
      with tried.Untried show ?thesis by (metis append_Nil)
    next
      case (Err e)
      with sim \<open>r = Ok x\<close> x w w1 p Cons.IH obtain pre c post f2 where "srvs = pre @ c # post"
        "tried net domain is_c2s stream_open config pre g2 f2" "answered net domain is_c2s stream_open config f2 c s resp f'"
        by fastforce
      with tried.Unanswered [OF t1 ww p [unfolded Err]] show ?thesis by (metis append_Cons)
    next
      case Panic
      with sim Ok x w w1 p show ?thesis by simp
    qed
  qed
qed simp

section \<open>An item in two pieces\<close>

lemma until_output_append:
  "until_output step c (p @ q) =
     (case until_output step c p of
        (Ok None, [], c') \<Rightarrow> until_output step c' q
      | (r, rest, c') \<Rightarrow> (r, rest @ q, c'))"
proof (induction p arbitrary: c)
  case (Cons i p)
  show ?case
  proof (cases "step c i")
    case (Pair r c1)
    then show ?thesis using Cons.IH [of c1] by (cases r) (auto split: option.splits)
  qed
qed simp

lemma until_output_None_rest: "until_output step c p = (Ok None, rest, c') \<Longrightarrow> rest = []"
  by (induction p arbitrary: c) (auto split: prod.splits outcome.splits option.splits)

lemma until_output_cut:
  assumes "until_output step c (p @ q) = (Ok (Some x), rest, c2)" and "length rest < length q"
  shows "\<exists>c1. until_output step c p = (Ok None, [], c1) \<and> until_output step c1 q = (Ok (Some x), rest, c2)"
proof -
  obtain r rest1 c1 where u: "until_output step c p = (r, rest1, c1)" by (metis prod.exhaust)
  have "r = Ok None \<and> rest1 = []"
    using assms until_output_None_rest [of step c p rest1 c1] u
    by (auto simp: until_output_append split: outcome.splits option.splits list.splits)
  with assms(1) u show ?thesis by (simp add: until_output_append)
qed

text \<open>The first piece leaves the filter inside the item; the second one, from wherever it
  comes, completes it.\<close>

lemma split_item:
  assumes "idle n e f" and "ok_item x" and "show_item x = p @ r" and "r \<noteq> []" and "length (show_item x) \<le> n"
  shows "\<exists>f1 f2 e2. reader_next (map RByte p) f = (Ok None, [], f1)
      \<and> reader_next_eoft (map RByte (r @ rest)) f1 = (Ok (Some (p @ r, e2)), map RByte rest, f2)"
proof -
  have "until_output (frame_step n) (idle_frame e) (p @ r @ rest)
      = (Ok (Some (p @ r)), rest, idle_frame (if e = 0 then item_eoft x else e))"
    using emits_item [OF assms(2,5), of e rest] assms(3) by simp
  from run_concrete [OF assms(1) this] obtain f2
    where u: "until_output feed_bytes f (p @ r @ rest) = (Ok (Some (p @ r)), rest, f2)" by blast
  have "length rest < length (r @ rest)" using assms(4) by simp
  from until_output_cut [OF u this] obtain f1 where u1: "until_output feed_bytes f p = (Ok None, [], f1)"
    and u2: "until_output feed_bytes f1 (r @ rest) = (Ok (Some (p @ r)), rest, f2)" by blast
  have s: "serves n f" using assms(1) by (simp add: idle_def)
  then have i: "filter_inv f" by (simp add: serves_def)
  have i1: "filter_inv f1" using framing.run_keeps [OF s u1] by (simp add: serves_def)
  show ?thesis
    using reader_next_bytes [OF i, of p] reader_next_eoft_bytes [OF i1, of "r @ rest"] u1 u2
    by (simp del: map_append)
qed

lemma preamble_of_second_piece:
  assumes "reader_next_eoft (map RByte (r @ rest)) f1 = (Ok (Some (show_item x, e2)), map RByte rest, f2)"
    and "ok_item x" and "is_header x"
  shows "stream_preamble (AsyncRead (map RByte (r @ rest))) w f1
      = (Ok (show_item x, declares_client (show_item x)), AsyncRead (map RByte rest), w, f2)"
proof -
  have "\<not> is_decl x" using assms(3) by (cases x) simp_all
  with assms not_decl_item [of x] header_item [of x] show ?thesis
    unfolding stream_preamble_def
    by (subst preamble_loop.simps) (simp del: show_item.simps map_append add: slice_simps declares_client_def)
qed

lemma starttls_out_ends_early:
  assumes "reader_next rd f = (Ok None, [], f1)" and "faults s = []"
  shows "fst (starttls_out stream_open rd f s) = Err StreamEndedBeforeProceed"
    and "fst (snd (starttls_out stream_open rd f s)) = f1"
proof -
  have "starttls_out_loop rd f wr = (Ok False, [], f1, wr)" for wr
    using assms(1) by (subst starttls_out_loop.simps) simp
  then show "fst (starttls_out stream_open rd f s) = Err StreamEndedBeforeProceed"
    and "fst (snd (starttls_out stream_open rd f s)) = f1"
    using sink_writes_ok [OF assms(2), of "[stream_open]"] by (simp_all add: starttls_out_def del: sink_writes.simps)
qed

lemma write_bytes_ok:
  "faults s = [] \<Longrightarrow> write_and_flush tr c bs e (AsyncWrite s) = (Ok (), AsyncWrite (log_event [Wrote bs, Flushed] s))"
  by (simp add: write_and_flush_def sink_ok)

abbreviation conn_name :: "('u, 'l) XmppConnection \<Rightarrow> bytes \<Rightarrow> bytes" where
  "conn_name c domain \<equiv> if secure c then target c else domain"

text \<open>A direct TLS connection to one address leaves the filter as it is.\<close>

lemma direct_connects:
  assumes "conn_type c = DirectTLS" and "ips_of net c = Ok [ip]" and "server_name (net_world net) (conn_name c domain) = Ok n"
    and "tcp_connect net (socket_addr ip (port c)) = Ok q"
    and "tls_handshake net (config_alpn config) n (socket_addr ip (port c)) = Ok p"
  shows "conn_connect net c domain stream_open f config
      = (Ok (byte_io p, socket_addr ip (port c), ''directtls-out''), f)"
  using assms by (simp add: conn_connect_def try_ip_def tls_connect_def Let_def split del: if_split)

lemma starttls_fails:
  assumes "conn_type c = StartTLS" and "ips_of net c = Ok [ip]" and "server_name (net_world net) (conn_name c domain) = Ok n"
    and "tcp_connect net (socket_addr ip (port c)) = Ok (rd, s)"
    and "reader_next rd f = (Ok None, [], f1)" and "faults s = []"
  shows "conn_connect net c domain stream_open f config = (Err (CannotConnect (target c)), f1)"
proof -
  obtain r g k where "starttls_out stream_open rd f s = (r, g, k)" by (metis prod.exhaust)
  with starttls_out_ends_early [OF assms(5,6), of stream_open]
  have "starttls_out stream_open rd f s = (Err StreamEndedBeforeProceed, f1, k)" by simp
  with assms(1-4) show ?thesis
    by (simp add: conn_connect_def try_ip_def starttls_connect_def Let_def split del: if_split)
qed

lemma srv_connect_step_direct:
  assumes "conn_connect net c domain stream_open f config = (Ok (byte_io (rd, s), addr, prt), f)"
    and "faults s = []"
    and "stream_preamble (AsyncRead rd) (AsyncWrite (log_event [Wrote stream_open, Flushed] s)) f
      = (Ok (resp, k), AsyncRead rd', AsyncWrite (log_event [Wrote stream_open, Flushed] s), f')"
  shows "\<exists>ctx'. srv_connect_loop net domain is_c2s stream_open config (c # srvs) f ctx
      = (Ok ((AsyncWrite (log_event [Wrote stream_open, Flushed] s), AsyncRead rd'), resp), f', ctx')"
  using assms by (simp add: byte_io_def write_bytes_ok Let_def)

text \<open>
  Addresses that refuse the connection are passed over, and so are connections without an address
  that accepts one; the filter and the context stay as they are.
\<close>

definition no_tcp :: "('u, 'l, 'b, 'n) net \<Rightarrow> ('u, 'l) XmppConnection \<Rightarrow> IpAddr \<Rightarrow> bool" where
  "no_tcp net c ip \<longleftrightarrow> (\<exists>e. tcp_connect net (socket_addr ip (port c)) = Err e)"

definition unreachable :: "('u, 'l, 'b, 'n) net \<Rightarrow> bytes \<Rightarrow> ('u, 'l) XmppConnection \<Rightarrow> bool" where
  "unreachable net domain c \<longleftrightarrow> (\<exists>e. ips_of net c = Err e) \<or>
     conn_type c \<in> {StartTLS, DirectTLS} \<and>
     (\<exists>n is. server_name (net_world net) (conn_name c domain) = Ok n \<and> ips_of net c = Ok is \<and> list_all (no_tcp net c) is)"

lemma try_ip_refused:
  assumes "conn_type c \<in> {StartTLS, DirectTLS}" and "server_name (net_world net) (conn_name c domain) = Ok n" and "no_tcp net c ip"
  shows "\<exists>e. try_ip net c domain stream_open f config (socket_addr ip (port c)) = (Err e, f)"
  using assms by (auto simp: no_tcp_def try_ip_def tls_connect_def starttls_connect_def Let_def split del: if_split)

lemma try_ips_skip:
  assumes "conn_type c \<in> {StartTLS, DirectTLS}" and "server_name (net_world net) (conn_name c domain) = Ok n" and "list_all (no_tcp net c) dead"
  shows "try_ips net c domain stream_open f config (dead @ rest) = try_ips net c domain stream_open f config rest"
  using assms(3)
proof (induction dead)
  case (Cons ip dead)
  from try_ip_refused [OF assms(1,2), of ip stream_open f config] Cons show ?case by (auto simp: Let_def)
qed simp

lemma srv_connect_skip:
  assumes "list_all (unreachable net domain) bad"
  shows "srv_connect_loop net domain is_c2s stream_open config (bad @ cs) f ctx
    = srv_connect_loop net domain is_c2s stream_open config cs f ctx"
  using assms
proof (induction bad)
  case (Cons c bad)
  have "\<exists>e. conn_connect net c domain stream_open f config = (Err e, f)"
  proof (cases "\<exists>e. ips_of net c = Err e")
    case True
    then show ?thesis by (auto simp: conn_connect_def)
  next
    case False
    with Cons.prems obtain n adr where c: "conn_type c \<in> {StartTLS, DirectTLS}" "server_name (net_world net) (conn_name c domain) = Ok n"
      and i: "ips_of net c = Ok adr" "list_all (no_tcp net c) adr" by (auto simp: unreachable_def)
    from try_ips_skip [OF c i(2), of stream_open f config "[]"] i(1) show ?thesis by (simp add: conn_connect_def)
  qed
  with Cons show ?case by auto
qed simp

text \<open>The first server that is reached answers, and the loop starts.\<close>

lemma outgoing_opens:
  assumes "idle n e f" and "ok_item x" and "is_header x" and "length (show_item x) \<le> n" and "CHR ''<'' \<notin> set ws"
    and "decls_ok n ds" and "declares_client (show_item x) = is_c2s"
    and "header_attr ''to'' (preamble ds x) = Ok domain" and "utf8_valid domain"
    and "get_xmpp_connections (net_world net) domain is_c2s = Ok (bad @ c # cs, v)" and "list_all (unreachable net domain) bad"
    and "conn_type c = DirectTLS" and "ips_of net c = Ok (dead @ ip # later)" and "list_all (no_tcp net c) dead"
    and "server_name (net_world net) (conn_name c domain) = Ok nm" and "tcp_connect net (socket_addr ip (port c)) = Ok q"
    and "tls_handshake net (config_alpn (with_custom_certificate_verifier m is_c2s v)) nm (socket_addr ip (port c))
      = Ok (map RByte (show_stream (map (apsnd XmlDecl) es) @ us @ show_item y @ rest2), s)"
    and "ok_item y" and "is_header y" and "length (show_item y) \<le> n" and "CHR ''<'' \<notin> set us" and "decls_ok n es"
    and "faults s = []" and "faults k = []"
  shows "\<exists>f' ctx'. idle n 0 f' \<and> answer_client net m ctx (header_input ds ws x rest) (AsyncWrite k) f
      = (Ok (is_c2s, shuffle_start (AsyncRead (map RByte rest)) (AsyncWrite (log_event [Wrote (preamble es y), Flushed] k))
           (AsyncRead (map RByte rest2)) (AsyncWrite (log_event [Wrote (preamble ds x), Flushed] s)) m f'), ctx')"
proof -
  let ?config = "with_custom_certificate_verifier m is_c2s v"
  from header_read [OF assms(1-6), of rest "AsyncWrite k"] assms(7)
  obtain f1 where f1: "idle n 0 f1" and pre: "stream_preamble (header_input ds ws x rest) (AsyncWrite k) f
      = (Ok (preamble ds x, is_c2s), AsyncRead (map RByte rest), AsyncWrite k, f1)" by blast
  let ?s = "log_event [Wrote (preamble ds x), Flushed] s"
  from header_read [OF f1 assms(18-22), of rest2 "AsyncWrite ?s"]
  obtain f2 where f2: "idle n 0 f2"
    and resp: "stream_preamble (AsyncRead (map RByte (show_stream (map (apsnd XmlDecl) es) @ us @ show_item y @ rest2))) (AsyncWrite ?s) f1
      = (Ok (preamble es y, declares_client (show_item y)), AsyncRead (map RByte rest2), AsyncWrite ?s, f2)"
    unfolding header_input_def by blast
  have "conn_type c \<in> {StartTLS, DirectTLS}" using assms(12) by simp
  from try_ips_skip [OF this assms(15,14), of "preamble ds x" f1 ?config "ip # later"] assms(12,13,15-17)
  have conn: "conn_connect net c domain (preamble ds x) f1 ?config
      = (Ok (byte_io (map RByte (show_stream (map (apsnd XmlDecl) es) @ us @ show_item y @ rest2), s), socket_addr ip (port c), ''directtls-out''), f1)"
    by (simp add: conn_connect_def try_ip_def tls_connect_def Let_def split del: if_split)
  from srv_connect_step_direct [OF conn assms(23) resp]
  obtain ctx' where loop: "srv_connect net domain is_c2s (preamble ds x) f1 (set_c2s_stream_open (net_logging net) is_c2s (preamble ds x) ctx) m
      = (Ok ((AsyncWrite ?s, AsyncRead (map RByte rest2)), preamble es y), f2, ctx')"
    unfolding srv_connect_def assms(10) using srv_connect_skip [OF assms(11)] by fastforce
  have "bind_ok (header_attr ''to'' (preamble ds x)) from_utf8 = Ok domain"
    using assms(8,9) by (simp add: from_utf8_def)
  then have "answer_client net m ctx (header_input ds ws x rest) (AsyncWrite k) f
      = (Ok (is_c2s, shuffle_start (AsyncRead (map RByte rest)) (AsyncWrite (log_event [Wrote (preamble es y), Flushed] k))
           (AsyncRead (map RByte rest2)) (AsyncWrite ?s) m f2), ctx')"
    unfolding answer_client_def pre by (simp add: loop write_bytes_ok [OF assms(24)] Let_def)
  with f2 show ?thesis by blast
qed

section \<open>Properties\<close>

text \<open>C5: a client of the proxy is relayed to a connection that is one of those found for the domain
  that its header names, made to one of its addresses by a handshake that was given the domain's
  verifier and, as the name, the domain itself or the target of a secure connection.  The client's
  header was written to this connection; the client was sent the header that was then read from
  this connection, through the filter that the connections tried before it in vain have left; and
  the session goes on with the rest of the client's stream, with this connection and that filter.\<close>

theorem outgoing_connection_is_verified:
  assumes "answer_client net m ctx ird iwr f = (Ok (is_c2s, s), ctx')"
  shows "\<exists>stream_open domain ird' iwr' f1 pre c post v f2 io resp f3 iwr2.
      stream_preamble ird iwr f = (Ok (stream_open, is_c2s), ird', iwr', f1)
      \<and> header_attr ''to'' stream_open = Ok domain \<and> utf8_valid domain
      \<and> get_xmpp_connections (net_world net) domain is_c2s = Ok (pre @ c # post, v)
      \<and> tried net domain is_c2s stream_open (with_custom_certificate_verifier m is_c2s v) pre f1 f2
      \<and> answered net domain is_c2s stream_open (with_custom_certificate_verifier m is_c2s v) f2 c io resp f3
      \<and> write_and_flush (net_tracing net) is_c2s resp 0 iwr' = (Ok (), iwr2) \<and> plainly_sent iwr' resp iwr2
      \<and> s = shuffle_start ird' iwr2 (snd io) (fst io) m f3"
proof -
  from assms obtain stream_open k ird' iwr' f1 where p: "stream_preamble ird iwr f = (Ok (stream_open, k), ird', iwr', f1)"
    by (auto simp: answer_client_def split: prod.splits outcome.splits)
  let ?ctx = "set_c2s_stream_open (net_logging net) k stream_open ctx"
  note sim = assms [unfolded answer_client_def p Let_def prod.case outcome.case]
  from sim obtain domain where d: "header_attr ''to'' stream_open = Ok domain" "utf8_valid domain"
    by (auto simp: outcome_simps from_utf8_Ok_iff split: outcome.splits)
  obtain r f3 ctx2 where c: "srv_connect net domain k stream_open f1 ?ctx m = (r, f3, ctx2)" by (metis prod.exhaust)
  from sim d c obtain io resp where r: "r = Ok (io, resp)"
    by (auto simp: from_utf8_def split: outcome.splits)
  obtain w iwr2 where w: "write_and_flush (net_tracing net) k resp 0 iwr' = (w, iwr2)" by fastforce
  from sim d c r w have w1: "w = Ok ()" and s: "is_c2s = k" "s = shuffle_start ird' iwr2 (snd io) (fst io) m f3"
    by (auto simp: from_utf8_def split: outcome.splits prod.splits)
  from c r obtain conns v where g: "get_xmpp_connections (net_world net) domain k = Ok (conns, v)"
    and l: "srv_connect_loop net domain k stream_open (with_custom_certificate_verifier m k v) conns f1 ?ctx
      = (Ok (io, resp), f3, ctx2)"
    by (auto simp: srv_connect_def split: outcome.splits)
  from srv_connect_loop_Ok [OF l] p d g w w1 write_and_flush_plain [OF w [unfolded w1]] s show ?thesis by blast
qed

text \<open>A client's header, with the declarations in front of it, goes unaltered to the first
  connection of the domain it names, the header that server answers goes back to the client,
  and the shuffle loop starts with all that follows on both sides still to be read.\<close>

theorem outgoing_session_opens:
  assumes "idle n 0 f" and "ok_item x" and "is_header x" and "length (show_item x) \<le> n" and "CHR ''<'' \<notin> set ws"
    and "decls_ok n ds" and "declares_client (show_item x) = is_c2s"
    and "header_attr ''to'' (preamble ds x) = Ok domain" and "utf8_valid domain"
    and "get_xmpp_connections (net_world net) domain is_c2s = Ok (c # cs, v)"
    and "conn_type c = DirectTLS" and "ips_of net c = Ok [ip]" and "server_name (net_world net) (conn_name c domain) = Ok nm"
    and "tcp_connect net (socket_addr ip (port c)) = Ok q"
    and "tls_handshake net (config_alpn (with_custom_certificate_verifier m is_c2s v)) nm (socket_addr ip (port c))
      = Ok (map RByte (show_stream (map (apsnd XmlDecl) es) @ us @ show_item y @ rest2), s)"
    and "ok_item y" and "is_header y" and "length (show_item y) \<le> n" and "CHR ''<'' \<notin> set us" and "decls_ok n es"
    and "faults s = []" and "faults k = []"
  shows "\<exists>f' ctx'. idle n 0 f' \<and> answer_client net m ctx (header_input ds ws x rest) (AsyncWrite k) f
      = (Ok (is_c2s, shuffle_start (AsyncRead (map RByte rest)) (AsyncWrite (k\<lparr>sent := sent k @ [Wrote (preamble es y), Flushed]\<rparr>))
           (AsyncRead (map RByte rest2)) (AsyncWrite (s\<lparr>sent := sent s @ [Wrote (preamble ds x), Flushed]\<rparr>)) m f'), ctx')"
  using outgoing_opens [of n 0 f x ws ds is_c2s domain net "[]" c cs v "[]" ip "[]" nm q m es us y rest2 s k ctx rest] assms
  by (simp add: log_event_def)

text \<open>C35: what an attacker who answers in the clear for the STARTTLS connection sends before he
  hangs up stays in the filter, and is put in front of the answer of the next server: if the
  two together are a header, the client is given that header as the answer of a server whose
  certificate was verified, although the first part of it was never sent by that server.\<close>

theorem cleartext_enters_verified_answer:
  assumes "idle n 0 f" and "ok_item x" and "is_header x" and "length (show_item x) \<le> n"
    and "show_item x = injected @ reply" and "reply \<noteq> []"
    and "get_xmpp_connections (net_world net) domain is_c2s = Ok (c1 # c2 # cs, v)"
    and "conn_type c1 = StartTLS" and "ips_of net c1 = Ok [ip1]" and "server_name (net_world net) (conn_name c1 domain) = Ok n1"
    and "tcp_connect net (socket_addr ip1 (port c1)) = Ok (map RByte injected, s1)" and "faults s1 = []"
    and "conn_type c2 = DirectTLS" and "ips_of net c2 = Ok [ip2]" and "server_name (net_world net) (conn_name c2 domain) = Ok n2"
    and "tcp_connect net (socket_addr ip2 (port c2)) = Ok q"
    and "tls_handshake net (config_alpn (with_custom_certificate_verifier m is_c2s v)) n2 (socket_addr ip2 (port c2))
      = Ok (map RByte (reply @ rest), s2)" and "faults s2 = []"
  shows "\<exists>s f' ctx'. srv_connect net domain is_c2s stream_open f ctx m = (Ok (s, injected @ reply), f', ctx')"
proof -
  let ?config = "with_custom_certificate_verifier m is_c2s v"
  from split_item [OF assms(1,2,5,6,4), of rest] obtain f1 f2 e2
    where r1: "reader_next (map RByte injected) f = (Ok None, [], f1)"
      and r2: "reader_next_eoft (map RByte (reply @ rest)) f1 = (Ok (Some (show_item x, e2)), map RByte rest, f2)"
    unfolding assms(5) by blast
  note p = preamble_of_second_piece [OF r2 assms(2,3), of "AsyncWrite (log_event [Wrote stream_open, Flushed] s2)"]
  note c1 = starttls_fails [OF assms(8-11) r1 assms(12), of stream_open ?config]
  note c2 = direct_connects [OF assms(13-17), of stream_open f1]
  from srv_connect_step_direct [OF c2 assms(18) p, of is_c2s cs ctx] c1
  show ?thesis unfolding srv_connect_def assms(5,7) by auto
qed


text \<open>A domain that publishes nothing, so the default ports are tried at its address.\<close>

definition silent_world :: "(bytes, bytes, bytes, bytes) world" where
  "silent_world = example_world\<lparr>get_https := (\<lambda>url. Err IoError)\<rparr>"

definition example_net :: "bytes \<Rightarrow> bytes \<Rightarrow> (bytes, bytes, bytes, bytes) net" where
  "example_net clear reply =
     \<lparr>net_world = silent_world, lookup_ip = (\<lambda>n. Ok [V4 1]),
      tcp_connect = (\<lambda>a. Ok (if sa_port a = 443 then [] else map RByte clear, no_sink)),
      tls_handshake = (\<lambda>c n a. Ok (map RByte reply, no_sink)),
      into_client_request = (\<lambda>u. Ok []), header_value = Ok, ws_client = (\<lambda>u h c s. Err IoError),
      provider = None, client_endpoint = (\<lambda>c s. Err IoError), wt_alpn = ''h3'', quic_open = (\<lambda>c n a. Err IoError), wt_open = (\<lambda>c n a u. Err IoError),
      net_logging = False, net_tracing = False\<rparr>"

definition example_verifier :: "bytes XmppServerCertVerifier" where
  "example_verifier = \<lparr>names = [''a''], posh = None, sha256_pinnedpubkeys = []\<rparr>"

definition reply_header_item :: item where
  "reply_header_item = Header (CHR ''s'', map Plain ''tream:stream a='' @ [Quoted True ''<stream:stream b=''] @ map Plain ''c'')"

lemma silent_world_conns:
  "get_xmpp_connections silent_world ''a'' True =
     Ok (default_conn ''a'' StartTLS 5222 # default_conn ''a'' DirectTLS 443 # [default_conn ''a'' QUIC 443], example_verifier)"
  by code_simp

lemma reply_header_item:
  "ok_item reply_header_item" "is_header reply_header_item" "length (show_item reply_header_item) \<le> 60"
  "show_item reply_header_item = ''<stream:stream a=\"'' @ ''<stream:stream b=\"c>''"
  by code_simp+

lemma cleartext_enters_verified_answer_witness:
  "\<exists>s f' ctx'. srv_connect (example_net ''<stream:stream a=\"'' ''<stream:stream b=\"c>'') ''a'' True ''<s>'' (StanzaFilter_new 60) example_ctx 60
      = (Ok (s, ''<stream:stream a=\"'' @ ''<stream:stream b=\"c>''), f', ctx')"
proof (rule cleartext_enters_verified_answer [OF idle_new, where x = reply_header_item and ?ip1.0 = "V4 1" and ?ip2.0 = "V4 1"
      and rest = "[]" and ?s1.0 = no_sink and ?s2.0 = no_sink and ?n1.0 = "''a''" and ?n2.0 = "''a''" and q = "([], no_sink)"])
  show "get_xmpp_connections (net_world (example_net ''<stream:stream a=\"'' ''<stream:stream b=\"c>'')) ''a'' True
      = Ok (default_conn ''a'' StartTLS 5222 # default_conn ''a'' DirectTLS 443 # [default_conn ''a'' QUIC 443], example_verifier)"
    using silent_world_conns by (simp add: example_net_def)
qed (simp_all add: example_net_def silent_world_def example_world_def default_conn_def ips_of_def reply_header_item
      del: append.simps)

lemma example_net_world: "net_world (example_net clear reply) = silent_world"
  by (simp add: example_net_def)

definition client_header :: item where
  "client_header = Header (CHR ''s'', map Plain ''tream:stream to='' @ [Quoted False ''a''] @ map Plain '' xmlns='' @ [Quoted True ''jabber:client''])"

definition server_header :: item where
  "server_header = Header (CHR ''s'', map Plain ''tream:stream id=i'')"

definition published_net :: "(bytes, bytes, bytes, bytes) net" where
  "published_net = (example_net [] (show_stream (map (apsnd XmlDecl) [([], ''v?'')]) @ '' '' @ show_item server_header @ ''<f/>''))
     \<lparr>net_world := example_world\<rparr>"

definition published_conn :: "(bytes, bytes) XmppConnection" where
  "published_conn = \<lparr>conn_type = DirectTLS, priority = 1, weight = 2, port = 5223, target = ''b'', secure = True, ips = [V4 1], ech = None\<rparr>"

definition published_verifier :: "bytes XmppServerCertVerifier" where
  "published_verifier = \<lparr>names = [''a'', ''b''], posh = None, sha256_pinnedpubkeys = [''pin'']\<rparr>"

lemma published_conns:
  "get_xmpp_connections example_world ''a'' True = Ok (published_conn # [], published_verifier)"
  by code_simp

lemma example_headers:
  "ok_item client_header" "is_header client_header" "length (show_item client_header) \<le> 60" "declares_client (show_item client_header) = True"
  "ok_item server_header" "is_header server_header" "length (show_item server_header) \<le> 60"
  "header_attr ''to'' (preamble [([], ''v?'')] client_header) = Ok ''a''"
  by code_simp+

lemma outgoing_session_opens_witness:
  "\<exists>f' ctx'. idle 60 0 f' \<and> answer_client published_net 60 example_ctx (header_input [([], ''v?'')] [] client_header ''<a/>'') (AsyncWrite no_sink) (StanzaFilter_new 60)
      = (Ok (True, shuffle_start (AsyncRead (map RByte ''<a/>'')) (AsyncWrite (no_sink\<lparr>sent := sent no_sink @ [Wrote (preamble [([], ''v?'')] server_header), Flushed]\<rparr>))
           (AsyncRead (map RByte ''<f/>'')) (AsyncWrite (no_sink\<lparr>sent := sent no_sink @ [Wrote (preamble [([], ''v?'')] client_header), Flushed]\<rparr>)) 60 f'), ctx')"
proof (rule outgoing_session_opens [OF idle_new, where domain = "''a''" and c = published_conn and cs = "[]" and v = published_verifier
      and ip = "V4 1" and nm = "''b''" and q = "([], no_sink)" and us = "'' ''"])
  show "get_xmpp_connections (net_world published_net) ''a'' True = Ok (published_conn # [], published_verifier)"
    using published_conns by (simp add: published_net_def)
  show "ips_of published_net published_conn = Ok [V4 1]" by (simp add: ips_of_def published_conn_def)
  show "server_name (net_world published_net) (conn_name published_conn ''a'') = Ok ''b''" by code_simp
  show "tcp_connect published_net (socket_addr (V4 1) (port published_conn)) = Ok ([], no_sink)" by code_simp
  show "tls_handshake published_net (config_alpn (with_custom_certificate_verifier 60 True published_verifier)) ''b'' (socket_addr (V4 1) (port published_conn))
      = Ok (map RByte (show_stream (map (apsnd XmlDecl) [([], ''v?'')]) @ '' '' @ show_item server_header @ ''<f/>''), no_sink)"
    by (simp add: published_net_def example_net_def)
  show "conn_type published_conn = DirectTLS" by (simp add: published_conn_def)
  show "decls_ok 60 [([], ''v?'')]" by (simp add: decls_ok_def)
qed (simp_all add: example_headers decls_ok_def is_ascii_def utf8_valid_ascii)

lemma outgoing_connection_is_verified_witness:
  "\<exists>s stream_open domain ird' iwr' f1 pre c post v f2 io resp f3 iwr2.
      stream_preamble (header_input [([], ''v?'')] [] client_header ''<a/>'') (AsyncWrite no_sink) (StanzaFilter_new 60) = (Ok (stream_open, True), ird', iwr', f1)
      \<and> header_attr ''to'' stream_open = Ok domain \<and> utf8_valid domain
      \<and> get_xmpp_connections (net_world published_net) domain True = Ok (pre @ c # post, v)
      \<and> tried published_net domain True stream_open (with_custom_certificate_verifier 60 True v) pre f1 f2
      \<and> answered published_net domain True stream_open (with_custom_certificate_verifier 60 True v) f2 c io resp f3
      \<and> write_and_flush (net_tracing published_net) True resp 0 iwr' = (Ok (), iwr2) \<and> plainly_sent iwr' resp iwr2
      \<and> s = shuffle_start ird' iwr2 (snd io) (fst io) 60 f3"
proof -
  let ?r = "answer_client published_net 60 example_ctx (header_input [([], ''v?'')] [] client_header ''<a/>'') (AsyncWrite no_sink) (StanzaFilter_new 60)"
  have "map_outcome fst (fst ?r) = Ok True" by code_simp
  then obtain s where "fst ?r = Ok (True, s)" by (auto simp: outcome_simps)
  then have "?r = (Ok (True, s), snd ?r)" by (metis prod.collapse)
  from outgoing_connection_is_verified [OF this] show ?thesis by blast
qed

end
