(* ===== verification/Systemd.thy ===== *)
theory Systemd
  imports Rust_Net
begin

text \<open>
  Model of \<open>src/systemd.rs\<close>: the sockets that systemd passes, found through three environment
  variables and classified by what the operating system says of each descriptor.

  The environment is a map from names to the bytes of the values; what the system calls answer
  is the record \<open>os\<close>.  \<open>desc_size\<close> is the size of a \<open>FileDescriptor\<close> in bytes, which the compiler
  chooses; it matters only to the limit of \<open>Vec::with_capacity\<close>.
\<close>

section \<open>Numbers and words of the standard library\<close>

text \<open>
  \<open>str::parse\<close> of an unsigned integer below \<open>bound\<close>: an optional plus sign, then digits.
\<close>

definition digit_of :: "byte \<Rightarrow> nat option" where
  "digit_of c =
     (let d = (of_char c :: nat) in if 48 \<le> d \<and> d \<le> 57 then Some (d - 48) else None)"

fun parse_digits :: "nat \<Rightarrow> nat \<Rightarrow> bytes \<Rightarrow> nat option" where
  "parse_digits bound n [] = Some n"
| "parse_digits bound n (c # s) =
     (case digit_of c of
        None \<Rightarrow> None
      | Some d \<Rightarrow> if n * 10 + d < bound then parse_digits bound (n * 10 + d) s else None)"

definition parse_unsigned :: "nat \<Rightarrow> bytes \<Rightarrow> nat option" where
  "parse_unsigned bound s =
     (let ds = (case s of c # r \<Rightarrow> if c = CHR ''+'' then r else s | [] \<Rightarrow> [])
      in if ds = [] then None else parse_digits bound 0 ds)"

text \<open>\<open>str::split\<close> at one character: one piece more than there are occurrences.\<close>

fun split_on :: "byte \<Rightarrow> bytes \<Rightarrow> bytes list" where
  "split_on c [] = [[]]"
| "split_on c (x # s) =
     (case split_on c s of
        p # ps \<Rightarrow> if x = c then [] # p # ps else (x # p) # ps
      | [] \<Rightarrow> [])"

text \<open>\<open>as i32\<close> keeps the low 32 bits; \<open>checked_add\<close> fails when the sum leaves the range.\<close>

definition as_i32 :: "nat \<Rightarrow> 32 word" where
  "as_i32 n = word_of_nat n"

definition checked_add_i32 :: "32 word \<Rightarrow> 32 word \<Rightarrow> 32 word option" where
  "checked_add_i32 a b =
     (if - (2 ^ 31) \<le> sint a + sint b \<and> sint a + sint b < 2 ^ 31 then Some (a + b) else None)"

section \<open>Descriptors\<close>

definition sd_listen_fds_start :: "32 word" where
  "sd_listen_fds_start = 3"

record FileDescriptor =
  raw_fd :: "32 word"
  tcp_not_udp :: bool
  inet_not_unix :: bool
  fd_name :: "bytes option"

datatype SystemdListener =
    TcpSocket "32 word"
  | UdpSocket "32 word"
  | UnixStreamSocket "32 word"
  | UnixDatagramSocket "32 word"

definition fd_listener :: "FileDescriptor \<Rightarrow> SystemdListener" where
  "fd_listener fd =
     (case (tcp_not_udp fd, inet_not_unix fd) of
        (True, True) \<Rightarrow> TcpSocket (raw_fd fd)
      | (False, True) \<Rightarrow> UdpSocket (raw_fd fd)
      | (True, False) \<Rightarrow> UnixStreamSocket (raw_fd fd)
      | (False, False) \<Rightarrow> UnixDatagramSocket (raw_fd fd))"

datatype SockType = SockStream | SockDatagram | SockOther

datatype AddressFamily = FamilyInet | FamilyInet6 | FamilyUnix | FamilyOther

text \<open>What the three system calls answer for a descriptor; an error is \<^const>\<open>None\<close>.\<close>

record os =
  so_acceptconn :: "32 word \<Rightarrow> bool option"
  so_type :: "32 word \<Rightarrow> SockType option"
  so_family :: "32 word \<Rightarrow> AddressFamily option"

definition sock_listening :: "os \<Rightarrow> 32 word \<Rightarrow> bool" where
  "sock_listening os fd = (case so_acceptconn os fd of Some b \<Rightarrow> b | None \<Rightarrow> False)"

text \<open>The two questions asked of a listening socket; \<^const>\<open>None\<close> is \<open>continue\<close>.\<close>

definition stream_of_type :: "SockType option \<Rightarrow> bool option" where
  "stream_of_type t =
     (case t of Some SockStream \<Rightarrow> Some True | Some SockDatagram \<Rightarrow> Some False | _ \<Rightarrow> None)"

definition inet_of_family :: "AddressFamily option \<Rightarrow> bool option" where
  "inet_of_family a =
     (case a of
        Some FamilyInet \<Rightarrow> Some True
      | Some FamilyInet6 \<Rightarrow> Some True
      | Some FamilyUnix \<Rightarrow> Some False
      | _ \<Rightarrow> None)"

text \<open>
  The loop of \<open>socks_from_fds\<close> over the offsets; the names are an iterator, and every offset takes
  one, also when the descriptor is passed over.
\<close>

definition next_name :: "bytes list \<Rightarrow> bytes option \<times> bytes list" where
  "next_name ns = (case ns of [] \<Rightarrow> (None, []) | n # ns \<Rightarrow> (Some n, ns))"

fun socks_loop :: "os \<Rightarrow> nat \<Rightarrow> nat list \<Rightarrow> bytes list \<Rightarrow> FileDescriptor list \<Rightarrow> FileDescriptor list outcome" where
  "socks_loop os num_fds [] ns ds = Ok ds"
| "socks_loop os num_fds (k # ks) ns ds =
     (case next_name ns of
        (name, ns) \<Rightarrow>
          (case checked_add_i32 sd_listen_fds_start (as_i32 k) of
             None \<Rightarrow> Err (OverlargeFd num_fds)
           | Some fd \<Rightarrow>
               if \<not> sock_listening os fd then socks_loop os num_fds ks ns ds
               else (case stream_of_type (so_type os fd) of
                       None \<Rightarrow> socks_loop os num_fds ks ns ds
                     | Some tcp \<Rightarrow>
                         (case inet_of_family (so_family os fd) of
                            None \<Rightarrow> socks_loop os num_fds ks ns ds
                          | Some inet \<Rightarrow>
                              socks_loop os num_fds ks ns
                                (ds @ [\<lparr>raw_fd = fd, tcp_not_udp = tcp, inet_not_unix = inet, fd_name = name\<rparr>])))))"

definition socks_from_fds :: "os \<Rightarrow> nat \<Rightarrow> nat \<Rightarrow> bytes list \<Rightarrow> FileDescriptor list outcome" where
  "socks_from_fds os desc_size num_fds ns =
     (if 2 ^ 63 \<le> num_fds * desc_size then Panic else socks_loop os num_fds [0..<num_fds] ns [])"

section \<open>The environment\<close>

text \<open>\<open>env::var\<close>: the variable has to be set, and to UTF-8.\<close>

definition env_var :: "(bytes \<Rightarrow> bytes option) \<Rightarrow> bytes \<Rightarrow> bytes outcome" where
  "env_var env k =
     (case env k of Some v \<Rightarrow> if utf8_valid v then Ok v else Err (EnvError k) | None \<Rightarrow> Err (EnvError k))"

definition env_number :: "nat \<Rightarrow> bytes outcome \<Rightarrow> bytes \<Rightarrow> nat outcome" where
  "env_number bound v k =
     bind_ok v (\<lambda>s. case parse_unsigned bound s of Some n \<Rightarrow> Ok n | None \<Rightarrow> Err (EnvError k))"

definition unset_vars :: "bool \<Rightarrow> (bytes \<Rightarrow> bytes option) \<Rightarrow> bytes \<Rightarrow> bytes option" where
  "unset_vars unset_env env =
     (if unset_env
      then env(''LISTEN_PID'' := None, ''LISTEN_FDS'' := None, ''LISTEN_FDNAMES'' := None) else env)"

definition receive_descriptors_with_names ::
    "os \<Rightarrow> nat \<Rightarrow> nat \<Rightarrow> bool \<Rightarrow> (bytes \<Rightarrow> bytes option)
      \<Rightarrow> FileDescriptor list outcome \<times> (bytes \<Rightarrow> bytes option)"
where
  "receive_descriptors_with_names os desc_size process_id unset_env env =
     (let pid = env_var env ''LISTEN_PID'';
          fds = env_var env ''LISTEN_FDS'';
          fdnames = env_var env ''LISTEN_FDNAMES''
      in (bind_ok (env_number (2 ^ 32) pid ''LISTEN_PID'') (\<lambda>pid.
          bind_ok (env_number (2 ^ 64) fds ''LISTEN_FDS'') (\<lambda>fds.
            if process_id \<noteq> pid then Err PidMismatch
            else socks_from_fds os desc_size fds
                   (case fdnames of Ok n \<Rightarrow> split_on (CHR '':'') n | _ \<Rightarrow> []))),
          unset_vars unset_env env))"

section \<open>What is returned\<close>

definition name_at :: "bytes list \<Rightarrow> nat \<Rightarrow> bytes option" where
  "name_at ns k = (if k < length ns then Some (ns ! k) else None)"

text \<open>The reference: the descriptor of an offset, if it is a socket that can be used.\<close>

definition descriptor_at :: "os \<Rightarrow> bytes list \<Rightarrow> nat \<Rightarrow> FileDescriptor option" where
  "descriptor_at os ns k =
     (let fd = word_of_nat (3 + k) in
      case (stream_of_type (so_type os fd), inet_of_family (so_family os fd)) of
        (Some tcp, Some inet) \<Rightarrow>
          if sock_listening os fd
          then Some \<lparr>raw_fd = fd, tcp_not_udp = tcp, inet_not_unix = inet, fd_name = name_at ns k\<rparr> else None
      | _ \<Rightarrow> None)"

lemma sint_as_i32: "n < 2 ^ 31 \<Longrightarrow> sint (as_i32 n) = int n"
  by (simp add: as_i32_def signed_of_nat signed_take_bit_int_eq_self)

lemma checked_add_small:
  assumes "k + 3 < 2 ^ 31"
  shows "checked_add_i32 sd_listen_fds_start (as_i32 k) = Some (word_of_nat (3 + k))"
proof -
  have "sint (3 :: 32 word) = 3" by simp
  moreover have "sint (as_i32 k) = int k" using assms by (intro sint_as_i32) simp
  ultimately show ?thesis using assms by (simp add: checked_add_i32_def sd_listen_fds_start_def as_i32_def)
qed

lemma checked_add_last:
  assumes "2 ^ 31 \<le> k + 3" and "k < 2 ^ 31"
  shows "checked_add_i32 sd_listen_fds_start (as_i32 k) = None"
proof -
  have "sint (3 :: 32 word) = 3" by simp
  moreover have "sint (as_i32 k) = int k" using assms by (intro sint_as_i32)
  ultimately show ?thesis using assms by (simp add: checked_add_i32_def sd_listen_fds_start_def)
qed

lemma next_name_drop: "next_name (drop k ns) = (name_at ns k, drop (Suc k) ns)"
  by (auto simp: next_name_def name_at_def Cons_nth_drop_Suc [symmetric] split: list.split)

lemma socks_loop_reference:
  "m + j + 2 < 2 ^ 31 \<Longrightarrow> socks_loop os num [j..<j + m] (drop j ns) ds
     = Ok (ds @ List.map_filter (descriptor_at os ns) [j..<j + m])"
proof (induction m arbitrary: j ds)
  case (Suc m)
  have u: "[j..<j + Suc m] = j # [Suc j..<Suc j + m]" by (simp add: upt_conv_Cons)
  have "checked_add_i32 sd_listen_fds_start (as_i32 j) = Some (word_of_nat (3 + j))"
    using Suc.prems by (intro checked_add_small) simp
  with Suc.IH [of "Suc j"] Suc.prems show ?case
    unfolding u by (auto simp: next_name_drop descriptor_at_def Let_def map_filter_simps split: option.splits)
qed (simp add: map_filter_simps)

lemma drop_next_name: "next_name ns = (n, ns') \<Longrightarrow> ns' = drop 1 ns"
  by (auto simp: next_name_def split: list.splits)

lemma socks_loop_append:
  "socks_loop os num (ks @ ks') ns ds =
     (case socks_loop os num ks ns ds of
        Ok ds' \<Rightarrow> socks_loop os num ks' (drop (length ks) ns) ds'
      | Err e \<Rightarrow> Err e
      | Panic \<Rightarrow> Panic)"
proof (induction ks arbitrary: ns ds)
  case (Cons k ks)
  obtain n ns' where n: "next_name ns = (n, ns')" by (cases "next_name ns")
  then have d: "drop (length (k # ks)) ns = drop (length ks) ns'" by (auto dest: drop_next_name)
  show ?case
    unfolding append_Cons socks_loop.simps n prod.case d Cons.IH by (auto split: option.splits)
qed simp

lemma socks_from_fds_reference:
  assumes "num < 2 ^ 31 - 2" and "num * sz < 2 ^ 63"
  shows "socks_from_fds os sz num ns = Ok (List.map_filter (descriptor_at os ns) [0..<num])"
  using assms socks_loop_reference [of num 0 os num ns "[]"] by (simp add: socks_from_fds_def)

lemma socks_loop_overlarge:
  assumes "m + 3 = 2 ^ 31" and "m < num"
  shows "socks_loop os k [0..<num] ns [] = Err (OverlargeFd k)"
proof -
  have split: "[0..<num] = [0..<m] @ m # [Suc m..<num]"
    using assms(2) upt_add_eq_append [of 0 m "num - m"] by (simp add: upt_conv_Cons del: upt_Suc)
  have "socks_loop os k [0..<m] ns [] = Ok (List.map_filter (descriptor_at os ns) [0..<m])"
    using socks_loop_reference [of m 0 os k ns "[]"] assms(1) by (simp del: upt_Suc)
  moreover have "checked_add_i32 sd_listen_fds_start (as_i32 m) = None"
    using assms(1) by (intro checked_add_last) simp_all
  ultimately show ?thesis
    unfolding split socks_loop_append by (simp del: upt_Suc split: prod.split)
qed

lemma socks_from_fds_overlarge:
  assumes "2 ^ 31 - 2 \<le> num" and "num * sz < 2 ^ 63"
  shows "socks_from_fds os sz num ns = Err (OverlargeFd num)"
proof -
  obtain m where m: "m + 3 = (2 :: nat) ^ 31"
    by (rule that [of "2 ^ 31 - 3"]) simp
  with assms show ?thesis
    using socks_loop_overlarge [OF m, of num os num ns] by (simp add: socks_from_fds_def del: upt_Suc)
qed

lemma parse_digits_append:
  "parse_digits b n (s @ t) = (case parse_digits b n s of None \<Rightarrow> None | Some k \<Rightarrow> parse_digits b k t)"
  by (induction s arbitrary: n) (auto split: option.split)

lemma digit_of_char:
  assumes "0 \<le> d" and "d < 10"
  shows "digit_of (digit_char d) = Some (nat d)"
proof -
  have "\<forall>k\<in>{0..<10 :: int}. digit_of (digit_char k) = Some (nat k)" by code_simp
  with assms show ?thesis by simp
qed

lemma show_base_nonempty: "show_base b n \<noteq> []"
  by (subst show_base.simps) simp

lemma show_base_hd: "0 \<le> n \<Longrightarrow> hd (show_base 10 n) \<noteq> CHR ''+''"
proof -
  have "hd (show_base 10 n) \<in> set hex_digits"
    using show_base_chars [of 10 n] show_base_nonempty [of 10 n] by (meson hd_in_set subsetD)
  moreover have "CHR ''+'' \<notin> set hex_digits" by code_simp
  ultimately show "0 \<le> n \<Longrightarrow> ?thesis" by metis
qed

lemma parse_show_base:
  assumes "b = 10" and "0 \<le> n" and "n < int bound"
  shows "parse_digits bound 0 (show_base b n) = Some (nat n)"
  using assms
proof (induction b n rule: show_base.induct)
  case (1 b n)
  show ?case
  proof (cases "n < 10")
    case True
    with 1 digit_of_char [of n] show ?thesis by (subst show_base.simps) (simp add: nat_less_iff)
  next
    case False
    have "n div 10 < int bound" using 1 False by (simp add: div_le_dividend) 
    then have "parse_digits bound 0 (show_base 10 (n div 10)) = Some (nat (n div 10))"
      using 1 False by simp
    moreover have "nat (n div 10) * 10 + nat (n mod 10) = nat n" using 1(3) by (simp add: nat_div_distrib nat_mod_distrib)
    moreover have "nat n < bound" using 1 by (simp add: nat_less_iff)
    ultimately show ?thesis
      using 1(2) False digit_of_char [of "n mod 10"] by (subst show_base.simps) (simp add: parse_digits_append)
  qed
qed

lemma parse_show_num: "n < bound \<Longrightarrow> parse_unsigned bound (show_num (int n)) = Some n"
  using parse_show_base [of 10 "int n" bound] show_base_hd [of "int n"] show_base_nonempty [of 10 "int n"]
  by (auto simp: parse_unsigned_def show_num_def Let_def split: list.splits)

section \<open>Properties\<close>

text \<open>The environment that systemd sets up for a process: its number, how many descriptors, and
  their names.\<close>

definition listen_env :: "nat \<Rightarrow> nat \<Rightarrow> bytes option \<Rightarrow> bytes \<Rightarrow> bytes option" where
  "listen_env pid n fdnames =
     [''LISTEN_PID'' \<mapsto> show_num (int pid), ''LISTEN_FDS'' \<mapsto> show_num (int n)](''LISTEN_FDNAMES'' := fdnames)"

definition names_of :: "bytes option \<Rightarrow> bytes list" where
  "names_of fdnames =
     (case fdnames of Some s \<Rightarrow> if utf8_valid s then split_on (CHR '':'') s else [] | None \<Rightarrow> [])"

lemma show_num_utf8: "utf8_valid (show_num n)"
proof -
  have "list_all is_ascii hex_digits" by code_simp
  then have "list_all is_ascii (show_num n)"
    using show_base_chars [of 10 n] by (auto simp: show_num_def list_all_iff)
  then show ?thesis by (rule utf8_valid_ascii)
qed

lemma listen_env_vars:
  "env_var (listen_env pid n fdnames) ''LISTEN_PID'' = Ok (show_num (int pid))"
  "env_var (listen_env pid n fdnames) ''LISTEN_FDS'' = Ok (show_num (int n))"
  "(case env_var (listen_env pid n fdnames) ''LISTEN_FDNAMES'' of Ok s \<Rightarrow> split_on (CHR '':'') s | _ \<Rightarrow> []) = names_of fdnames"
  by (simp_all add: env_var_def listen_env_def show_num_utf8 names_of_def split: option.split)

lemma receive_as_socks:
  assumes "pid < 2 ^ 32" and "n < 2 ^ 64"
  shows "receive_descriptors_with_names os sz process_id unset_env (listen_env pid n fdnames)
      = (if process_id \<noteq> pid then Err PidMismatch else socks_from_fds os sz n (names_of fdnames),
         unset_vars unset_env (listen_env pid n fdnames))"
  using parse_show_num [OF assms(1)] parse_show_num [OF assms(2)]
  unfolding receive_descriptors_with_names_def Let_def listen_env_vars
  by (simp add: env_number_def)

text \<open>C22: for the variables systemd sets, exactly the descriptors 3, 4, ... that are listening
  sockets of a usable kind are returned, in order, each with its kind, its family and the
  name at its own place in the list of names; a process that is not addressed gets none; and a
  number of descriptors that leaves the range of a descriptor is an error, however few of
  them are sockets.\<close>

theorem receive_descriptors_reference:
  assumes "pid < 2 ^ 32" and "n * sz < 2 ^ 63" and "n < 2 ^ 64"
  shows "fst (receive_descriptors_with_names os sz process_id unset_env (listen_env pid n fdnames))
      = (if process_id \<noteq> pid then Err PidMismatch
         else if n < 2 ^ 31 - 2 then Ok (List.map_filter (descriptor_at os (names_of fdnames)) [0..<n])
         else Err (OverlargeFd n))"
  using socks_from_fds_reference [OF _ assms(2), of os "names_of fdnames"]
    socks_from_fds_overlarge [OF _ assms(2), of os "names_of fdnames"]
  unfolding receive_as_socks [OF assms(1,3)] by (simp del: upt_Suc)

definition example_os :: os where
  "example_os =
     \<lparr>so_acceptconn = (\<lambda>fd. Some (fd = 3 \<or> fd = 5)),
      so_type = (\<lambda>fd. Some (if fd = 4 then SockDatagram else SockStream)),
      so_family = (\<lambda>fd. Some (if fd = 5 then FamilyUnix else FamilyInet6))\<rparr>"

lemma receive_descriptors_reference_witness:
  "fst (receive_descriptors_with_names example_os 32 77 True (listen_env 77 3 (Some ''in:q:out'')))
      = (if 77 \<noteq> (77 :: nat) then Err PidMismatch
         else if 3 < (2 :: nat) ^ 31 - 2 then Ok (List.map_filter (descriptor_at example_os (names_of (Some ''in:q:out''))) [0..<3])
         else Err (OverlargeFd 3))"
  by (rule receive_descriptors_reference) simp_all

lemma socks_loop_listening:
  assumes "socks_loop os num ks ns ds = Ok r" and "d \<in> set r"
  shows "d \<in> set ds \<or> sock_listening os (raw_fd d) \<and> stream_of_type (so_type os (raw_fd d)) = Some (tcp_not_udp d)"
  using assms
proof (induction ks arbitrary: ns ds)
  case (Cons k ks)
  then show ?case
    by (auto simp: Let_def split: prod.splits option.splits if_splits) (fastforce+)?
qed simp

text \<open>Where a datagram socket is never in the state of accepting connections, none is returned.\<close>

lemma received_are_streams:
  assumes "\<And>fd. so_type os fd = Some SockDatagram \<Longrightarrow> so_acceptconn os fd \<noteq> Some True"
    and "fst (receive_descriptors_with_names os sz process_id unset_env env) = Ok ds"
  shows "list_all tcp_not_udp ds"
  unfolding list_all_iff
proof
  fix d assume d: "d \<in> set ds"
  from assms(2) obtain n ns where "socks_from_fds os sz n ns = Ok ds"
    by (auto simp: receive_descriptors_with_names_def Let_def outcome_simps split: if_splits)
  then have "socks_loop os n [0..<n] ns [] = Ok ds" by (simp add: socks_from_fds_def split: if_splits)
  from socks_loop_listening [OF this d]
  have "sock_listening os (raw_fd d)" "stream_of_type (so_type os (raw_fd d)) = Some (tcp_not_udp d)" by auto
  with assms(1) [of "raw_fd d"] show "tcp_not_udp d"
    by (auto simp: sock_listening_def stream_of_type_def split: option.splits SockType.splits)
qed

end
