(* ===== verification/Certs_Key.thy ===== *)
theory Certs_Key
  imports Verify Quic_Suite
begin

text \<open>
  Model of \<open>src/common/certs_key.rs\<close>, of reading the certificate and key from their files
  (\<open>src/common/mod.rs\<close>), of the TLS configurations made with them (\<open>src/common/incoming.rs\<close>,
  \<open>src/quic/incoming.rs\<close>), and of the task that loads them again on a signal (\<open>src/main.rs\<close>).

  \<open>'k\<close> is the type \<open>CertifiedKey\<close>.  The lock is held only for one assignment or one read, so the
  shared cell is its content; it is not poisoned, since no thread panics while it holds it.
\<close>

section \<open>Reading the files\<close>

text \<open>
  The PEM parser gives the items of a file, each of which may be bad; the first private key the
  provider can load is taken, and a bad certificate is an error.  Without a provider it panics.
\<close>

fun first_key :: "('pem \<Rightarrow> 'sk outcome) \<Rightarrow> 'pem outcome list \<Rightarrow> 'sk outcome" where
  "first_key load_private_key [] = Err IoError"
| "first_key load_private_key (Ok pk # items) =
     (case load_private_key pk of
        Ok k \<Rightarrow> Ok k
      | Err e \<Rightarrow> first_key load_private_key items
      | Panic \<Rightarrow> Panic)"
| "first_key load_private_key (Err e # items) = first_key load_private_key items"
| "first_key load_private_key (Panic # items) = Panic"

fun all_certs :: "bytes list \<Rightarrow> bytes outcome list \<Rightarrow> bytes list outcome" where
  "all_certs tls_certs [] = Ok tls_certs"
| "all_certs tls_certs (Ok c # items) = all_certs (tls_certs @ [c]) items"
| "all_certs tls_certs (Err e # items) = Err e"
| "all_certs tls_certs (Panic # items) = Panic"

definition read_certified_key ::
    "('pem \<Rightarrow> 'sk outcome) option \<Rightarrow> 'pem outcome list outcome \<Rightarrow> bytes outcome list outcome \<Rightarrow> (bytes list \<times> 'sk) outcome"
where
  "read_certified_key key_provider key_file cert_file =
     (case key_provider of
        None \<Rightarrow> Panic
      | Some load_private_key \<Rightarrow>
          bind_ok key_file (\<lambda>items.
          bind_ok (first_key load_private_key items) (\<lambda>tls_key.
          bind_ok cert_file (\<lambda>certs.
          bind_ok (all_certs [] certs) (\<lambda>tls_certs. Ok (tls_certs, tls_key))))))"

section \<open>The shared cell\<close>

record 'k CertsKey =
  inner :: "'k outcome"

definition CertsKey_new :: "'k outcome \<Rightarrow> 'k CertsKey" where
  "CertsKey_new certified_key = \<lparr>inner = certified_key\<rparr>"

definition CertsKey_debug :: "'k CertsKey \<Rightarrow> bytes" where
  "CertsKey_debug ck = (if is_ok (inner ck) then ''CertsKey(Some)'' else ''CertsKey(None)'')"

definition resolve_server_cert :: "'k CertsKey \<Rightarrow> 'k option" where
  "resolve_server_cert ck = to_option (inner ck)"

definition resolve_client_cert :: "'k CertsKey \<Rightarrow> 'k option" where
  "resolve_client_cert ck = to_option (inner ck)"

definition has_certs :: "'k CertsKey \<Rightarrow> bool" where
  "has_certs ck = is_ok (inner ck)"

section \<open>Configurations for connections from outside\<close>

record 'k ServerConfig =
  asks_client_cert :: bool
  cert_resolver :: "'k CertsKey"
  server_alpn :: "bytes list"

definition server_config :: "'k CertsKey \<Rightarrow> 'k ServerConfig outcome" where
  "server_config ck =
     (case inner ck of
        Ok k \<Rightarrow> Ok \<lparr>asks_client_cert = offer_client_auth, cert_resolver = ck, server_alpn = [''xmpp-client'', ''xmpp-server'']\<rparr>
      | Err e \<Rightarrow> Err e
      | Panic \<Rightarrow> Panic)"

text \<open>For QUIC the suite for initial packets has to be found, and accepted by the library.\<close>

definition quic_server_config ::
    "bytes \<Rightarrow> CipherSuite list option \<Rightarrow> ('k ServerConfig \<Rightarrow> bytes \<Rightarrow> unit outcome) \<Rightarrow> 'k ServerConfig \<Rightarrow> 'k ServerConfig outcome"
where
  "quic_server_config webtransport_alpn provider with_initial cfg =
     (let cfg = cfg\<lparr>server_alpn := server_alpn cfg @ [webtransport_alpn]\<rparr> in
      bind_ok (initial_suite_from_provider provider) (\<lambda>suite. bind_ok (with_initial cfg suite) (\<lambda>u. Ok cfg)))"

section \<open>Loading again\<close>

text \<open>
  What \<open>spawn_refresh_task\<close> does on one SIGHUP, given what parsing the configuration and reading
  the files it names returned; a panic of the reading is one of the task.
\<close>

definition refresh :: "'k outcome \<Rightarrow> 'k CertsKey \<Rightarrow> 'k CertsKey outcome" where
  "refresh parsed ck =
     (case parsed of
        Ok cert_key \<Rightarrow> Ok (if is_ok (inner ck) then ck\<lparr>inner := Ok cert_key\<rparr> else ck)
      | Err e \<Rightarrow> Ok ck
      | Panic \<Rightarrow> Panic)"

text \<open>The task is spawned when there is a key to replace.\<close>

definition refresh_task_spawned :: "'k CertsKey \<Rightarrow> bool" where
  "refresh_task_spawned ck = is_ok (inner ck)"

text \<open>Its loop: when it panics the task is over, and no further signal changes the key.\<close>

fun refresh_loop :: "'k outcome list \<Rightarrow> 'k CertsKey \<Rightarrow> 'k CertsKey" where
  "refresh_loop [] ck = ck"
| "refresh_loop (parsed # loads) ck =
     (case refresh parsed ck of
        Ok ck' \<Rightarrow> refresh_loop loads ck'
      | _ \<Rightarrow> ck)"

definition after_signals :: "'k outcome list \<Rightarrow> 'k CertsKey \<Rightarrow> 'k CertsKey" where
  "after_signals loads ck = (if refresh_task_spawned ck then refresh_loop loads ck else ck)"

section \<open>What they keep\<close>

text \<open>The keys that were read, before a panic if there is one.\<close>

definition returns :: "'a outcome \<Rightarrow> bool" where
  "returns r = (case r of Panic \<Rightarrow> False | _ \<Rightarrow> True)"

lemma returns_simps [simp]: "returns (Ok x)" "returns (Err e)" "\<not> returns Panic"
  by (simp_all add: returns_def)

definition loaded :: "'k outcome list \<Rightarrow> 'k list" where
  "loaded loads = List.map_filter to_option (takeWhile returns loads)"

lemma loaded_simps [simp]:
  "loaded [] = []" "loaded (Ok k # loads) = k # loaded loads" "loaded (Err e # loads) = loaded loads"
  "loaded (Panic # loads) = []"
  by (simp_all add: loaded_def map_filter_simps)

lemma refresh_loop_key:
  "inner ck = Ok k \<Longrightarrow> inner (refresh_loop loads ck) = Ok (last (k # loaded loads))"
proof (induction loads arbitrary: ck k)
  case (Cons p loads)
  then show ?case by (cases p) (auto simp: refresh_def)
qed simp

lemma refresh_loop_panic: "refresh_loop (loads @ Panic # later) ck = refresh_loop loads ck"
  by (induction loads arbitrary: ck) (auto simp: refresh_def split: outcome.split)

lemma loaded_subset: "k \<in> set (loaded loads) \<Longrightarrow> Ok k \<in> set loads"
proof (induction loads)
  case (Cons p loads)
  then show ?case by (cases p) auto
qed simp

lemma all_certs_Ok: "all_certs cs items = Ok r \<longleftrightarrow> (\<exists>ds. items = map Ok ds \<and> r = cs @ ds)"
proof (induction cs items rule: all_certs.induct)
  case (2 tls_certs c items)
  then show ?case by (auto simp: Cons_eq_map_conv)
qed (auto simp: Cons_eq_map_conv)

lemma first_key_Ok:
  "first_key load items = Ok k \<Longrightarrow> \<exists>xs pk ys. items = xs @ Ok pk # ys \<and> load pk = Ok k
     \<and> (\<forall>q. Ok q \<in> set xs \<longrightarrow> \<not> is_ok (load q))"
proof (induction load items rule: first_key.induct)
  case (2 load pk items)
  show ?case
  proof (cases "load pk")
    case (Ok j)
    with 2 show ?thesis by (intro exI [of _ "[]"]) auto
  next
    case (Err e)
    with 2 obtain xs q ys where "items = xs @ Ok q # ys" "load q = Ok k" "\<forall>q. Ok q \<in> set xs \<longrightarrow> \<not> is_ok (load q)"
      by auto
    with Err show ?thesis by (intro exI [of _ "Ok pk # xs"]) auto
  qed (use 2 in simp)
next
  case (3 load e items)
  then obtain xs q ys where "items = xs @ Ok q # ys" "load q = Ok k" "\<forall>q. Ok q \<in> set xs \<longrightarrow> \<not> is_ok (load q)"
    by auto
  then show ?case by (intro exI [of _ "Err e # xs"]) auto
qed simp_all

section \<open>Properties\<close>

text \<open>C23: whatever signals arrive and whatever reading the files gives, a proxy that started with a
  key keeps one: at any time servers and clients are shown the key that was last read
  successfully, and a failed reload changes nothing.  A reload that panics ends the task, so that
  no later one is made and the key stays what it was.\<close>

theorem reload_keeps_a_key:
  assumes "inner ck = Ok k"
  shows "resolve_server_cert (after_signals loads ck) = Some (last (k # loaded loads))
    \<and> resolve_client_cert (after_signals loads ck) = Some (last (k # loaded loads))
    \<and> has_certs (after_signals loads ck)
    \<and> (\<forall>j\<in>set (loaded loads). Ok j \<in> set loads)
    \<and> after_signals (loads @ Panic # later) ck = after_signals loads ck"
  using refresh_loop_key [OF assms, of loads] refresh_loop_panic [of loads later ck] assms loaded_subset
  by (auto simp: resolve_server_cert_def resolve_client_cert_def has_certs_def after_signals_def refresh_task_spawned_def)

lemma reload_keeps_a_key_witness:
  "resolve_server_cert (after_signals [Err IoError, Ok (2 :: int), Err IoError] \<lparr>inner = Ok 1\<rparr>) = Some 2
    \<and> resolve_client_cert (after_signals [Err IoError, Ok (2 :: int), Err IoError] \<lparr>inner = Ok 1\<rparr>) = Some 2
    \<and> has_certs (after_signals [Err IoError, Ok (2 :: int), Err IoError] \<lparr>inner = Ok 1\<rparr>)
    \<and> after_signals ([Err IoError, Ok (2 :: int), Err IoError] @ Panic # [Ok 3]) \<lparr>inner = Ok 1\<rparr>
      = after_signals [Err IoError, Ok (2 :: int), Err IoError] \<lparr>inner = Ok 1\<rparr>"
  using reload_keeps_a_key [of "\<lparr>inner = Ok (1 :: int)\<rparr>" 1 "[Err IoError, Ok 2, Err IoError]" "[Ok 3]"]
  by simp

end
