(* ===== verification/Quic_Sockets.thy ===== *)
theory Quic_Sockets
  imports Rust_Net
begin

text \<open>
  Model of \<open>src/quic/unix_datagram.rs\<close>: a Unix datagram socket behind quinn's interface for UDP
  sockets.  The socket of tokio is a parameter: its \<open>writable\<close> futures, whether it is ready to be
  read, and what a receive returns.

  A future that has returned must not be polled again; the futures made here are \<open>async move\<close>
  blocks, for which that is a panic.  \<open>UdpPollHelper\<close> keeps one future until it has returned and then
  drops it.  The locale of futures of one use states what the helper needs of the futures it makes,
  and is interpreted on those blocks.
\<close>

section \<open>Polling\<close>

datatype 'a Poll = Pending | PollReady 'a

text \<open>
  An \<open>async move\<close> block that awaits one future: the future is made at the first poll, and the block
  has returned when the future has.
\<close>

datatype 'g async_block = Unresumed | Suspended 'g | Returned

record ('g, 'w, 'r) pollable =
  make_pollable :: "'w \<Rightarrow> 'g \<times> 'w"
  poll_pollable :: "'g \<Rightarrow> 'w \<Rightarrow> 'r Poll \<times> 'g \<times> 'w"

fun poll_suspended ::
    "('g, 'w, 'r) pollable \<Rightarrow> 'g \<times> 'w \<Rightarrow> 'r Poll outcome \<times> 'g async_block \<times> 'w"
where
  "poll_suspended p (g, w) =
     (case poll_pollable p g w of
        (Pending, g, w) \<Rightarrow> (Ok Pending, Suspended g, w)
      | (PollReady r, g, w) \<Rightarrow> (Ok (PollReady r), Returned, w))"

fun poll_block ::
    "('g, 'w, 'r) pollable \<Rightarrow> 'g async_block \<Rightarrow> 'w \<Rightarrow> 'r Poll outcome \<times> 'g async_block \<times> 'w"
where
  "poll_block p Unresumed w = poll_suspended p (make_pollable p w)"
| "poll_block p (Suspended g) w = poll_suspended p (g, w)"
| "poll_block p Returned w = (Panic, Returned, w)"

section \<open>The poller of a socket\<close>

record 'f UdpPollHelper =
  make_fut :: "unit \<Rightarrow> 'f"
  fut :: "'f option"

definition UdpPollHelper_new :: "(unit \<Rightarrow> 'f) \<Rightarrow> 'f UdpPollHelper" where
  "UdpPollHelper_new mk = \<lparr>make_fut = mk, fut = None\<rparr>"

definition poll_writable ::
    "('f \<Rightarrow> 'w \<Rightarrow> 'r Poll outcome \<times> 'f \<times> 'w) \<Rightarrow> 'f UdpPollHelper \<Rightarrow> 'w
      \<Rightarrow> 'r Poll outcome \<times> 'f UdpPollHelper \<times> 'w"
where
  "poll_writable poll this w =
     (let this = (case fut this of None \<Rightarrow> this\<lparr>fut := Some (make_fut this ())\<rparr> | Some f \<Rightarrow> this) in
      case fut this of
        None \<Rightarrow> (Panic, this, w)
      | Some f \<Rightarrow>
          (case poll f w of
             (Ok (PollReady r), f, w) \<Rightarrow> (Ok (PollReady r), this\<lparr>fut := None\<rparr>, w)
           | (result, f, w) \<Rightarrow> (result, this\<lparr>fut := Some f\<rparr>, w)))"

text \<open>The closure of \<open>create_io_poller\<close> makes a block that awaits \<open>writable\<close> of the socket.\<close>

definition create_io_poller :: "'g async_block UdpPollHelper" where
  "create_io_poller = UdpPollHelper_new (\<lambda>u. Unresumed)"

text \<open>The answers to a number of calls.\<close>

fun poll_calls ::
    "('f \<Rightarrow> 'w \<Rightarrow> 'r Poll outcome \<times> 'f \<times> 'w) \<Rightarrow> nat \<Rightarrow> 'f UdpPollHelper \<Rightarrow> 'w \<Rightarrow> 'r Poll outcome list"
where
  "poll_calls poll 0 h w = []"
| "poll_calls poll (Suc n) h w =
     (case poll_writable poll h w of (a, h, w) \<Rightarrow> a # poll_calls poll n h w)"

section \<open>The socket\<close>

record ('o, 'i) UnixUdpSocket =
  inner_io :: 'o
  inner_state :: 'i

definition wrap_unix_udp_socket ::
    "('k \<Rightarrow> 'i outcome) \<Rightarrow> ('k \<Rightarrow> 'o outcome) \<Rightarrow> 'k \<Rightarrow> ('o, 'i) UnixUdpSocket outcome"
where
  "wrap_unix_udp_socket state_new from_std sock =
     bind_ok (state_new sock) (\<lambda>inner.
     bind_ok (from_std sock) (\<lambda>io. Ok \<lparr>inner_io = io, inner_state = inner\<rparr>))"

text \<open>The address of a Unix socket is a constant.\<close>

definition loopback :: SocketAddr where
  "loopback = SocketAddrV4 0x7F000001 0"

definition UnixUdpSocket_local_addr :: "('o, 'i) UnixUdpSocket \<Rightarrow> SocketAddr outcome" where
  "UnixUdpSocket_local_addr sock = Ok loopback"

text \<open>
  One turn of the loop of \<open>poll_recv\<close>: what \<open>poll_recv_ready\<close> returns, and what the receive does when
  it is tried.  A list of turns that is used up is a loop that has not returned.
\<close>

type_synonym recv_turn = "unit outcome Poll \<times> nat outcome"

fun poll_recv :: "recv_turn list \<Rightarrow> nat outcome Poll option" where
  "poll_recv [] = None"
| "poll_recv ((ready, recv) # ts) =
     (case ready of
        Pending \<Rightarrow> Some Pending
      | PollReady (Ok u) \<Rightarrow>
          (case recv of
             Ok res \<Rightarrow> Some (PollReady (Ok res))
           | Err e \<Rightarrow> poll_recv ts
           | Panic \<Rightarrow> Some (PollReady Panic))
      | PollReady (Err e) \<Rightarrow> Some (PollReady (Err e))
      | PollReady Panic \<Rightarrow> Some (PollReady Panic))"

section \<open>Futures of one use\<close>

text \<open>
  What the helper needs: a future that has just been made may be polled, polling one that may be
  polled does not panic, and one that is pending may be polled again.
\<close>

locale single_use =
  fixes poll :: "'f \<Rightarrow> 'w \<Rightarrow> 'r Poll outcome \<times> 'f \<times> 'w"
    and mk :: "unit \<Rightarrow> 'f"
    and live :: "'f \<Rightarrow> bool"
  assumes made_live: "live (mk ())"
    and live_polled: "live f \<Longrightarrow> poll f w = (a, f', w') \<Longrightarrow> \<exists>r. a = Ok r \<and> (r = Pending \<longrightarrow> live f')"
begin

definition usable :: "'f UdpPollHelper \<Rightarrow> bool" where
  "usable h \<longleftrightarrow> make_fut h = mk \<and> (\<forall>f. fut h = Some f \<longrightarrow> live f)"

lemma usable_new: "usable (UdpPollHelper_new mk)"
  by (simp add: usable_def UdpPollHelper_new_def)

lemma poll_writable_usable:
  assumes "usable h" and "poll_writable poll h w = (a, h', w')"
  shows "usable h' \<and> (\<exists>r. a = Ok r)"
proof -
  define f where "f = (case fut h of None \<Rightarrow> mk () | Some f \<Rightarrow> f)"
  have f: "live f" using assms(1) made_live by (auto simp: f_def usable_def split: option.splits)
  obtain b f' w'' where p: "poll f w = (b, f', w'')" by (cases "poll f w") auto
  from live_polled [OF f p] obtain r where b: "b = Ok r" and r: "r = Pending \<longrightarrow> live f'" by blast
  show ?thesis
    using assms p b r by (cases "fut h"; cases r) (auto simp: poll_writable_def usable_def f_def Let_def)
qed

lemma poll_calls_ok: "usable h \<Longrightarrow> Panic \<notin> set (poll_calls poll n h w)"
proof (induction n arbitrary: h w)
  case (Suc n)
  obtain a h' w' where p: "poll_writable poll h w = (a, h', w')" by (cases "poll_writable poll h w") auto
  with poll_writable_usable [OF Suc.prems p] Suc.IH [of h' w'] show ?case by auto
qed simp

end

interpretation block: single_use "poll_block p" "\<lambda>u. Unresumed" "\<lambda>f. f \<noteq> Returned" for p
proof
  fix f w a f' w'
  assume "f \<noteq> Returned" and "poll_block p f w = (a, f', w')"
  then show "\<exists>r. a = Ok r \<and> (r = Pending \<longrightarrow> f' \<noteq> Returned)"
    by (cases f; cases "make_pollable p w") (auto split: prod.splits Poll.splits)
qed simp

section \<open>What the calls of the poller give\<close>

text \<open>
  The reference: the futures of the socket one after the other, each polled until it has returned.
\<close>

fun await_each ::
    "('g, 'w, 'r) pollable \<Rightarrow> nat \<Rightarrow> 'g option \<Rightarrow> 'w \<Rightarrow> 'r Poll list"
where
  "await_each p 0 cur w = []"
| "await_each p (Suc n) cur w =
     (case (case cur of None \<Rightarrow> make_pollable p w | Some g \<Rightarrow> (g, w)) of (g, w) \<Rightarrow>
        (case poll_pollable p g w of
           (Pending, g, w) \<Rightarrow> Pending # await_each p n (Some g) w
         | (PollReady r, g, w) \<Rightarrow> PollReady r # await_each p n None w))"

definition helper_of :: "'g option \<Rightarrow> 'g async_block UdpPollHelper" where
  "helper_of cur = \<lparr>make_fut = \<lambda>u. Unresumed, fut = map_option Suspended cur\<rparr>"

lemma poll_writable_helper:
  "poll_writable (poll_block p) (helper_of cur) w =
     (case (case cur of None \<Rightarrow> make_pollable p w | Some g \<Rightarrow> (g, w)) of (g, w) \<Rightarrow>
        (case poll_pollable p g w of
           (Pending, g, w) \<Rightarrow> (Ok Pending, helper_of (Some g), w)
         | (PollReady r, g, w) \<Rightarrow> (Ok (PollReady r), helper_of None, w)))"
  by (cases cur; cases "make_pollable p w")
    (auto simp: poll_writable_def helper_of_def Let_def split: prod.splits Poll.splits)

lemma poll_calls_await: "poll_calls (poll_block p) n (helper_of cur) w = map Ok (await_each p n cur w)"
  by (induction n arbitrary: cur w) (auto simp: poll_writable_helper split: prod.splits Poll.splits)

lemma create_io_poller_helper: "create_io_poller = helper_of None"
  by (simp add: create_io_poller_def UdpPollHelper_new_def helper_of_def)

text \<open>A receive that fails is tried again, and is never what is returned.\<close>

lemma poll_recv_skips: "list_all (\<lambda>(r, v). r = PollReady (Ok ()) \<and> (\<exists>e. v = Err e)) es \<Longrightarrow> poll_recv (es @ ts) = poll_recv ts"
  by (induction es) auto

lemma poll_recv_ErrD: "poll_recv ts = Some (PollReady (Err e)) \<Longrightarrow> \<exists>v. (PollReady (Err e), v) \<in> set ts"
  by (induction ts rule: poll_recv.induct) (auto split: Poll.splits outcome.splits)

lemma poll_recv_OkD:
  "poll_recv ts = Some (PollReady (Ok n)) \<Longrightarrow>
     \<exists>es us. ts = es @ (PollReady (Ok ()), Ok n) # us \<and> list_all (\<lambda>(r, v). r = PollReady (Ok ()) \<and> (\<exists>e. v = Err e)) es"
proof (induction ts)
  case (Cons t ts)
  obtain ready recv where t: "t = (ready, recv)" by (cases t)
  show ?case
  proof (cases "\<exists>e. ready = PollReady (Ok ()) \<and> recv = Err e")
    case True
    with Cons t obtain es us where "ts = es @ (PollReady (Ok ()), Ok n) # us"
      "list_all (\<lambda>(r, v). r = PollReady (Ok ()) \<and> (\<exists>e. v = Err e)) es" by auto
    with True t show ?thesis by - (rule exI [of _ "t # es"], auto)
  next
    case False
    with Cons t show ?thesis by - (rule exI [of _ "[]"], auto split: Poll.splits outcome.splits)
  qed
qed simp

section \<open>Properties\<close>

text \<open>C26: the poller of a socket may be polled any number of times: it never panics, and its answers
  are those of the \<open>writable\<close> futures of the socket, each made when the one before it has returned and
  polled until it has returned itself.\<close>

theorem poller_awaits_writable:
  "poll_calls (poll_block p) n create_io_poller w = map Ok (await_each p n None w)
    \<and> Panic \<notin> set (poll_calls (poll_block p) n create_io_poller w)"
  using block.poll_calls_ok [OF block.usable_new, of p n w]
  by (simp add: create_io_poller_helper poll_calls_await create_io_poller_def [symmetric])

end
