(* ===== verification/Stream_Halves.thy ===== *)
theory Stream_Halves
  imports Stream_Common Rust_Net Quic_Sockets
begin

text \<open>
  Model of the trait \<open>Split\<close> of \<open>src/common/mod.rs\<close> (a stream, its two halves, and the stream again),
  of \<open>QuicStream\<close> of \<open>src/quic/mod.rs\<close>, and of \<open>AllStream\<close> of \<open>src/common/stream_listener.rs\<close>.

  The streams of tokio and quinn are parameters: what a call of a poll function returns, and the
  stream after it.  For the streams of tokio its own functions take a stream apart and put it
  together again; \<open>QuicStream\<close> does so itself.
\<close>

section \<open>Calls of poll functions\<close>

text \<open>A call is a read of at most so many bytes, or one of the calls of the writing side.\<close>

datatype write_call = PollWrite bytes | PollFlush | PollShutdown

datatype write_answer = HasWritten "nat outcome Poll" | HasDone "unit outcome Poll"

type_synonym io_call = "nat + write_call"
type_synonym io_answer = "bytes outcome Poll + write_answer"

record 'r async_read =
  poll_read :: "nat \<Rightarrow> 'r \<Rightarrow> bytes outcome Poll \<times> 'r"

record 'w async_write =
  poll_write :: "bytes \<Rightarrow> 'w \<Rightarrow> nat outcome Poll \<times> 'w"
  poll_flush :: "'w \<Rightarrow> unit outcome Poll \<times> 'w"
  poll_shutdown :: "'w \<Rightarrow> unit outcome Poll \<times> 'w"
  poll_write_vectored :: "bytes list \<Rightarrow> 'w \<Rightarrow> nat outcome Poll \<times> 'w"
  is_write_vectored :: "'w \<Rightarrow> bool"

fun write_poll :: "'w async_write \<Rightarrow> write_call \<Rightarrow> 'w \<Rightarrow> write_answer \<times> 'w" where
  "write_poll wr (PollWrite bs) w = map_prod HasWritten id (poll_write wr bs w)"
| "write_poll wr PollFlush w = map_prod HasDone id (poll_flush wr w)"
| "write_poll wr PollShutdown w = map_prod HasDone id (poll_shutdown wr w)"

fun io_poll :: "'s async_read \<Rightarrow> 's async_write \<Rightarrow> io_call \<Rightarrow> 's \<Rightarrow> io_answer \<times> 's" where
  "io_poll rd wr (Inl n) s = map_prod Inl id (poll_read rd n s)"
| "io_poll rd wr (Inr c) s = map_prod Inr id (write_poll wr c s)"

fun io_run :: "('c \<Rightarrow> 's \<Rightarrow> 'a \<times> 's) \<Rightarrow> 'c list \<Rightarrow> 's \<Rightarrow> 'a list \<times> 's" where
  "io_run f [] s = ([], s)"
| "io_run f (c # cs) s = (case f c s of (a, s) \<Rightarrow> (case io_run f cs s of (as, s) \<Rightarrow> (a # as, s)))"

section \<open>Streams of QUIC\<close>

record ('w, 'r) QuicStream =
  quic_send :: 'w
  quic_recv :: 'r

definition map_err :: "error \<Rightarrow> 'a outcome Poll \<Rightarrow> 'a outcome Poll" where
  "map_err e a = (case a of PollReady (Err e') \<Rightarrow> PollReady (Err e) | r \<Rightarrow> r)"

definition QuicStream_poll_read ::
    "'r async_read \<Rightarrow> nat \<Rightarrow> ('w, 'r) QuicStream \<Rightarrow> bytes outcome Poll \<times> ('w, 'r) QuicStream"
where
  "QuicStream_poll_read rd n q = (case poll_read rd n (quic_recv q) of (a, r) \<Rightarrow> (a, q\<lparr>quic_recv := r\<rparr>))"

definition QuicStream_poll_write ::
    "'w async_write \<Rightarrow> bytes \<Rightarrow> ('w, 'r) QuicStream \<Rightarrow> nat outcome Poll \<times> ('w, 'r) QuicStream"
where
  "QuicStream_poll_write wr bs q =
     (case poll_write wr bs (quic_send q) of (a, w) \<Rightarrow> (map_err IoError a, q\<lparr>quic_send := w\<rparr>))"

definition QuicStream_poll_flush :: "'w async_write \<Rightarrow> ('w, 'r) QuicStream \<Rightarrow> unit outcome Poll \<times> ('w, 'r) QuicStream" where
  "QuicStream_poll_flush wr q = (case poll_flush wr (quic_send q) of (a, w) \<Rightarrow> (a, q\<lparr>quic_send := w\<rparr>))"

definition QuicStream_poll_shutdown :: "'w async_write \<Rightarrow> ('w, 'r) QuicStream \<Rightarrow> unit outcome Poll \<times> ('w, 'r) QuicStream" where
  "QuicStream_poll_shutdown wr q = (case poll_shutdown wr (quic_send q) of (a, w) \<Rightarrow> (a, q\<lparr>quic_send := w\<rparr>))"

text \<open>
  The stream as a reader and as a writer.  Writing slices is left to the default of tokio, which
  writes the first slice that is not empty.
\<close>

definition quic_read :: "'r async_read \<Rightarrow> ('w, 'r) QuicStream async_read" where
  "quic_read rd = \<lparr>poll_read = QuicStream_poll_read rd\<rparr>"

definition quic_write :: "'w async_write \<Rightarrow> ('w, 'r) QuicStream async_write" where
  "quic_write wr =
     \<lparr>poll_write = QuicStream_poll_write wr, poll_flush = QuicStream_poll_flush wr,
      poll_shutdown = QuicStream_poll_shutdown wr,
      poll_write_vectored = (\<lambda>bufs. QuicStream_poll_write wr (case filter (\<lambda>b. b \<noteq> []) bufs of [] \<Rightarrow> [] | b # bs \<Rightarrow> b)),
      is_write_vectored = (\<lambda>q. False)\<rparr>"

definition QuicStream_combine ::
    "('r \<Rightarrow> nat) \<Rightarrow> ('w \<Rightarrow> nat) \<Rightarrow> 'r \<Rightarrow> 'w \<Rightarrow> ('w, 'r) QuicStream outcome"
where
  "QuicStream_combine recv_id send_id recv send =
     (if recv_id recv \<noteq> send_id send then Err IdsDoNotMatch
      else Ok \<lparr>quic_send = send, quic_recv = recv\<rparr>)"

definition QuicStream_split :: "('w, 'r) QuicStream \<Rightarrow> 'r \<times> 'w" where
  "QuicStream_split q = (quic_recv q, quic_send q)"

text \<open>The streams of the two halves, as a reader and a writer of stanzas.\<close>

definition QuicStream_stanza_rw ::
    "('r \<Rightarrow> reader) \<Rightarrow> ('w \<Rightarrow> sink) \<Rightarrow> ('w, 'r) QuicStream \<Rightarrow> StanzaRead \<times> StanzaWrite"
where
  "QuicStream_stanza_rw rd wr q = (AsyncRead (rd (quic_recv q)), AsyncWrite (wr (quic_send q)))"

section \<open>Streams of tokio\<close>

text \<open>TCP and Unix streams are put together by \<open>reunite\<close>, TLS and buffered ones by \<open>unsplit\<close>.\<close>

definition reunite_combine :: "('r \<Rightarrow> 'w \<Rightarrow> 's outcome) \<Rightarrow> 'r \<Rightarrow> 'w \<Rightarrow> 's outcome" where
  "reunite_combine reunite rd wr = bind_ok (reunite rd wr) Ok"

definition unsplit_combine ::
    "('r \<Rightarrow> 'w \<Rightarrow> bool) \<Rightarrow> ('r \<Rightarrow> 'w \<Rightarrow> 's) \<Rightarrow> 'r \<Rightarrow> 'w \<Rightarrow> 's outcome"
where
  "unsplit_combine is_pair_of unsplit rd wr =
     (if is_pair_of rd wr then Ok (unsplit rd wr) else Err NonMatchingHalf)"

definition split_stanza_rw ::
    "('s \<Rightarrow> 'r \<times> 'w) \<Rightarrow> ('r \<Rightarrow> reader) \<Rightarrow> ('w \<Rightarrow> sink) \<Rightarrow> 's \<Rightarrow> StanzaRead \<times> StanzaWrite"
where
  "split_stanza_rw into_split rd wr s = (case into_split s of (in_rd, in_wr) \<Rightarrow> (AsyncRead (rd in_rd), AsyncWrite (wr in_wr)))"

text \<open>\<open>SocketAddrPath::connect\<close>: the halves of a stream to an address or to a path.\<close>

fun sap_connect ::
    "(SocketAddr \<Rightarrow> 't outcome) \<Rightarrow> (bytes \<Rightarrow> 'u outcome) \<Rightarrow> ('t \<Rightarrow> reader \<times> sink) \<Rightarrow> ('u \<Rightarrow> reader \<times> sink)
      \<Rightarrow> SocketAddr SocketAddrPath \<Rightarrow> (reader \<times> sink) outcome"
where
  "sap_connect tcp unix tcp_split unix_split (SocketAddr sa) = map_outcome tcp_split (tcp sa)"
| "sap_connect tcp unix tcp_split unix_split (SocketPath p) = map_outcome unix_split (unix p)"

section \<open>Either kind of stream\<close>

datatype ('t, 'u) AllStream = AllTcp 't | AllUnix 'u

fun AllStream_poll_read ::
    "'t async_read \<Rightarrow> 'u async_read \<Rightarrow> nat \<Rightarrow> ('t, 'u) AllStream \<Rightarrow> bytes outcome Poll \<times> ('t, 'u) AllStream"
where
  "AllStream_poll_read t u n (AllTcp s) = map_prod id AllTcp (poll_read t n s)"
| "AllStream_poll_read t u n (AllUnix s) = map_prod id AllUnix (poll_read u n s)"

fun AllStream_poll_write ::
    "'t async_write \<Rightarrow> 'u async_write \<Rightarrow> bytes \<Rightarrow> ('t, 'u) AllStream \<Rightarrow> nat outcome Poll \<times> ('t, 'u) AllStream"
where
  "AllStream_poll_write t u bs (AllTcp s) = map_prod id AllTcp (poll_write t bs s)"
| "AllStream_poll_write t u bs (AllUnix s) = map_prod id AllUnix (poll_write u bs s)"

fun AllStream_poll_flush ::
    "'t async_write \<Rightarrow> 'u async_write \<Rightarrow> ('t, 'u) AllStream \<Rightarrow> unit outcome Poll \<times> ('t, 'u) AllStream"
where
  "AllStream_poll_flush t u (AllTcp s) = map_prod id AllTcp (poll_flush t s)"
| "AllStream_poll_flush t u (AllUnix s) = map_prod id AllUnix (poll_flush u s)"

fun AllStream_poll_shutdown ::
    "'t async_write \<Rightarrow> 'u async_write \<Rightarrow> ('t, 'u) AllStream \<Rightarrow> unit outcome Poll \<times> ('t, 'u) AllStream"
where
  "AllStream_poll_shutdown t u (AllTcp s) = map_prod id AllTcp (poll_shutdown t s)"
| "AllStream_poll_shutdown t u (AllUnix s) = map_prod id AllUnix (poll_shutdown u s)"

fun AllStream_poll_write_vectored ::
    "'t async_write \<Rightarrow> 'u async_write \<Rightarrow> bytes list \<Rightarrow> ('t, 'u) AllStream \<Rightarrow> nat outcome Poll \<times> ('t, 'u) AllStream"
where
  "AllStream_poll_write_vectored t u bufs (AllTcp s) = map_prod id AllTcp (poll_write_vectored t bufs s)"
| "AllStream_poll_write_vectored t u bufs (AllUnix s) = map_prod id AllUnix (poll_write_vectored u bufs s)"

fun AllStream_is_write_vectored :: "'t async_write \<Rightarrow> 'u async_write \<Rightarrow> ('t, 'u) AllStream \<Rightarrow> bool" where
  "AllStream_is_write_vectored t u (AllTcp s) = is_write_vectored t s"
| "AllStream_is_write_vectored t u (AllUnix s) = is_write_vectored u s"

definition all_read :: "'t async_read \<Rightarrow> 'u async_read \<Rightarrow> ('t, 'u) AllStream async_read" where
  "all_read t u = \<lparr>poll_read = AllStream_poll_read t u\<rparr>"

definition all_write :: "'t async_write \<Rightarrow> 'u async_write \<Rightarrow> ('t, 'u) AllStream async_write" where
  "all_write t u =
     \<lparr>poll_write = AllStream_poll_write t u, poll_flush = AllStream_poll_flush t u,
      poll_shutdown = AllStream_poll_shutdown t u, poll_write_vectored = AllStream_poll_write_vectored t u,
      is_write_vectored = AllStream_is_write_vectored t u\<rparr>"

section \<open>A stream that stands for another\<close>

text \<open>When each call on the one is a call on the other, so is every sequence of calls.\<close>

locale delegation =
  fixes outer :: "'c \<Rightarrow> 's \<Rightarrow> 'a \<times> 's"
    and inner :: "'c \<Rightarrow> 'i \<Rightarrow> 'a \<times> 'i"
    and wrap :: "'i \<Rightarrow> 's"
  assumes delegated: "outer c (wrap i) = map_prod id wrap (inner c i)"
begin

lemma run_delegated: "io_run outer cs (wrap i) = map_prod id wrap (io_run inner cs i)"
  by (induction cs arbitrary: i) (auto simp: delegated split: prod.splits)

end

lemma map_prod_swap: "map_prod f id (map_prod id g p) = map_prod id g (map_prod f id p)"
  by (cases p) simp

lemma all_write_poll:
  "write_poll (all_write t u) c (AllTcp s) = map_prod id AllTcp (write_poll t c s)"
  "write_poll (all_write t u) c (AllUnix v) = map_prod id AllUnix (write_poll u c v)"
  by (cases c; simp add: all_write_def map_prod_swap)+

interpretation tcp: delegation "io_poll (all_read t u) (all_write t' u')" "io_poll t t'" AllTcp for t u t' u'
proof
  show "io_poll (all_read t u) (all_write t' u') c (AllTcp i) = map_prod id AllTcp (io_poll t t' c i)" for c i
    by (cases c) (simp_all add: all_read_def all_write_poll map_prod_swap)
qed

interpretation unix: delegation "io_poll (all_read t u) (all_write t' u')" "io_poll u u'" AllUnix for t u t' u'
proof
  show "io_poll (all_read t u) (all_write t' u') c (AllUnix i) = map_prod id AllUnix (io_poll u u' c i)" for c i
    by (cases c) (simp_all add: all_read_def all_write_poll map_prod_swap)
qed

section \<open>Taking a stream apart and putting it together\<close>

text \<open>
  The contract of \<open>Split\<close>: the halves of a stream make that stream again, and what can be put
  together are the two halves of the stream that comes out.
\<close>

locale split_stream =
  fixes split :: "'s \<Rightarrow> 'r \<times> 'w"
    and combine :: "'r \<Rightarrow> 'w \<Rightarrow> 's outcome"
    and whole :: "'s \<Rightarrow> bool"
  assumes combine_whole: "combine r w = Ok s \<longleftrightarrow> split s = (r, w) \<and> whole s"
begin

lemma combine_split: "whole s \<Longrightarrow> combine (fst (split s)) (snd (split s)) = Ok s"
  by (simp add: combine_whole)

lemma combine_unique: "combine r w = Ok s \<Longrightarrow> combine r w' = Ok s \<Longrightarrow> w' = w"
  by (simp add: combine_whole)

lemma halves_of_one: "whole s \<Longrightarrow> whole s' \<Longrightarrow> split s = split s' \<Longrightarrow> s = s'"
  by (metis combine_split outcome.inject(1))

end

interpretation quic: split_stream QuicStream_split "QuicStream_combine rid sid" "\<lambda>q. rid (quic_recv q) = sid (quic_send q)" for rid sid
  by unfold_locales (auto simp: QuicStream_combine_def QuicStream_split_def)

text \<open>The halves of tokio keep the contract when \<open>is_pair_of\<close> and \<open>unsplit\<close> do what they say.\<close>

lemma unsplit_combine_split:
  assumes "\<And>r w. is_pair_of r w \<longleftrightarrow> (\<exists>s. tokio_split s = (r, w))" and "\<And>s. unsplit (fst (tokio_split s)) (snd (tokio_split s)) = s"
  shows "unsplit_combine is_pair_of unsplit r w = Ok s \<longleftrightarrow> tokio_split s = (r, w)"
  unfolding unsplit_combine_def using assms(1) [of r w] assms(2) by (auto simp: split: if_splits) (metis fst_conv snd_conv)+

section \<open>Properties\<close>

definition other_error :: "write_answer \<Rightarrow> write_answer" where
  "other_error a = (case a of HasWritten r \<Rightarrow> HasWritten (map_err IoError r) | r \<Rightarrow> r)"

lemma quic_poll_read: "io_poll (quic_read rd) wr (Inl n) q
   = (case poll_read rd n (quic_recv q) of (a, r) \<Rightarrow> (Inl a, q\<lparr>quic_recv := r\<rparr>))"
  by (simp add: quic_read_def QuicStream_poll_read_def split: prod.splits)

lemma quic_poll_write: "io_poll rd (quic_write wr) (Inr c) q
   = (case write_poll wr c (quic_send q) of (a, w) \<Rightarrow> (Inr (other_error a), q\<lparr>quic_send := w\<rparr>))"
  by (cases c) (simp_all add: quic_write_def QuicStream_poll_write_def QuicStream_poll_flush_def
      QuicStream_poll_shutdown_def other_error_def split: prod.splits)

lemma quic_halves_run:
  "case io_run (io_poll (quic_read rd) (quic_write wr)) cs q of (as, q') \<Rightarrow>
     io_run (poll_read rd) [n. Inl n \<leftarrow> cs] (quic_recv q) = ([a. Inl a \<leftarrow> as], quic_recv q')
     \<and> map_prod (map other_error) id (io_run (write_poll wr) [c. Inr c \<leftarrow> cs] (quic_send q)) = ([a. Inr a \<leftarrow> as], quic_send q')"
proof (induction cs arbitrary: q)
  case (Cons c cs)
  show ?case
  proof (cases c)
    case (Inl n)
    obtain a r where p: "poll_read rd n (quic_recv q) = (a, r)" by (cases "poll_read rd n (quic_recv q)") auto
    from Cons.IH [of "q\<lparr>quic_recv := r\<rparr>"] show ?thesis
      by (auto simp: Inl p quic_poll_read simp del: io_poll.simps split: prod.splits)
  next
    case (Inr k)
    obtain a w where p: "write_poll wr k (quic_send q) = (a, w)" by (cases "write_poll wr k (quic_send q)") auto
    from Cons.IH [of "q\<lparr>quic_send := w\<rparr>"] show ?thesis
      by (auto simp: Inr p quic_poll_write simp del: io_poll.simps split: prod.splits)
  qed
qed simp

text \<open>A stream of QUIC used as a whole does what its two halves do apart, in whatever order the calls
  of the two sides come: the answers to the reads, and the half they leave, are those of the reads on
  the receiving half alone, those of the writing calls are those on the sending half alone (with the
  errors of writes as other errors); and the halves make that stream again when they have the same
  identifier, and are refused otherwise.\<close>

theorem quic_stream_is_its_halves:
  "case io_run (io_poll (quic_read rd) (quic_write wr)) cs q of (as, q') \<Rightarrow>
     io_run (poll_read rd) [n. Inl n \<leftarrow> cs] (quic_recv q) = ([a. Inl a \<leftarrow> as], quic_recv q')
     \<and> map_prod (map other_error) id (io_run (write_poll wr) [c. Inr c \<leftarrow> cs] (quic_send q)) = ([a. Inr a \<leftarrow> as], quic_send q')
     \<and> QuicStream_combine rid sid (fst (QuicStream_split q')) (snd (QuicStream_split q'))
         = (if rid (quic_recv q') = sid (quic_send q') then Ok q' else Err IdsDoNotMatch)"
  using quic_halves_run [where rd = rd and wr = wr and cs = cs and q = q] quic.combine_split [where rid = rid and sid = sid]
  by (auto simp: QuicStream_combine_def QuicStream_split_def split: prod.splits)

end
