(* ===== verification/Main_Config.thy ===== *)
theory Main_Config
  imports Outgoing Systemd Certs_Key Stream_Halves
begin

text \<open>
  Model of \<open>src/main.rs\<close>, with \<open>bind\<close> and \<open>bind_udp\<close> of \<open>src/common/mod.rs\<close> and the start of the
  listeners of \<open>src/quic/incoming.rs\<close>: the configuration, and
  the start of the program from it, up to the list of the tasks it runs or the reason for which
  it exits.

  Opening sockets is the record \<open>opener\<close>: \<open>'h\<close> is the type of a stream socket and \<open>'d\<close> that of a
  datagram socket, whatever their family.
\<close>

section \<open>The configuration\<close>

text \<open>What the TOML parser finds; an absent key is \<^const>\<open>None\<close>.\<close>

record TomlConfig =
  toml_tls_key :: "bytes option"
  toml_tls_cert :: "bytes option"
  toml_incoming_listen :: "SocketAddr SocketAddrPath list option"
  toml_quic_listen :: "SocketAddr SocketAddrPath list option"
  toml_outgoing_listen :: "SocketAddr SocketAddrPath list option"
  toml_max_stanza_size_bytes :: "nat option"
  toml_s2s_target :: "SocketAddr SocketAddrPath option"
  toml_c2s_target :: "SocketAddr SocketAddrPath option"
  toml_proxy :: "bool option"
  toml_log_level :: "bytes option"
  toml_log_style :: "bytes option"

record Config =
  tls_key :: bytes
  tls_cert :: bytes
  incoming_listen :: "SocketAddr SocketAddrPath list"
  quic_listen :: "SocketAddr SocketAddrPath list"
  outgoing_listen :: "SocketAddr SocketAddrPath list"
  cfg_max_stanza_size_bytes :: nat
  cfg_s2s_target :: "SocketAddr SocketAddrPath option"
  cfg_c2s_target :: "SocketAddr SocketAddrPath option"
  cfg_proxy :: bool
  log_level :: "bytes option"
  log_style :: "bytes option"

definition default_max_stanza_size_bytes :: nat where
  "default_max_stanza_size_bytes = 262144"

definition or_default :: "'a \<Rightarrow> 'a option \<Rightarrow> 'a" where
  "or_default d x = (case x of Some v \<Rightarrow> v | None \<Rightarrow> d)"

definition Config_of_toml :: "TomlConfig \<Rightarrow> Config" where
  "Config_of_toml t =
     \<lparr>tls_key = or_default [] (toml_tls_key t), tls_cert = or_default [] (toml_tls_cert t),
      incoming_listen = or_default [] (toml_incoming_listen t),
      quic_listen = or_default [] (toml_quic_listen t),
      outgoing_listen = or_default [] (toml_outgoing_listen t),
      cfg_max_stanza_size_bytes = or_default default_max_stanza_size_bytes (toml_max_stanza_size_bytes t),
      cfg_s2s_target = toml_s2s_target t, cfg_c2s_target = toml_c2s_target t,
      cfg_proxy = or_default False (toml_proxy t), log_level = toml_log_level t, log_style = toml_log_style t\<rparr>"

text \<open>Opening and reading the file, UTF-8, then the parser.\<close>

definition Config_parse :: "(bytes \<Rightarrow> TomlConfig outcome) \<Rightarrow> bytes outcome \<Rightarrow> Config outcome" where
  "Config_parse from_str contents =
     bind_ok (bind_ok contents from_utf8) (\<lambda>input. map_outcome Config_of_toml (from_str input))"

definition get_incoming_cfg :: "Config \<Rightarrow> IncomingConfig" where
  "get_incoming_cfg c =
     \<lparr>max_stanza_size_bytes = cfg_max_stanza_size_bytes c, s2s_target = cfg_s2s_target c,
      c2s_target = cfg_c2s_target c, use_proxy = cfg_proxy c\<rparr>"

record 'k OutgoingConfig =
  out_max_stanza_size_bytes :: nat
  out_certs_key :: "'k CertsKey"

definition get_outgoing_cfg :: "Config \<Rightarrow> 'k CertsKey \<Rightarrow> 'k OutgoingConfig" where
  "get_outgoing_cfg c ck = \<lparr>out_max_stanza_size_bytes = cfg_max_stanza_size_bytes c, out_certs_key = ck\<rparr>"

section \<open>Listeners\<close>

datatype 'h Listener = ListenTcp 'h | ListenUnix 'h

datatype 'd UdpListener = ListenUdp 'd | ListenUnixDatagram 'd

record ('h, 'd) opener =
  tcp_bind :: "SocketAddr \<Rightarrow> 'h outcome"
  unix_bind :: "bytes \<Rightarrow> 'h outcome"
  udp_bind :: "SocketAddr \<Rightarrow> 'd outcome"
  unix_datagram_bind :: "bytes \<Rightarrow> 'd outcome"
  stream_of_fd :: "32 word \<Rightarrow> 'h outcome"
  datagram_of_fd :: "32 word \<Rightarrow> 'd"

fun sap_bind :: "('h, 'd) opener \<Rightarrow> SocketAddr SocketAddrPath \<Rightarrow> 'h Listener outcome" where
  "sap_bind op (SocketAddr sa) = map_outcome ListenTcp (tcp_bind op sa)"
| "sap_bind op (SocketPath p) = map_outcome ListenUnix (unix_bind op p)"

fun sap_bind_udp :: "('h, 'd) opener \<Rightarrow> SocketAddr SocketAddrPath \<Rightarrow> 'd UdpListener outcome" where
  "sap_bind_udp op (SocketAddr sa) = map_outcome ListenUdp (udp_bind op sa)"
| "sap_bind_udp op (SocketPath p) = map_outcome ListenUnixDatagram (unix_datagram_bind op p)"

text \<open>Why the program exits.\<close>

datatype fatal =
    ConfigFailed error
  | BindFailed "SocketAddr SocketAddrPath"
  | SystemdOpenFailed
  | BadSocketName bytes
  | NoSocketName
  | NoTargetConfigured
  | BadCertKey
  | BadQuicConfig
  | CannotWrapUdp
  | NoQuicAddr
  | CannotListenQuic
  | NothingToDo
  | StartPanic

type_synonym 'a start = "fatal + 'a"

fun bind_start :: "'a start \<Rightarrow> ('a \<Rightarrow> 'b start) \<Rightarrow> 'b start" where
  "bind_start (Inl e) k = Inl e"
| "bind_start (Inr x) k = k x"

text \<open>The three loops that bind the configured addresses have the same body.\<close>

fun bind_loop :: "(SocketAddr SocketAddrPath \<Rightarrow> 'l outcome) \<Rightarrow> SocketAddr SocketAddrPath list \<Rightarrow> 'l list \<Rightarrow> 'l list start" where
  "bind_loop bind [] ls = Inr ls"
| "bind_loop bind (a # as) ls =
     (case bind a of
        Ok l \<Rightarrow> bind_loop bind as (ls @ [l])
      | Err e \<Rightarrow> Inl (BindFailed a)
      | Panic \<Rightarrow> Inl StartPanic)"

section \<open>Sockets from systemd\<close>

definition ascii_lower :: "byte \<Rightarrow> byte" where
  "ascii_lower c = (let x = (of_char c :: nat) in if 65 \<le> x \<and> x \<le> 90 then char_of (x + 32) else c)"

text \<open>A stream socket is for the side its name starts with; \<^const>\<open>True\<close> is incoming.\<close>

definition side_of_name :: "bytes option \<Rightarrow> bool start" where
  "side_of_name nm =
     (case map_option (map ascii_lower) nm of
        Some name \<Rightarrow>
          if prefix ''in'' name then Inr True
          else if prefix ''out'' name then Inr False
          else Inl (BadSocketName name)
      | None \<Rightarrow> Inl NoSocketName)"

type_synonym ('h, 'd) listeners = "'h Listener list \<times> 'd UdpListener list \<times> 'h Listener list"

definition add_stream ::
    "'h Listener start \<Rightarrow> bytes option \<Rightarrow> ('h, 'd) listeners \<Rightarrow> ('h, 'd) listeners start"
where
  "add_stream l nm ls =
     bind_start l (\<lambda>l. bind_start (side_of_name nm) (\<lambda>incoming.
       case ls of (ins, qs, outs) \<Rightarrow>
         Inr (if incoming then (ins @ [l], qs, outs) else (ins, qs, outs @ [l]))))"

definition open_stream :: "('h \<Rightarrow> 'h Listener) \<Rightarrow> 'h outcome \<Rightarrow> 'h Listener start" where
  "open_stream mk r = (case r of Ok h \<Rightarrow> Inr (mk h) | Err e \<Rightarrow> Inl SystemdOpenFailed | Panic \<Rightarrow> Inl StartPanic)"

definition add_fd :: "('h, 'd) opener \<Rightarrow> FileDescriptor \<Rightarrow> ('h, 'd) listeners \<Rightarrow> ('h, 'd) listeners start" where
  "add_fd op fd ls =
     (case fd_listener fd of
        TcpSocket k \<Rightarrow> add_stream (open_stream ListenTcp (stream_of_fd op k)) (fd_name fd) ls
      | UnixStreamSocket k \<Rightarrow> add_stream (open_stream ListenUnix (stream_of_fd op k)) (fd_name fd) ls
      | UdpSocket k \<Rightarrow> (case ls of (ins, qs, outs) \<Rightarrow> Inr (ins, qs @ [ListenUdp (datagram_of_fd op k)], outs))
      | UnixDatagramSocket k \<Rightarrow>
          (case ls of (ins, qs, outs) \<Rightarrow> Inr (ins, qs @ [ListenUnixDatagram (datagram_of_fd op k)], outs)))"

fun add_fds :: "('h, 'd) opener \<Rightarrow> FileDescriptor list \<Rightarrow> ('h, 'd) listeners \<Rightarrow> ('h, 'd) listeners start" where
  "add_fds op [] ls = Inr ls"
| "add_fds op (fd # fds) ls = bind_start (add_fd op fd ls) (add_fds op fds)"

text \<open>An error of \<open>receive_descriptors_with_names\<close> means that there is no socket activation.\<close>

definition add_systemd ::
    "('h, 'd) opener \<Rightarrow> FileDescriptor list outcome \<Rightarrow> ('h, 'd) listeners \<Rightarrow> ('h, 'd) listeners start"
where
  "add_systemd op received ls =
     (case received of
        Ok fds \<Rightarrow> add_fds op fds ls
      | Err e \<Rightarrow> Inr ls
      | Panic \<Rightarrow> Inl StartPanic)"

section \<open>The tasks\<close>

datatype ('h, 'd, 'k) proxy_task =
    TlsTask "'h Listener" IncomingConfig "'k ServerConfig"
  | QuicTask "'d UdpListener" IncomingConfig "'k ServerConfig"
  | OutgoingTask "'h Listener" "'k OutgoingConfig"
  | RefreshTask "'k CertsKey"

definition no_target :: "Config \<Rightarrow> bool" where
  "no_target c \<longleftrightarrow> cfg_c2s_target c = None \<and> cfg_s2s_target c = None"

definition or_die :: "fatal \<Rightarrow> 'a outcome \<Rightarrow> 'a start" where
  "or_die e r = (case r of Ok x \<Rightarrow> Inr x | Err _ \<Rightarrow> Inl e | Panic \<Rightarrow> Inl StartPanic)"

definition incoming_tasks ::
    "Config \<Rightarrow> 'k CertsKey \<Rightarrow> 'h Listener list \<Rightarrow> ('h, 'd, 'k) proxy_task list start"
where
  "incoming_tasks c ck ls =
     (if ls = [] then Inr []
      else if no_target c then Inl NoTargetConfigured
      else bind_start (or_die BadCertKey (server_config ck)) (\<lambda>acceptor.
             Inr (map (\<lambda>l. TlsTask l (get_incoming_cfg c) acceptor) ls)))"

text \<open>
  What the libraries below do for QUIC: their part of \<open>quic_server_config\<close>, and making an endpoint out of a
  UDP socket or out of a wrapped Unix datagram socket.
\<close>

record ('d, 'o, 'i, 'k) quic_lib =
  quic_setup :: "'k ServerConfig \<Rightarrow> 'k ServerConfig outcome"
  udp_local_addr :: "'d \<Rightarrow> SocketAddr outcome"
  endpoint_new :: "'k ServerConfig \<Rightarrow> 'd \<Rightarrow> unit outcome"
  udp_state_new :: "'d \<Rightarrow> 'i outcome"
  udp_from_std :: "'d \<Rightarrow> 'o outcome"
  endpoint_abstract :: "'k ServerConfig \<Rightarrow> ('o, 'i) UnixUdpSocket \<Rightarrow> unit outcome"

text \<open>The address that the listener which is spawned tells its sessions.\<close>

definition spawn_quic_listener :: "('d, 'o, 'i, 'k) quic_lib \<Rightarrow> 'd \<Rightarrow> 'k ServerConfig \<Rightarrow> SocketAddr start" where
  "spawn_quic_listener ql udp_socket srv =
     bind_start (or_die NoQuicAddr (udp_local_addr ql udp_socket)) (\<lambda>local_addr.
     bind_start (or_die CannotListenQuic (endpoint_new ql srv udp_socket)) (\<lambda>incoming.
       Inr local_addr))"

definition spawn_quic_listener_unix :: "('d, 'o, 'i, 'k) quic_lib \<Rightarrow> 'd \<Rightarrow> 'k ServerConfig \<Rightarrow> SocketAddr start" where
  "spawn_quic_listener_unix ql udp_socket srv =
     bind_start (or_die CannotWrapUdp (wrap_unix_udp_socket (udp_state_new ql) (udp_from_std ql) udp_socket)) (\<lambda>sock.
     bind_start (or_die NoQuicAddr (UnixUdpSocket_local_addr sock)) (\<lambda>local_addr.
     bind_start (or_die CannotListenQuic (endpoint_abstract ql srv sock)) (\<lambda>incoming.
       Inr local_addr)))"

fun spawn_quic :: "('d, 'o, 'i, 'k) quic_lib \<Rightarrow> 'k ServerConfig \<Rightarrow> 'd UdpListener \<Rightarrow> SocketAddr start" where
  "spawn_quic ql srv (ListenUdp d) = spawn_quic_listener ql d srv"
| "spawn_quic ql srv (ListenUnixDatagram d) = spawn_quic_listener_unix ql d srv"

fun quic_loop ::
    "('d, 'o, 'i, 'k) quic_lib \<Rightarrow> IncomingConfig \<Rightarrow> 'k ServerConfig \<Rightarrow> 'd UdpListener list
      \<Rightarrow> ('h, 'd, 'k) proxy_task list start"
where
  "quic_loop ql cfg srv [] = Inr []"
| "quic_loop ql cfg srv (l # ls) =
     bind_start (spawn_quic ql srv l) (\<lambda>local_addr.
     bind_start (quic_loop ql cfg srv ls) (\<lambda>ts. Inr (QuicTask l cfg srv # ts)))"

definition quic_tasks ::
    "('d, 'o, 'i, 'k) quic_lib \<Rightarrow> Config \<Rightarrow> 'k CertsKey \<Rightarrow> 'd UdpListener list
      \<Rightarrow> ('h, 'd, 'k) proxy_task list start"
where
  "quic_tasks ql c ck ls =
     (if ls = [] then Inr []
      else if no_target c then Inl NoTargetConfigured
      else bind_start (or_die BadCertKey (server_config ck)) (\<lambda>cfg.
           bind_start (or_die BadQuicConfig (quic_setup ql cfg)) (\<lambda>srv.
             quic_loop ql (get_incoming_cfg c) srv ls)))"

definition outgoing_tasks :: "Config \<Rightarrow> 'k CertsKey \<Rightarrow> 'h Listener list \<Rightarrow> ('h, 'd, 'k) proxy_task list" where
  "outgoing_tasks c ck ls = map (\<lambda>l. OutgoingTask l (get_outgoing_cfg c ck)) ls"

definition spawn_tasks ::
    "('d, 'o, 'i, 'k) quic_lib \<Rightarrow> Config \<Rightarrow> 'k CertsKey \<Rightarrow> ('h, 'd) listeners
      \<Rightarrow> ('h, 'd, 'k) proxy_task list start"
where
  "spawn_tasks ql c ck ls =
     (case ls of (ins, qs, outs) \<Rightarrow>
        bind_start (incoming_tasks c ck ins) (\<lambda>is.
        bind_start (quic_tasks ql c ck qs) (\<lambda>qus.
          let handles = is @ qus @ outgoing_tasks c ck outs in
          if handles = [] then Inl NothingToDo
          else Inr (handles @ (if refresh_task_spawned ck then [RefreshTask ck] else [])))))"

text \<open>
  The start of the program: \<open>certs_key\<close> is what reading the files named by the configuration
  returns, \<open>received\<close> what systemd has passed.
\<close>

definition main_start ::
    "('h, 'd) opener \<Rightarrow> (Config \<Rightarrow> 'k outcome) \<Rightarrow> ('d, 'o, 'i, 'k) quic_lib
      \<Rightarrow> FileDescriptor list outcome \<Rightarrow> Config outcome \<Rightarrow> ('h, 'd, 'k) proxy_task list start"
where
  "main_start op certs_key ql received parsed =
     (case parsed of
        Err e \<Rightarrow> Inl (ConfigFailed e)
      | Panic \<Rightarrow> Inl StartPanic
      | Ok c \<Rightarrow>
          bind_start (bind_loop (sap_bind op) (incoming_listen c) []) (\<lambda>ins.
          bind_start (bind_loop (sap_bind_udp op) (quic_listen c) []) (\<lambda>qs.
          bind_start (bind_loop (sap_bind op) (outgoing_listen c) []) (\<lambda>outs.
          bind_start (add_systemd op received (ins, qs, outs)) (\<lambda>ls.
            spawn_tasks ql c (CertsKey_new (certs_key c)) ls)))))"

section \<open>What is started\<close>

named_theorems start_simps

lemma bind_start_Inr [start_simps]: "bind_start m k = Inr y \<longleftrightarrow> (\<exists>x. m = Inr x \<and> k x = Inr y)"
  by (cases m) auto

lemma or_die_Inr [start_simps]: "or_die e r = Inr x \<longleftrightarrow> r = Ok x"
  by (cases r) (auto simp: or_die_def)

lemma server_config_Ok [start_simps]:
  "server_config ck = Ok s \<longleftrightarrow> (\<exists>k. inner ck = Ok k) \<and> cert_resolver s = ck \<and> asks_client_cert s
     \<and> server_alpn s = [''xmpp-client'', ''xmpp-server'']"
  by (cases s) (auto simp: server_config_def offer_client_auth_def split: outcome.splits)

lemma bind_loop_Inr: "bind_loop bind as ls = Inr r \<longleftrightarrow> (\<exists>new. map bind as = map Ok new \<and> r = ls @ new)"
proof (induction as arbitrary: ls)
  case (Cons a as)
  then show ?case by (cases "bind a") (auto simp: Cons_eq_map_conv)
qed auto

lemma side_of_name_Inr:
  "side_of_name nm = Inr b \<Longrightarrow> \<exists>s. nm = Some s \<and> prefix (if b then ''in'' else ''out'') (map ascii_lower s)"
  by (auto simp: side_of_name_def split: option.splits if_splits)

text \<open>
  The sockets that systemd passes, by what they are: a stream socket belongs to the side its name
  starts with, a datagram socket to QUIC; and what is served for each.
\<close>

definition named_for :: "bool \<Rightarrow> FileDescriptor \<Rightarrow> bool" where
  "named_for incoming fd \<longleftrightarrow>
     (case fd_name fd of
        Some s \<Rightarrow> prefix (if incoming then ''in'' else ''out'') (map ascii_lower s)
      | None \<Rightarrow> False)"

definition stream_fds :: "bool \<Rightarrow> FileDescriptor list \<Rightarrow> FileDescriptor list" where
  "stream_fds incoming fds = filter (\<lambda>fd. tcp_not_udp fd \<and> named_for incoming fd) fds"

definition served_stream :: "('h, 'd) opener \<Rightarrow> FileDescriptor \<Rightarrow> 'h Listener \<Rightarrow> bool" where
  "served_stream op fd l \<longleftrightarrow>
     (\<exists>h. stream_of_fd op (raw_fd fd) = Ok h \<and> l = (if inet_not_unix fd then ListenTcp h else ListenUnix h))"

definition served_datagrams :: "('h, 'd) opener \<Rightarrow> FileDescriptor list \<Rightarrow> 'd UdpListener list" where
  "served_datagrams op fds =
     map (\<lambda>fd. (if inet_not_unix fd then ListenUdp else ListenUnixDatagram) (datagram_of_fd op (raw_fd fd)))
       (filter (\<lambda>fd. \<not> tcp_not_udp fd) fds)"

definition systemd_sockets ::
    "('h, 'd) opener \<Rightarrow> FileDescriptor list \<Rightarrow> 'h Listener list \<Rightarrow> 'd UdpListener list \<Rightarrow> 'h Listener list \<Rightarrow> bool"
where
  "systemd_sockets op fds i q u \<longleftrightarrow>
     list_all (\<lambda>fd. tcp_not_udp fd \<longrightarrow> named_for True fd \<or> named_for False fd) fds
     \<and> list_all2 (served_stream op) (stream_fds True fds) i \<and> list_all2 (served_stream op) (stream_fds False fds) u
     \<and> q = served_datagrams op fds"

lemma named_for_one_side: "named_for True fd \<Longrightarrow> \<not> named_for False fd"
  by (auto simp: named_for_def prefix_def split: option.splits)

lemma side_of_name_named: "side_of_name (fd_name fd) = Inr b \<Longrightarrow> named_for b fd"
  by (auto simp: named_for_def dest!: side_of_name_Inr)

lemma open_stream_Inr: "open_stream mk r = Inr l \<longleftrightarrow> (\<exists>h. r = Ok h \<and> l = mk h)"
  by (auto simp: open_stream_def split: outcome.splits)

lemma systemd_sockets_Nil: "systemd_sockets op [] [] [] []"
  by (simp add: systemd_sockets_def stream_fds_def served_datagrams_def)

lemma systemd_sockets_Cons:
  assumes "systemd_sockets op [fd] i q u" and "systemd_sockets op fds j p v"
  shows "systemd_sockets op (fd # fds) (i @ j) (q @ p) (u @ v)"
proof -
  have s: "stream_fds b (fd # fds) = stream_fds b [fd] @ stream_fds b fds"
    "served_datagrams op (fd # fds) = served_datagrams op [fd] @ served_datagrams op fds" for b
    by (simp_all add: stream_fds_def served_datagrams_def)
  show ?thesis using assms unfolding systemd_sockets_def s by (simp add: list_all2_appendI)
qed

lemma add_stream_Inr:
  assumes "add_stream (open_stream mk (stream_of_fd op (raw_fd fd))) (fd_name fd) (ins, qs, outs) = Inr (ins', qs', outs')"
    and "tcp_not_udp fd" and "mk = (if inet_not_unix fd then ListenTcp else ListenUnix)"
  shows "\<exists>i q u. ins' = ins @ i \<and> qs' = qs @ q \<and> outs' = outs @ u \<and> systemd_sockets op [fd] i q u"
proof -
  from assms(1) obtain h b where h: "stream_of_fd op (raw_fd fd) = Ok h" and b: "side_of_name (fd_name fd) = Inr b"
    and e: "(ins', qs', outs') = (if b then (ins @ [mk h], qs, outs) else (ins, qs, outs @ [mk h]))"
    by (auto simp: add_stream_def start_simps open_stream_Inr split: if_splits)
  from side_of_name_named [OF b] named_for_one_side [of fd] h assms(2,3)
  have "systemd_sockets op [fd] (if b then [mk h] else []) [] (if b then [] else [mk h])"
    by (cases b) (auto simp: systemd_sockets_def stream_fds_def served_stream_def served_datagrams_def)
  with e show ?thesis by (cases b) auto
qed

lemma add_fd_Inr:
  assumes "add_fd op fd (ins, qs, outs) = Inr (ins', qs', outs')"
  shows "\<exists>i q u. ins' = ins @ i \<and> qs' = qs @ q \<and> outs' = outs @ u \<and> systemd_sockets op [fd] i q u"
proof (cases "tcp_not_udp fd")
  case True
  with assms have "add_stream (open_stream (if inet_not_unix fd then ListenTcp else ListenUnix) (stream_of_fd op (raw_fd fd))) (fd_name fd) (ins, qs, outs)
      = Inr (ins', qs', outs')"
    by (cases "inet_not_unix fd") (simp_all add: add_fd_def fd_listener_def)
  from add_stream_Inr [OF this True] show ?thesis by simp
next
  case False
  with assms show ?thesis
    by (cases "inet_not_unix fd")
      (auto simp: add_fd_def fd_listener_def systemd_sockets_def stream_fds_def served_datagrams_def)
qed

lemma add_fds_Inr:
  "add_fds op fds (ins, qs, outs) = Inr (ins', qs', outs') \<Longrightarrow>
     \<exists>i q u. ins' = ins @ i \<and> qs' = qs @ q \<and> outs' = outs @ u \<and> systemd_sockets op fds i q u"
proof (induction fds arbitrary: ins qs outs)
  case Nil
  with systemd_sockets_Nil show ?case by fastforce
next
  case (Cons fd fds)
  from Cons.prems obtain x where x: "add_fd op fd (ins, qs, outs) = Inr x" "add_fds op fds x = Inr (ins', qs', outs')"
    by (auto simp: start_simps)
  obtain i1 q1 u1 where x1: "x = (i1, q1, u1)" by (metis prod.exhaust)
  from add_fd_Inr [OF x(1) [unfolded x1]] Cons.IH [OF x(2) [unfolded x1]] systemd_sockets_Cons
  show ?case by (metis append_assoc)
qed

definition received_fds :: "FileDescriptor list outcome \<Rightarrow> FileDescriptor list" where
  "received_fds r = (case r of Ok fds \<Rightarrow> fds | _ \<Rightarrow> [])"

lemma add_systemd_Inr:
  assumes "add_systemd op received (ins, qs, outs) = Inr (ins', qs', outs')"
  shows "\<exists>i q u. ins' = ins @ i \<and> qs' = qs @ q \<and> outs' = outs @ u
       \<and> systemd_sockets op (received_fds received) i q u \<and> received \<noteq> Panic"
  using assms add_fds_Inr [of op _ ins qs outs ins' qs' outs'] systemd_sockets_Nil [of op]
  by (auto simp: add_systemd_def received_fds_def split: outcome.splits)

lemma incoming_tasks_Inr:
  assumes "incoming_tasks c ck ls = Inr ts"
  shows "\<exists>srv. ts = map (\<lambda>l. TlsTask l (get_incoming_cfg c) srv) ls
    \<and> (ls \<noteq> [] \<longrightarrow> \<not> no_target c \<and> server_config ck = Ok srv)"
  using assms by (auto simp: incoming_tasks_def start_simps split: if_splits)

lemma quic_loop_Inr:
  "quic_loop ql cfg srv ls = Inr ts \<longleftrightarrow>
     ts = map (\<lambda>l. QuicTask l cfg srv) ls \<and> list_all (\<lambda>l. \<exists>a. spawn_quic ql srv l = Inr a) ls"
  by (induction ls arbitrary: ts) (auto simp: bind_start_Inr)

lemma quic_tasks_Inr:
  assumes "quic_tasks ql c ck ls = Inr ts"
  shows "\<exists>cfg srv. ts = map (\<lambda>l. QuicTask l (get_incoming_cfg c) srv) ls
    \<and> (ls \<noteq> [] \<longrightarrow> \<not> no_target c \<and> server_config ck = Ok cfg \<and> quic_setup ql cfg = Ok srv)
    \<and> list_all (\<lambda>l. \<exists>a. spawn_quic ql srv l = Inr a) ls"
proof (cases "ls = []")
  case False
  with assms obtain cfg srv where "server_config ck = Ok cfg" "quic_setup ql cfg = Ok srv" "\<not> no_target c"
    "ts = map (\<lambda>l. QuicTask l (get_incoming_cfg c) srv) ls" "list_all (\<lambda>l. \<exists>a. spawn_quic ql srv l = Inr a) ls"
    unfolding quic_tasks_def by (auto simp: bind_start_Inr or_die_Inr quic_loop_Inr split: if_splits)
  then show ?thesis by blast
qed (use assms in \<open>simp add: quic_tasks_def\<close>)

text \<open>The listeners that are served, and the tasks for them.\<close>

definition task_list ::
    "Config \<Rightarrow> 'k CertsKey \<Rightarrow> 'k ServerConfig \<Rightarrow> 'k ServerConfig \<Rightarrow> ('h, 'd) listeners \<Rightarrow> ('h, 'd, 'k) proxy_task list"
where
  "task_list c ck srv qsrv ls =
     (case ls of (ins, qs, outs) \<Rightarrow>
        map (\<lambda>l. TlsTask l (get_incoming_cfg c) srv) ins @ map (\<lambda>l. QuicTask l (get_incoming_cfg c) qsrv) qs
        @ map (\<lambda>l. OutgoingTask l (get_outgoing_cfg c ck)) outs @ (if is_ok (inner ck) then [RefreshTask ck] else []))"

lemma spawn_tasks_Inr:
  assumes "spawn_tasks ql c ck (ins, qs, outs) = Inr ts"
  shows "\<exists>srv qsrv. ts = task_list c ck srv qsrv (ins, qs, outs) \<and> (ins \<noteq> [] \<or> qs \<noteq> [] \<or> outs \<noteq> [])
    \<and> (ins \<noteq> [] \<longrightarrow> server_config ck = Ok srv) \<and> (qs \<noteq> [] \<longrightarrow> (\<exists>cfg. server_config ck = Ok cfg \<and> quic_setup ql cfg = Ok qsrv))
    \<and> list_all (\<lambda>l. \<exists>a. spawn_quic ql qsrv l = Inr a) qs
    \<and> (ins \<noteq> [] \<or> qs \<noteq> [] \<longrightarrow> \<not> no_target c)"
proof -
  from assms obtain a b where a: "incoming_tasks c ck ins = Inr a" and b: "quic_tasks ql c ck qs = Inr b"
    and ts: "(let handles = a @ b @ outgoing_tasks c ck outs in
          if handles = [] then Inl NothingToDo
          else Inr (handles @ (if refresh_task_spawned ck then [RefreshTask ck] else []))) = Inr ts"
    unfolding spawn_tasks_def prod.case by (auto simp: bind_start_Inr)
  from incoming_tasks_Inr [OF a] quic_tasks_Inr [OF b] ts show ?thesis
    by (auto simp: Let_def task_list_def outgoing_tasks_def refresh_task_spawned_def split: if_splits)
qed

lemma main_start_Inr:
  assumes "main_start op certs_key ql received (Ok c) = Inr ts"
  shows "\<exists>ins qs outs i q u srv qsrv. map (sap_bind op) (incoming_listen c) = map Ok ins
    \<and> map (sap_bind_udp op) (quic_listen c) = map Ok qs \<and> map (sap_bind op) (outgoing_listen c) = map Ok outs
    \<and> systemd_sockets op (received_fds received) i q u \<and> received \<noteq> Panic
    \<and> spawn_tasks ql c (CertsKey_new (certs_key c)) (ins @ i, qs @ q, outs @ u) = Inr ts
    \<and> ts = task_list c (CertsKey_new (certs_key c)) srv qsrv (ins @ i, qs @ q, outs @ u)"
proof -
  from assms obtain ins qs outs ls where b: "map (sap_bind op) (incoming_listen c) = map Ok ins"
    "map (sap_bind_udp op) (quic_listen c) = map Ok qs" "map (sap_bind op) (outgoing_listen c) = map Ok outs"
    and sd: "add_systemd op received (ins, qs, outs) = Inr ls"
    and sp: "spawn_tasks ql c (CertsKey_new (certs_key c)) ls = Inr ts"
    by (auto simp: main_start_def bind_start_Inr bind_loop_Inr)
  obtain x y z where "ls = (x, y, z)" by (metis prod.exhaust)
  with add_systemd_Inr sd obtain i q u where ls: "ls = (ins @ i, qs @ q, outs @ u)"
    "systemd_sockets op (received_fds received) i q u" "received \<noteq> Panic"
    by blast
  from spawn_tasks_Inr [OF sp [unfolded ls]] sp b ls show ?thesis by blast
qed


section \<open>Properties\<close>

text \<open>C10: when the program starts, every configured address was bound and has exactly one task, in
  order, followed by the sockets of systemd in their order: every stream socket it passed was
  opened and is on the side its name starts with, every datagram socket is on the side of QUIC,
  and nothing else is served.  TLS is served with the key that was read, asking for a certificate
  and offering the two protocols, QUIC with what the library makes of the same configuration, and
  every socket of QUIC has an endpoint and an address; both only with a backend to serve.  There
  is something to do; and the key is reloaded exactly when there is one.\<close>

theorem startup_serves_every_listener:
  assumes "main_start op certs_key ql received (Ok c) = Inr ts"
  shows "\<exists>ins qs outs srv qsrv i q u ck. ck = CertsKey_new (certs_key c)
    \<and> map (sap_bind op) (incoming_listen c) = map Ok ins \<and> map (sap_bind_udp op) (quic_listen c) = map Ok qs
    \<and> map (sap_bind op) (outgoing_listen c) = map Ok outs
    \<and> systemd_sockets op (received_fds received) i q u \<and> received \<noteq> Panic
    \<and> ts = task_list c ck srv qsrv (ins @ i, qs @ q, outs @ u)
    \<and> (ins @ i \<noteq> [] \<or> qs @ q \<noteq> [] \<or> outs @ u \<noteq> [])
    \<and> (ins @ i \<noteq> [] \<longrightarrow> server_config ck = Ok srv)
    \<and> (qs @ q \<noteq> [] \<longrightarrow> bind_ok (server_config ck) (quic_setup ql) = Ok qsrv)
    \<and> list_all (\<lambda>l. \<exists>a. spawn_quic ql qsrv l = Inr a) (qs @ q)
    \<and> (case server_config ck of
          Ok cfg \<Rightarrow> is_ok (certs_key c) \<and> cert_resolver cfg = ck \<and> asks_client_cert cfg \<and> server_alpn cfg = [''xmpp-client'', ''xmpp-server'']
        | _ \<Rightarrow> True)
    \<and> (ins @ i \<noteq> [] \<or> qs @ q \<noteq> [] \<longrightarrow> \<not> no_target c)"
proof -
  from main_start_Inr [OF assms] obtain ins qs outs i q u where
    b: "map (sap_bind op) (incoming_listen c) = map Ok ins"
      "map (sap_bind_udp op) (quic_listen c) = map Ok qs" "map (sap_bind op) (outgoing_listen c) = map Ok outs"
      "systemd_sockets op (received_fds received) i q u" "received \<noteq> Panic"
    and sp: "spawn_tasks ql c (CertsKey_new (certs_key c)) (ins @ i, qs @ q, outs @ u) = Inr ts"
    by blast
  from spawn_tasks_Inr [OF sp] obtain srv qsrv where
    s: "ts = task_list c (CertsKey_new (certs_key c)) srv qsrv (ins @ i, qs @ q, outs @ u)"
      "ins @ i \<noteq> [] \<or> qs @ q \<noteq> [] \<or> outs @ u \<noteq> []"
      "ins @ i \<noteq> [] \<longrightarrow> server_config (CertsKey_new (certs_key c)) = Ok srv"
      "qs @ q \<noteq> [] \<longrightarrow> (\<exists>cfg. server_config (CertsKey_new (certs_key c)) = Ok cfg \<and> quic_setup ql cfg = Ok qsrv)"
      "list_all (\<lambda>l. \<exists>a. spawn_quic ql qsrv l = Inr a) (qs @ q)"
      "ins @ i \<noteq> [] \<or> qs @ q \<noteq> [] \<longrightarrow> \<not> no_target c"
    by blast
  have "qs @ q \<noteq> [] \<longrightarrow> bind_ok (server_config (CertsKey_new (certs_key c))) (quic_setup ql) = Ok qsrv"
    using s(4) by auto
  moreover have "(case server_config (CertsKey_new (certs_key c)) of
      Ok cfg \<Rightarrow> is_ok (certs_key c) \<and> cert_resolver cfg = CertsKey_new (certs_key c) \<and> asks_client_cert cfg
        \<and> server_alpn cfg = [''xmpp-client'', ''xmpp-server'']
    | _ \<Rightarrow> True)"
    by (auto simp: server_config_Ok CertsKey_new_def split: outcome.splits)
  ultimately show ?thesis using b s(1-3,5,6) by blast
qed

text \<open>One address for each side, and a socket from systemd.\<close>

definition example_opener :: "(nat, nat) opener" where
  "example_opener =
     \<lparr>tcp_bind = (\<lambda>a. Ok (unat (sa_port a))), unix_bind = (\<lambda>p. Ok 1), udp_bind = (\<lambda>a. Ok 2),
      unix_datagram_bind = (\<lambda>p. Ok 3), stream_of_fd = (\<lambda>fd. Ok 4), datagram_of_fd = (\<lambda>fd. 5)\<rparr>"

definition example_toml :: TomlConfig where
  "example_toml =
     \<lparr>toml_tls_key = None, toml_tls_cert = None, toml_incoming_listen = Some [SocketAddr (SocketAddrV4 0 7)],
      toml_quic_listen = None, toml_outgoing_listen = Some [SocketPath ''/o''], toml_max_stanza_size_bytes = None,
      toml_s2s_target = None, toml_c2s_target = Some (SocketPath ''/c''), toml_proxy = None,
      toml_log_level = None, toml_log_style = None\<rparr>"

definition example_fd :: FileDescriptor where
  "example_fd = \<lparr>raw_fd = 3, tcp_not_udp = True, inet_not_unix = True, fd_name = Some ''INside''\<rparr>"

definition example_quic :: "(nat, unit, unit, unit) quic_lib" where
  "example_quic =
     \<lparr>quic_setup = Ok, udp_local_addr = (\<lambda>d. Ok loopback), endpoint_new = (\<lambda>srv d. Ok ()),
      udp_state_new = (\<lambda>d. Ok ()), udp_from_std = (\<lambda>d. Ok ()), endpoint_abstract = (\<lambda>srv s. Ok ())\<rparr>"

lemma startup_serves_every_listener_witness:
  "\<exists>ins qs outs srv qsrv i q u ck ts. ck = CertsKey_new (Ok ()) \<and> systemd_sockets example_opener [example_fd] i q u
    \<and> map (sap_bind example_opener) (incoming_listen (Config_of_toml example_toml)) = map Ok ins
    \<and> map (sap_bind_udp example_opener) (quic_listen (Config_of_toml example_toml)) = map Ok qs
    \<and> map (sap_bind example_opener) (outgoing_listen (Config_of_toml example_toml)) = map Ok outs
    \<and> ts = task_list (Config_of_toml example_toml) ck srv qsrv (ins @ i, qs @ q, outs @ u)"
proof -
  have side: "side_of_name (Some ''INside'') = Inr True" by code_simp
  have "(case main_start example_opener (\<lambda>c. Ok ()) example_quic (Ok [example_fd]) (Ok (Config_of_toml example_toml)) of
      Inl e \<Rightarrow> 0 | Inr ts \<Rightarrow> length ts) = (4 :: nat)"
    by (simp add: main_start_def example_opener_def example_toml_def example_fd_def Config_of_toml_def or_default_def
        add_systemd_def add_fd_def fd_listener_def add_stream_def open_stream_def side
        spawn_tasks_def incoming_tasks_def quic_tasks_def outgoing_tasks_def no_target_def or_die_def
        server_config_def CertsKey_new_def refresh_task_spawned_def)
  then obtain ts where "main_start example_opener (\<lambda>c. Ok ()) example_quic (Ok [example_fd]) (Ok (Config_of_toml example_toml)) = Inr ts"
    by (auto split: sum.splits)
  from startup_serves_every_listener [OF this] show ?thesis unfolding received_fds_def outcome.case by blast
qed

text \<open>C38: on a system where a datagram socket is never in the state of accepting connections, as the
  operating systems document for \<open>listen\<close> and \<open>SO_ACCEPTCONN\<close>, the sockets that are received from
  systemd are all stream sockets, whatever it has passed, and every socket on which a started
  program serves QUIC is one that it bound to a configured address: the branches for the QUIC
  sockets of systemd are dead.\<close>

theorem systemd_datagrams_dropped:
  assumes "\<And>fd. so_type os fd = Some SockDatagram \<Longrightarrow> so_acceptconn os fd \<noteq> Some True"
  shows "(case fst (receive_descriptors_with_names os sz process_id unset_env env) of
            Ok ds \<Rightarrow> list_all (\<lambda>d. fd_listener d \<in> {TcpSocket (raw_fd d), UnixStreamSocket (raw_fd d)}) ds
          | _ \<Rightarrow> True)
    \<and> (case main_start op certs_key ql (fst (receive_descriptors_with_names os sz process_id unset_env env)) (Ok c) of
          Inr ts \<Rightarrow> \<forall>l cfg srv. QuicTask l cfg srv \<in> set ts \<longrightarrow> (\<exists>a\<in>set (quic_listen c). sap_bind_udp op a = Ok l)
        | Inl e \<Rightarrow> True)"
proof -
  let ?r = "fst (receive_descriptors_with_names os sz process_id unset_env env)"
  have streams: "list_all tcp_not_udp (received_fds ?r)"
    using received_are_streams [OF assms, of sz process_id unset_env env]
    by (cases ?r) (simp_all add: received_fds_def)
  have quic: "\<exists>a\<in>set (quic_listen c). sap_bind_udp op a = Ok l"
    if m: "main_start op certs_key ql ?r (Ok c) = Inr ts" and q: "QuicTask l cfg srv \<in> set ts" for ts l cfg srv
  proof -
    from main_start_Inr [OF m] obtain ins qs outs i q u s1 s2 where b: "map (sap_bind_udp op) (quic_listen c) = map Ok qs"
      and s: "systemd_sockets op (received_fds ?r) i q u"
      and ts: "ts = task_list c (CertsKey_new (certs_key c)) s1 s2 (ins @ i, qs @ q, outs @ u)" by blast
    from streams have "filter (\<lambda>fd. \<not> tcp_not_udp fd) (received_fds ?r) = []"
      by (simp add: list_all_iff filter_empty_conv)
    with s have "q = []" by (simp add: systemd_sockets_def served_datagrams_def)
    with ts that(2) have "l \<in> set qs" by (auto simp: task_list_def split: if_splits)
    then have "Ok l \<in> set (map (sap_bind_udp op) (quic_listen c))" unfolding b by simp
    then show ?thesis by force
  qed
  have "list_all (\<lambda>d. fd_listener d \<in> {TcpSocket (raw_fd d), UnixStreamSocket (raw_fd d)}) ds" if "?r = Ok ds" for ds
    using streams that by (auto simp: received_fds_def list_all_iff fd_listener_def split: bool.splits)
  with quic show ?thesis by (auto split: outcome.splits sum.splits)
qed

text \<open>A stream socket, a datagram socket and a Unix stream socket from systemd.\<close>

lemma systemd_datagrams_dropped_witness:
  "\<exists>ts. main_start example_opener (\<lambda>c. Ok ()) example_quic
       (fst (receive_descriptors_with_names example_os 32 77 True (listen_env 77 3 (Some ''in:q:out'')))) (Ok (Config_of_toml example_toml)) = Inr ts
    \<and> ts \<noteq> [] \<and> \<not> (\<exists>l cfg srv. QuicTask l cfg srv \<in> set ts)"
proof -
  let ?r = "fst (receive_descriptors_with_names example_os 32 77 True (listen_env 77 3 (Some ''in:q:out'')))"
  let ?m = "main_start example_opener (\<lambda>c. Ok ()) example_quic ?r (Ok (Config_of_toml example_toml))"
  have os: "so_type example_os fd = Some SockDatagram \<Longrightarrow> so_acceptconn example_os fd \<noteq> Some True" for fd
    by (auto simp: example_os_def)
  have r: "?r = Ok [\<lparr>raw_fd = 3, tcp_not_udp = True, inet_not_unix = True, fd_name = Some ''in''\<rparr>,
      \<lparr>raw_fd = 5, tcp_not_udp = True, inet_not_unix = False, fd_name = Some ''out''\<rparr>]"
  proof -
    have "?r = Ok (List.map_filter (descriptor_at example_os (names_of (Some ''in:q:out''))) [0..<3])"
      by (subst receive_as_socks) (simp_all add: socks_from_fds_reference del: upt_Suc upt_rec_numeral)
    moreover have "List.map_filter (descriptor_at example_os (names_of (Some ''in:q:out''))) [0..<3]
        = [\<lparr>raw_fd = 3, tcp_not_udp = True, inet_not_unix = True, fd_name = Some ''in''\<rparr>,
           \<lparr>raw_fd = 5, tcp_not_udp = True, inet_not_unix = False, fd_name = Some ''out''\<rparr>]" by code_simp
    ultimately show ?thesis by simp
  qed
  have side: "side_of_name (Some ''in'') = Inr True" "side_of_name (Some ''out'') = Inr False" by code_simp+
  have "(case ?m of Inl e \<Rightarrow> 0 | Inr ts \<Rightarrow> length ts) = (5 :: nat)"
    unfolding r
    by (simp add: main_start_def example_opener_def example_toml_def Config_of_toml_def or_default_def
        add_systemd_def add_fd_def fd_listener_def add_stream_def open_stream_def side
        spawn_tasks_def incoming_tasks_def quic_tasks_def outgoing_tasks_def no_target_def or_die_def
        server_config_def CertsKey_new_def refresh_task_spawned_def)
  then obtain ts where ts: "?m = Inr ts" and "length ts = 5" by (auto split: sum.splits)
  then have ne: "ts \<noteq> []" by auto
  have "quic_listen (Config_of_toml example_toml) = []" by (simp add: Config_of_toml_def example_toml_def or_default_def)
  with systemd_datagrams_dropped [OF os, where sz = 32 and process_id = 77 and unset_env = True
      and env = "listen_env 77 3 (Some ''in:q:out'')" and op = example_opener and certs_key = "\<lambda>c. Ok ()"
      and ql = example_quic and c = "Config_of_toml example_toml"] ts
  have "\<not> (\<exists>l cfg srv. QuicTask l cfg srv \<in> set ts)" by auto
  with ts ne show ?thesis by blast
qed

end
