(* ===== verification/Peers.thy ===== *)
theory Peers
  imports Shuffle
begin

text \<open>
  The loop of \<open>shuffle_rd_wr_filter_only\<close> (\<open>src/common/mod.rs\<close>) between any two ends, each of them a byte
  stream or a WebSocket: what it asks of an end is a locale, and so is the loop between two; they are
  interpreted on the two kinds of end that the program has.
\<close>

section \<open>What goes over a WebSocket\<close>

text \<open>The text an item of a byte stream becomes; a declaration is left out.\<close>

fun ws_text :: "bool \<Rightarrow> item \<Rightarrow> bytes" where
  "ws_text is_c2s (XmlDecl s) = []"
| "ws_text is_c2s (Header t) =
     replace_all ''>'' ''/>''
       (replace_all ''jabber:client'' ns_framing
         (replace_all ''jabber:server'' ns_framing_server
           (replace_all ''<stream:stream '' ''<open '' (show_item (Header t)))))"
| "ws_text is_c2s (Stanza x) = show_node (with_attrs (missing_ns is_c2s (first_tag x)) x)"
| "ws_text is_c2s StreamEnd = ''<close xmlns=\"urn:ietf:params:xml:ns:xmpp-framing\" />''"

definition ws_frames :: "bool \<Rightarrow> item \<Rightarrow> wr_event list" where
  "ws_frames is_c2s x = (if is_decl x then [] else [Fed (WsText (ws_text is_c2s x))]) @ [Flushed]"

definition sendable :: "item \<Rightarrow> bool" where
  "sendable x \<longleftrightarrow> utf8_valid (show_item x) \<and> (is_decl x \<longrightarrow> CHR ''<'' \<notin> set (tl (show_item x)))"

lemma to_ws_item:
  assumes "ok_item x" and "sendable x" and "\<not> is_decl x"
  shows "to_ws_new (show_item x) (item_eoft x) c = Ok (ws_text c x)"
proof (cases x)
  case (Header t)
  with assms have "prefix ''<stream:stream '' (show_item x)" by (simp add: stream_stream_def)
  with assms Header show ?thesis by (simp add: to_ws_new_def sendable_def from_utf8_def)
next
  case (Stanza y)
  with assms to_ws_stanza [of y c] show ?thesis by (simp add: sendable_def)
next
  case StreamEnd
  then show ?thesis by (simp add: to_ws_new_def)
qed (use assms in simp)

lemma ws_write_item:
  assumes "ok_item x" and "sendable x" and "faults s = []"
  shows "write_and_flush tr c (show_item x) (item_eoft x) (WebSocketClientWrite s)
    = (Ok (), WebSocketClientWrite (log_event (ws_frames c x) s))"
proof (cases "is_decl x")
  case True
  then obtain d where x: "x = XmlDecl d" by (cases x) simp_all
  from assms(2) x have lt: "CHR ''<'' \<notin> set (d @ ''>'')" and u: "utf8_valid (d @ ''>'')"
    by (simp_all add: sendable_def utf8_valid_Cons_ascii is_ascii_def)
  from lt have "\<not> sublist ''<'' (d @ ''>'')" using sublist_absent [of "CHR ''<''" "''<''"] by simp
  then have n: "\<not> is_ok (first_index_of (d @ ''>'') ''<'')" "first_index_of (d @ ''>'') ''<'' \<noteq> Panic"
    using first_index_of_no_panic by (simp_all add: slice_simps flip: contains_seq_def)
  show ?thesis using n u assms(3)
    by (cases "first_index_of (d @ ''>'') ''<''") (simp_all add: x write_and_flush_def ws_frames_def sink_ok)
next
  case False
  have "\<not> prefix ''<?xml '' (show_item x)" by (rule not_decl_item [OF assms(1) False])
  with to_ws_item [OF assms(1,2) False] False assms(3) show ?thesis
    by (simp add: write_and_flush_def write_ws_def ws_frames_def sink_ok del: show_item.simps)
qed

text \<open>What a client's messages are for the backend, and the answers to its pings.\<close>

definition texts_of :: "ws_event list \<Rightarrow> (bytes \<times> nat) list" where
  "texts_of es = concat (map (\<lambda>e. case e of WsMsg (WsText t) \<Rightarrow> [(from_ws t, 0)] | _ \<Rightarrow> []) es)"

definition pongs_of :: "ws_event list \<Rightarrow> wr_event list list" where
  "pongs_of es = concat (map (\<lambda>e. case e of WsMsg (WsPing p) \<Rightarrow> [pong p] | _ \<Rightarrow> []) es)"

definition texts_fit :: "nat \<Rightarrow> ws_event list \<Rightarrow> bool" where
  "texts_fit n es \<longleftrightarrow> (\<forall>t. WsMsg (WsText t) \<in> set es \<longrightarrow> length (from_ws t) \<le> n)"


lemma texts_of_simps [simp]:
  "texts_of [] = []" "texts_of (xs @ ys) = texts_of xs @ texts_of ys"
  "pongs_of [] = []" "pongs_of (xs @ ys) = pongs_of xs @ pongs_of ys"
  by (simp_all add: texts_of_def pongs_of_def)

lemma shuffles_last: "zs @ [z] \<in> shuffles [z] zs" "zs @ [z] \<in> shuffles zs [z]"
  by (induction zs) (auto intro: Cons_in_shuffles_leftI Cons_in_shuffles_rightI)

lemma shuffles_snoc_left: "zs \<in> shuffles xs ys \<Longrightarrow> zs @ [z] \<in> shuffles (xs @ [z]) ys"
  by (induction xs ys arbitrary: zs rule: shuffles.induct)
    (auto simp: shuffles_last intro: Cons_in_shuffles_leftI Cons_in_shuffles_rightI)

lemma shuffles_snoc_right: "zs \<in> shuffles xs ys \<Longrightarrow> zs @ [z] \<in> shuffles xs (ys @ [z])"
  using shuffles_snoc_left by (metis shuffles_commutes)


section \<open>The ends of a connection\<close>

text \<open>
  What an end sends, piece by piece: an item of a byte stream, or an event of a WebSocket.  A piece
  is delivered as at most one stanza, and may be answered at once; some raise an error.
\<close>

datatype piece_sent = Xml item | Ws ws_event

fun gives :: "piece_sent \<Rightarrow> (bytes \<times> nat) list" where
  "gives (Xml x) = [(show_item x, item_eoft x)]"
| "gives (Ws e) = texts_of [e]"

fun answers :: "piece_sent \<Rightarrow> wr_event list list" where
  "answers (Xml x) = []"
| "answers (Ws e) = pongs_of [e]"

fun fails :: "piece_sent \<Rightarrow> bool" where
  "fails (Xml x) = False"
| "fails (Ws e) = (texts_of [e] = [] \<and> pongs_of [e] = [])"

text \<open>
  What the loop needs to know of an end: its writer, what a stanza is when it is written there and
  which ones it takes, what its reader has still to read, and whether its end closes the loop or is
  an error.
\<close>

record party =
  end_writer :: "sink \<Rightarrow> StanzaWrite"
  end_frames :: "bytes \<times> nat \<Rightarrow> wr_event list"
  end_takes :: "bytes \<times> nat \<Rightarrow> bool"
  end_reads :: "piece_sent list \<Rightarrow> StanzaFilter \<Rightarrow> StanzaRead \<Rightarrow> bool"
  end_closes :: bool

definition at_end :: "party \<Rightarrow> poll \<Rightarrow> StanzaRead \<Rightarrow> bool" where
  "at_end P p rd \<longleftrightarrow> (if end_closes P then p = Ready (Ok None) \<and> rd = AsyncRead [] else (\<exists>e. p = Ready (Err e)))"

definition polled :: "piece_sent \<Rightarrow> poll \<Rightarrow> bool" where
  "polled u p \<longleftrightarrow>
     (case gives u of
        [] \<Rightarrow> if fails u then \<exists>e. p = Ready (Err e) else p = NotReady
      | x # xs \<Rightarrow> xs = [] \<and> p = Ready (Ok (Some x)))"

locale loop_end =
  fixes tracing is_c2s :: bool and P :: party
  assumes poll_end: "end_reads P us f rd \<Longrightarrow> faults s = [] \<Longrightarrow> poll_next rd f (end_writer P s) = (p, rd', f', w') \<Longrightarrow>
      end_reads P us f' rd' \<and> w' = end_writer P s \<and> (p = NotReady \<or> us = [] \<and> at_end P p rd')
      \<or> (\<exists>u r. us = u # r \<and> end_reads P r f' rd' \<and> w' = end_writer P (log_event (concat (answers u)) s) \<and> polled u p)"
    and write_end: "end_takes P x \<Longrightarrow> faults s = [] \<Longrightarrow>
      write_and_flush tracing is_c2s (fst x) (snd x) (end_writer P s) = (Ok (), end_writer P (log_event (end_frames P x) s))"


section \<open>The loop between two ends\<close>

text \<open>
  What an end has got: answers to what it has sent, and what the other one has sent, each in order, one
  group of frames after the other.
\<close>

definition got :: "party \<Rightarrow> wr_event list \<Rightarrow> piece_sent list \<Rightarrow> piece_sent list \<Rightarrow> StanzaWrite \<Rightarrow> bool" where
  "got P before own other w \<longleftrightarrow>
     (\<exists>s gs. w = end_writer P s \<and> faults s = [] \<and> sent s = before @ concat gs
        \<and> gs \<in> shuffles (concat (map answers own)) (map (end_frames P) (concat (map gives other))))"

text \<open>Reading has failed: nothing is left, and that is an error, or the last piece was one.\<close>

definition stopped :: "party \<Rightarrow> piece_sent list \<Rightarrow> piece_sent list \<Rightarrow> bool" where
  "stopped P done_part rest \<longleftrightarrow> \<not> end_closes P \<and> rest = [] \<or> done_part \<noteq> [] \<and> fails (last done_part)"

definition over ::
    "party \<Rightarrow> party \<Rightarrow> piece_sent list \<Rightarrow> piece_sent list \<Rightarrow> piece_sent list \<Rightarrow> piece_sent list \<Rightarrow> shuffle \<Rightarrow> bool"
where
  "over A B ao ar bo br s \<longleftrightarrow>
     end_closes A \<and> ar = [] \<and> in_rd s = AsyncRead [] \<or> end_closes B \<and> br = [] \<and> out_rd s = AsyncRead []
     \<or> stopped A ao ar \<and> stopped B bo br"

definition between ::
    "party \<Rightarrow> wr_event list \<Rightarrow> piece_sent list \<Rightarrow> party \<Rightarrow> wr_event list \<Rightarrow> piece_sent list
      \<Rightarrow> piece_sent list \<Rightarrow> piece_sent list \<Rightarrow> piece_sent list \<Rightarrow> piece_sent list \<Rightarrow> shuffle \<Rightarrow> bool"
where
  "between A la us B lb vs ao ar bo br s \<longleftrightarrow>
     us = ao @ ar \<and> vs = bo @ br
     \<and> end_reads A ar (in_filter s) (in_rd s) \<and> end_reads B br (out_filter s) (out_rd s)
     \<and> got A la ao bo (in_wr s) \<and> got B lb bo ao (out_wr s)
     \<and> (in_off s \<longrightarrow> stopped A ao ar) \<and> (out_off s \<longrightarrow> stopped B bo br)
     \<and> (finished s = None \<or> finished s = Some (Ok ()) \<and> over A B ao ar bo br s)"

text \<open>The same state, seen from the other side.\<close>

lemma between_swap: "between A la us B lb vs ao ar bo br (swap_sides s) = between B lb vs A la us bo br ao ar s"
  by (auto simp: between_def over_def swap_sides_def)

text \<open>What the other end can be given.\<close>

definition understood :: "party \<Rightarrow> piece_sent list \<Rightarrow> bool" where
  "understood P us \<longleftrightarrow> list_all (end_takes P) (concat (map gives us))"

lemma answers_one: "answers u = [] \<or> (\<exists>g. answers u = [g])"
  by (cases u) (auto simp: pongs_of_def split: ws_event.split ws_message.split)

lemma got_own:
  assumes "gs \<in> shuffles (concat (map answers own)) fs" 
  shows "gs @ answers u \<in> shuffles (concat (map answers (own @ [u]))) fs"
  using answers_one [of u] shuffles_snoc_left [OF assms] assms by auto

lemma got_mine:
  assumes "got P before own other w"
  obtains s where "w = end_writer P s" and "faults s = []"
    and "\<And>u. got P before (own @ [u]) other (end_writer P (log_event (concat (answers u)) s))"
proof -
  from assms obtain s gs where s: "w = end_writer P s" "faults s = []" "sent s = before @ concat gs"
    and g: "gs \<in> shuffles (concat (map answers own)) (map (end_frames P) (concat (map gives other)))"
    by (auto simp: got_def)
  have "got P before (own @ [u]) other (end_writer P (log_event (concat (answers u)) s))" for u
    unfolding got_def using s(2,3) got_own [OF g, of u]
    by (intro exI [of _ "log_event (concat (answers u)) s"] exI [of _ "gs @ answers u"]) simp
  with s that show ?thesis by blast
qed

lemma got_theirs:
  assumes "got P before own other w"
  obtains s where "w = end_writer P s" and "faults s = []"
    and "\<And>u. gives u = [] \<Longrightarrow> got P before own (other @ [u]) w"
    and "\<And>u x. gives u = [x] \<Longrightarrow> got P before own (other @ [u]) (end_writer P (log_event (end_frames P x) s))"
proof -
  from assms obtain s gs where s: "w = end_writer P s" "faults s = []" "sent s = before @ concat gs"
    and g: "gs \<in> shuffles (concat (map answers own)) (map (end_frames P) (concat (map gives other)))"
    by (auto simp: got_def)
  have "got P before own (other @ [u]) (end_writer P (log_event (end_frames P x) s))" if "gives u = [x]" for u x
    unfolding got_def using s(2,3) shuffles_snoc_right [OF g, of "end_frames P x"] that
    by (intro exI [of _ "log_event (end_frames P x) s"] exI [of _ "gs @ [end_frames P x]"]) simp
  moreover have "got P before own (other @ [u]) w" if "gives u = []" for u
    using assms that by (simp add: got_def)
  ultimately show ?thesis using s that by blast
qed

locale two_ends = A: loop_end tracing is_c2s A + B: loop_end tracing is_c2s B
  for tracing is_c2s A B
begin

lemma between_in:
  assumes inv: "between A la us B lb vs ao ar bo br s" and fin: "finished s = None" "\<not> in_off s" and un: "understood B us"
  shows "\<exists>ao ar. between A la us B lb vs ao ar bo br (in_branch tracing is_c2s s)"
proof -
  note i = inv [unfolded between_def]
  from i have "got A la ao bo (in_wr s)" by simp
  then obtain k where k: "in_wr s = end_writer A k" "faults k = []"
    and mine: "\<And>u. got A la (ao @ [u]) bo (end_writer A (log_event (concat (answers u)) k))" by (rule got_mine) blast
  from i have "got B lb bo ao (out_wr s)" by simp
  then obtain l where l: "out_wr s = end_writer B l" "faults l = []"
    and skip: "\<And>u. gives u = [] \<Longrightarrow> got B lb bo (ao @ [u]) (out_wr s)"
    and theirs: "\<And>u x. gives u = [x] \<Longrightarrow> got B lb bo (ao @ [u]) (end_writer B (log_event (end_frames B x) l))"
    by (rule got_theirs) blast
  obtain p rd' f' w' where p: "poll_next (in_rd s) (in_filter s) (end_writer A k) = (p, rd', f', w')"
    by (cases "poll_next (in_rd s) (in_filter s) (end_writer A k)") auto
  from i have "end_reads A ar (in_filter s) (in_rd s)" by simp
  from A.poll_end [OF this k(2) p] show ?thesis
  proof (elim disjE exE conjE)
    assume r: "end_reads A ar f' rd'" "w' = end_writer A k" "p = NotReady"
    with i p k fin have "between A la us B lb vs ao ar bo br (in_branch tracing is_c2s s)"
      by (simp add: between_def in_branch_def Let_def)
    then show ?thesis by blast
  next
    assume r: "end_reads A ar f' rd'" "w' = end_writer A k" "ar = []" "at_end A p rd'"
    with i p k fin have "between A la us B lb vs ao ar bo br (in_branch tracing is_c2s s)"
      by (cases "end_closes A") (auto simp: between_def in_branch_def Let_def over_def at_end_def stopped_def)
    then show ?thesis by blast
  next
    fix u r
    assume r: "ar = u # r" "end_reads A r f' rd'" "w' = end_writer A (log_event (concat (answers u)) k)" "polled u p"
    have "between A la us B lb vs (ao @ [u]) r bo br (in_branch tracing is_c2s s)"
    proof (cases "gives u")
      case Nil
      with i p k fin r mine skip show ?thesis
        by (auto simp: between_def in_branch_def Let_def polled_def over_def stopped_def split: if_splits)
    next
      case (Cons x xs)
      with r have x: "gives u = [x]" "p = Ready (Ok (Some x))" by (auto simp: polled_def)
      from un i r x have "end_takes B x" by (auto simp: understood_def)
      from B.write_end [OF this l(2)] i p k l fin r mine theirs [OF x(1)] x(2) show ?thesis
        by (cases x) (auto simp: between_def in_branch_def Let_def over_def)
    qed
    then show ?thesis by blast
  qed
qed

end

lemma two_ends_swap: "two_ends tr c A B \<Longrightarrow> two_ends tr c B A"
  by (simp add: two_ends_def)

context two_ends
begin

lemma between_out:
  assumes "between A la us B lb vs ao ar bo br s" and "finished s = None" and "\<not> out_off s" and "understood A vs"
  shows "\<exists>bo br. between A la us B lb vs ao ar bo br (out_branch tracing is_c2s s)"
  using two_ends.between_in [OF two_ends_swap [OF two_ends_axioms], of lb vs la us bo br ao ar "swap_sides s"] assms
  by (simp add: out_branch_swap between_swap) (simp add: swap_sides_def)

lemma between_run:
  assumes "shuffle_run tracing is_c2s s s'" and "understood B us" and "understood A vs"
    and "between A la us B lb vs ao ar bo br s"
  shows "\<exists>ao ar bo br. between A la us B lb vs ao ar bo br s'"
  using assms(1,4)
proof (induction rule: rtranclp_induct)
  case (step t u)
  then obtain ao ar bo br where "between A la us B lb vs ao ar bo br t" by blast
  with step.hyps(2) between_in [OF this _ _ assms(2)] between_out [OF this _ _ assms(3)] show ?case
    by (elim shuffle_stepE) blast+
qed blast

end

text \<open>
  What the loop promises from a start state on: it makes a bounded number of steps, never fails, stops
  only by returning, and at any moment each end has got what the other one has sent so far, and answers
  to its own pings; it returns when a stream has ended, or when both ends have stopped.
\<close>

definition relays_between ::
    "bool \<Rightarrow> bool \<Rightarrow> shuffle \<Rightarrow> nat \<Rightarrow> party \<Rightarrow> wr_event list \<Rightarrow> piece_sent list
      \<Rightarrow> party \<Rightarrow> wr_event list \<Rightarrow> piece_sent list \<Rightarrow> bool"
where
  "relays_between tracing is_c2s s0 bound A la us B lb vs \<longleftrightarrow>
     (\<forall>k s. (shuffle_step tracing is_c2s ^^ k) s0 s \<longrightarrow> k \<le> bound)
     \<and> (\<forall>s. shuffle_run tracing is_c2s s0 s \<longrightarrow>
          finished s \<in> {None, Some (Ok ())}
          \<and> (finished s \<noteq> None \<longleftrightarrow> (\<nexists>s'. shuffle_step tracing is_c2s s s'))
          \<and> (\<exists>ao ar bo br. us = ao @ ar \<and> vs = bo @ br
               \<and> end_reads A ar (in_filter s) (in_rd s) \<and> end_reads B br (out_filter s) (out_rd s)
               \<and> got A la ao bo (in_wr s) \<and> got B lb bo ao (out_wr s)
               \<and> (finished s \<noteq> None \<longrightarrow> over A B ao ar bo br s)))"

context two_ends
begin

lemma loop_relays:
  assumes "end_reads A us f ird" and "end_reads B vs (StanzaFilter_new m) ord" and "understood B us" and "understood A vs"
    and "faults k = []" and "faults l = []"
  shows "relays_between tracing is_c2s (shuffle_start ird (end_writer A k) ord (end_writer B l) m f)
    (3 * remaining ird + 3 * remaining ord + 3) A (sent k) us B (sent l) vs"
proof -
  let ?s0 = "shuffle_start ird (end_writer A k) ord (end_writer B l) m f"
  have "got A (sent k) [] [] (end_writer A k)" "got B (sent l) [] [] (end_writer B l)"
    using assms(5,6) unfolding got_def by (force intro!: exI [of _ "[]"])+
  with assms(1,2) have start: "between A (sent k) us B (sent l) vs [] us [] vs ?s0"
    by (simp add: between_def shuffle_start_def)
  have en: "enabled ?s0" and m: "shuffle_measure ?s0 = 3 * remaining ird + 3 * remaining ord + 3"
    by (simp_all add: enabled_def shuffle_start_def shuffle_measure_def)
  have "finished s \<in> {None, Some (Ok ())} \<and> (finished s \<noteq> None \<longleftrightarrow> (\<nexists>s'. shuffle_step tracing is_c2s s s'))
      \<and> (\<exists>ao ar bo br. us = ao @ ar \<and> vs = bo @ br
           \<and> end_reads A ar (in_filter s) (in_rd s) \<and> end_reads B br (out_filter s) (out_rd s) \<and> got A (sent k) ao bo (in_wr s) \<and> got B (sent l) bo ao (out_wr s)
           \<and> (finished s \<noteq> None \<longrightarrow> over A B ao ar bo br s))"
    if run: "shuffle_run tracing is_c2s ?s0 s" for s
  proof -
    from between_run [OF run assms(3,4) start] obtain ao ar bo br
      where b: "between A (sent k) us B (sent l) vs ao ar bo br s" by blast
    from enabled_run [OF run en] have "finished s \<noteq> None \<longleftrightarrow> (\<nexists>s'. shuffle_step tracing is_c2s s s')"
      by (auto simp: shuffle_step_simps enabled_def)
    with b show ?thesis unfolding between_def by blast
  qed
  moreover have "j \<le> 3 * remaining ird + 3 * remaining ord + 3" if "(shuffle_step tracing is_c2s ^^ j) ?s0 s" for j s
    using steps_bound [OF that] m by simp
  ultimately show ?thesis unfolding relays_between_def by (intro conjI allI impI) blast+
qed

end

text \<open>One event of a WebSocket.\<close>

lemma poll_ws:
  assumes "faults iw = []" and "texts_fit (length (buf f)) [e]"
  shows "\<exists>p f'. poll_next (WebSocketRead (e # rd)) f (WebSocketClientWrite iw)
        = (p, WebSocketRead rd, f', WebSocketClientWrite (log_event (concat (pongs_of [e])) iw))
      \<and> length (buf f') = length (buf f)
      \<and> (case p of
           NotReady \<Rightarrow> texts_of [e] = [] \<and> pongs_of [e] \<noteq> []
         | Ready (Ok (Some x)) \<Rightarrow> texts_of [e] = [x]
         | Ready (Err er) \<Rightarrow> texts_of [e] = [] \<and> pongs_of [e] = []
         | _ \<Rightarrow> False)"
proof (cases e)
  case (WsMsg m)
  with assms show ?thesis
    by (cases m) (auto simp: sink_ok pong_def texts_of_def pongs_of_def texts_fit_def Let_def)
qed (simp add: texts_of_def pongs_of_def)

section \<open>The two kinds of end\<close>

definition items_left :: "item list \<Rightarrow> StanzaFilter \<Rightarrow> StanzaRead \<Rightarrow> bool" where
  "items_left ys f rd \<longleftrightarrow> byte_stream rd \<and> clean_read f rd \<and> to_come f rd = map (\<lambda>x. (show_item x, item_eoft x)) ys"

definition byte_party :: party where
  "byte_party =
     \<lparr>end_writer = AsyncWrite, end_frames = (\<lambda>x. [Wrote (fst x), Flushed]), end_takes = (\<lambda>x. True),
      end_reads = (\<lambda>us f rd. \<exists>ys. us = map Xml ys \<and> items_left ys f rd), end_closes = True\<rparr>"

text \<open>
  A stanza on a WebSocket: what follows a declaration is converted, a declaration alone is dropped.
\<close>

definition web_body :: "bytes \<Rightarrow> bytes option" where
  "web_body bs =
     (if prefix ''<?xml '' bs
      then (case dropWhile (\<lambda>b. b \<noteq> CHR ''<'') (drop 6 bs) of [] \<Rightarrow> None | b # r \<Rightarrow> Some (b # r))
      else Some bs)"

definition web_frames :: "bool \<Rightarrow> bytes \<times> nat \<Rightarrow> wr_event list" where
  "web_frames is_c2s x =
     (case map_option (\<lambda>b. to_ws_new b (snd x) is_c2s) (web_body (fst x)) of
        Some (Ok t) \<Rightarrow> [Fed (WsText t), Flushed]
      | _ \<Rightarrow> [Flushed])"

definition web_takes :: "bool \<Rightarrow> bytes \<times> nat \<Rightarrow> bool" where
  "web_takes is_c2s x =
     (case web_body (fst x) of
        Some b \<Rightarrow> is_ok (to_ws_new b (snd x) is_c2s)
      | None \<Rightarrow> utf8_valid (drop 6 (fst x)))"

definition web_party :: "bool \<Rightarrow> nat \<Rightarrow> party" where
  "web_party is_c2s n =
     \<lparr>end_writer = WebSocketClientWrite, end_frames = web_frames is_c2s, end_takes = web_takes is_c2s,
      end_reads = (\<lambda>us f rd. \<exists>es. us = map Ws es \<and> rd = WebSocketRead es \<and> length (buf f) = n \<and> texts_fit n es),
      end_closes = False\<rparr>"

lemma first_lt_found:
  assumes "first_index_of s ''<'' = Ok i"
  shows "dropWhile (\<lambda>b. b \<noteq> CHR ''<'') s = drop i s" and "drop i s \<noteq> []"
proof -
  from slice_find.find_single_least [OF assms] have i: "i < length s" "s ! i = CHR ''<''" "CHR ''<'' \<notin> set (take i s)" by simp_all
  have "dropWhile (\<lambda>b. b \<noteq> CHR ''<'') (take i s @ drop i s) = dropWhile (\<lambda>b. b \<noteq> CHR ''<'') (drop i s)"
    using i(3) by (intro dropWhile_append2) auto
  also have "\<dots> = drop i s" using i by (simp flip: Cons_nth_drop_Suc)
  finally show "dropWhile (\<lambda>b. b \<noteq> CHR ''<'') s = drop i s" by simp
  show "drop i s \<noteq> []" using i(1) by simp
qed

lemma first_lt_missing:
  assumes "first_index_of s ''<'' = Err e"
  shows "dropWhile (\<lambda>b. b \<noteq> CHR ''<'') s = []"
proof -
  have "CHR ''<'' \<notin> set s"
  proof
    assume "CHR ''<'' \<in> set s"
    then obtain p q where "s = p @ ''<'' @ q" by (auto dest: split_list)
    with first_index_of_Err [OF assms] sublist_appendI [of "''<''" p q] show False by simp
  qed
  then show ?thesis by (auto simp: dropWhile_eq_Nil_conv)
qed

lemma web_write:
  assumes "web_takes c x" and "faults s = []"
  shows "write_and_flush tr c (fst x) (snd x) (WebSocketClientWrite s) = (Ok (), WebSocketClientWrite (log_event (web_frames c x) s))"
proof (cases "prefix ''<?xml '' (fst x)")
  case False
  then have "web_body (fst x) = Some (fst x)" by (simp add: web_body_def)
  with assms False show ?thesis
    by (auto simp: web_takes_def web_frames_def write_and_flush_def write_ws_def sink_ok is_ok_iff)
next
  case True
  show ?thesis
  proof (cases "first_index_of (drop 6 (fst x)) ''<''")
    case (Ok i)
    with True first_lt_found [OF Ok] have "web_body (fst x) = Some (drop i (drop 6 (fst x)))"
      by (auto simp: web_body_def split: list.split)
    with assms True Ok show ?thesis
      by (auto simp: web_takes_def web_frames_def write_and_flush_def write_ws_def sink_ok is_ok_iff)
  next
    case (Err e)
    with True first_lt_missing [OF Err] have "web_body (fst x) = None" by (simp add: web_body_def del: dropWhile_eq_Nil_conv)
    with assms True Err show ?thesis by (simp add: web_takes_def web_frames_def write_and_flush_def sink_ok)
  qed (simp add: first_index_of_no_panic)
qed

text \<open>Items of a byte stream on a WebSocket.\<close>

lemma web_item:
  assumes "ok_item x" and "sendable x"
  shows "web_takes c (show_item x, item_eoft x) \<and> web_frames c (show_item x, item_eoft x) = ws_frames c x"
proof (cases "is_decl x")
  case True
  then obtain d where x: "x = XmlDecl d" by (cases x) simp_all
  from assms(2) x have lt: "CHR ''<'' \<notin> set (d @ ''>'')" and u: "utf8_valid (d @ ''>'')"
    by (simp_all add: sendable_def utf8_valid_Cons_ascii is_ascii_def)
  from lt have "dropWhile (\<lambda>b. b \<noteq> CHR ''<'') (d @ ''>'') = []" by (auto simp: dropWhile_eq_Nil_conv)
  with u show ?thesis
    by (simp add: x web_takes_def web_frames_def web_body_def ws_frames_def del: dropWhile_eq_Nil_conv)
next
  case False
  have "\<not> prefix ''<?xml '' (show_item x)" by (rule not_decl_item [OF assms(1) False])
  with to_ws_item [OF assms False] False show ?thesis
    by (simp add: web_takes_def web_frames_def web_body_def ws_frames_def del: show_item.simps)
qed

lemma byte_poll:
  assumes "items_left ys f rd" and "poll_next rd f (AsyncWrite s) = (p, rd', f', w')"
  shows "w' = AsyncWrite s \<and>
    (p = NotReady \<and> items_left ys f' rd' \<or> p = Ready (Ok None) \<and> ys = [] \<and> items_left [] f' rd' \<and> rd' = AsyncRead []
     \<or> (\<exists>y r. ys = y # r \<and> items_left r f' rd' \<and> p = Ready (Ok (Some (show_item y, item_eoft y)))))"
proof -
  from assms(1) obtain es where rd: "rd = AsyncRead es" "clean f es"
    and cut: "cut f es = map (\<lambda>x. (show_item x, item_eoft x)) ys"
    by (auto simp: items_left_def byte_stream_def)
  from assms(2) rd have p: "poll_next (AsyncRead es) f (AsyncWrite s) = (p, rd', f', w')" by simp
  note c = poll_cut [OF p] and k = poll_clean [OF p rd(2)]
  have e: "es = [] \<Longrightarrow> rd' = AsyncRead []" using p by (auto split: outcome.splits)
  show ?thesis
  proof (cases p)
    case NotReady
    with c k cut show ?thesis by (simp add: items_left_def)
  next
    case (Ready r)
    with k obtain o1 where "r = Ok o1" by (auto simp: is_ok_iff)
    with Ready c k cut e show ?thesis
      by (cases o1) (auto simp: items_left_def Cons_eq_map_conv)
  qed
qed

interpretation bytes: loop_end tracing is_c2s byte_party for tracing is_c2s
proof
  fix us f rd p rd' f' w' and s :: sink
  assume "end_reads byte_party us f rd" and "poll_next rd f (end_writer byte_party s) = (p, rd', f', w')"
  then obtain ys where us: "us = map Xml ys" and "items_left ys f rd" and "poll_next rd f (AsyncWrite s) = (p, rd', f', w')"
    by (auto simp: byte_party_def)
  from byte_poll [OF this(2,3)]
  show "end_reads byte_party us f' rd' \<and> w' = end_writer byte_party s \<and> (p = NotReady \<or> us = [] \<and> at_end byte_party p rd')
      \<or> (\<exists>u r. us = u # r \<and> end_reads byte_party r f' rd' \<and> w' = end_writer byte_party (log_event (concat (answers u)) s) \<and> polled u p)"
  proof (elim conjE disjE exE)
    assume "w' = AsyncWrite s" "p = NotReady" "items_left ys f' rd'"
    with us show ?thesis by (auto simp: byte_party_def)
  next
    assume "w' = AsyncWrite s" "p = Ready (Ok None)" "ys = []" "items_left [] f' rd'" "rd' = AsyncRead []"
    with us show ?thesis by (auto simp: byte_party_def at_end_def)
  next
    fix y r assume "w' = AsyncWrite s" "ys = y # r" "items_left r f' rd'" "p = Ready (Ok (Some (show_item y, item_eoft y)))"
    with us show ?thesis by (intro disjI2 exI [of _ "Xml y"] exI [of _ "map Xml r"]) (auto simp: byte_party_def polled_def)
  qed
next
  fix x and s :: sink
  assume "faults s = []"
  then show "write_and_flush tracing is_c2s (fst x) (snd x) (end_writer byte_party s)
      = (Ok (), end_writer byte_party (log_event (end_frames byte_party x) s))"
    by (simp add: byte_party_def write_and_flush_ok)
qed

interpretation web: loop_end tracing is_c2s "web_party is_c2s n" for tracing is_c2s n
proof
  let ?P = "web_party is_c2s n"
  fix us f rd p rd' f' w' and s :: sink
  assume "end_reads ?P us f rd" and s: "faults s = []" and q: "poll_next rd f (end_writer ?P s) = (p, rd', f', w')"
  then obtain es where es: "us = map Ws es" "rd = WebSocketRead es" "length (buf f) = n" "texts_fit n es"
    by (auto simp: web_party_def)
  show "end_reads ?P us f' rd' \<and> w' = end_writer ?P s \<and> (p = NotReady \<or> us = [] \<and> at_end ?P p rd')
      \<or> (\<exists>u r. us = u # r \<and> end_reads ?P r f' rd' \<and> w' = end_writer ?P (log_event (concat (answers u)) s) \<and> polled u p)"
  proof (cases es)
    case Nil
    with es q show ?thesis by (auto simp: web_party_def at_end_def)
  next
    case (Cons e r)
    with es have "texts_fit (length (buf f)) [e]" "texts_fit n r" by (auto simp: texts_fit_def)
    from poll_ws [OF s this(1), of r] this(2) es Cons q show ?thesis
      by (auto simp: web_party_def polled_def split: poll.splits outcome.splits option.splits)
  qed
next
  fix x and s :: sink
  assume "end_takes (web_party is_c2s n) x" and "faults s = []"
  then show "write_and_flush tracing is_c2s (fst x) (snd x) (end_writer (web_party is_c2s n) s)
      = (Ok (), end_writer (web_party is_c2s n) (log_event (end_frames (web_party is_c2s n) x) s))"
    by (simp add: web_party_def web_write)
qed

lemma two_ends_any:
  assumes "A \<in> {byte_party, web_party is_c2s n}" and "B \<in> {byte_party, web_party is_c2s n}"
  shows "two_ends tracing is_c2s A B"
  using assms bytes.loop_end_axioms web.loop_end_axioms by (auto simp: two_ends_def)

interpretation client_on_web: two_ends tracing is_c2s "web_party is_c2s n" byte_party for tracing is_c2s n
  by (rule two_ends_any [where n = n]) simp_all

interpretation byte_streams: two_ends tracing is_c2s byte_party byte_party for tracing is_c2s
  by (rule two_ends_any) simp_all

text \<open>What the ends start from.\<close>

lemma byte_start:
  assumes "idle n 0 f" and "fits n xs" and "CHR ''<'' \<notin> set tail"
  shows "end_reads byte_party (map (Xml \<circ> snd) xs) f (AsyncRead (map RByte (show_stream xs @ tail)))"
proof -
  have "delivered xs = map (\<lambda>x. (show_item x, item_eoft x)) (map snd xs)" by (simp add: delivered_def case_prod_beta)
  with cut_stream [OF assms] have "items_left (map snd xs) f (AsyncRead (map RByte (show_stream xs @ tail)))"
    by (simp add: items_left_def byte_stream_def)
  then show ?thesis by (auto simp: byte_party_def simp flip: map_map)
qed

lemma web_start:
  "length (buf f) = n \<Longrightarrow> texts_fit n es \<Longrightarrow> end_reads (web_party c n) (map Ws es) f (WebSocketRead es)"
  by (auto simp: web_party_def)

lemma bytes_understood: "understood byte_party us"
  by (simp add: understood_def byte_party_def list_all_iff)

lemma items_understood:
  "list_all (\<lambda>x. ok_item x \<and> sendable x) ys \<Longrightarrow> understood (web_party c n) (map Xml ys)"
  by (induction ys) (auto simp: understood_def web_party_def web_item)

text \<open>What a byte stream and a WebSocket have got.\<close>

lemma answers_items [simp]: "concat (map answers (map Xml ys)) = []"
  by (induction ys) simp_all

lemma pieces_of_events [simp]:
  "concat (map gives (map Ws es)) = texts_of es" "concat (map answers (map Ws es)) = pongs_of es"
  by (induction es) (simp_all add: texts_of_def pongs_of_def)

lemma pieces_of_items [simp]: "concat (map gives (map Xml ys)) = map (\<lambda>x. (show_item x, item_eoft x)) ys"
  by (induction ys) simp_all

lemma byte_frames: "concat (map (end_frames byte_party) xs) = relayed xs"
  by (simp add: byte_party_def relayed_def split_def)

lemma got_bytes:
  "got byte_party before (map Xml own) other w
     \<longleftrightarrow> (\<exists>s. w = AsyncWrite s \<and> faults s = [] \<and> sent s = before @ relayed (concat (map gives other)))"
  unfolding got_def answers_items by (auto simp: byte_frames) (simp_all add: byte_party_def)

lemma web_item_frames:
  "list_all (\<lambda>x. ok_item x \<and> sendable x) ys \<Longrightarrow>
     map (end_frames (web_party c n)) (map (\<lambda>x. (show_item x, item_eoft x)) ys) = map (ws_frames c) ys"
  by (induction ys) (auto simp: web_party_def web_item)

lemma got_web:
  assumes "list_all (\<lambda>x. ok_item x \<and> sendable x) other"
  shows "got (web_party c n) before (map Ws own) (map Xml other) w
     \<longleftrightarrow> (\<exists>s gs. w = WebSocketClientWrite s \<and> faults s = [] \<and> sent s = before @ concat gs
            \<and> gs \<in> shuffles (pongs_of own) (map (ws_frames c) other))"
  unfolding got_def pieces_of_events pieces_of_items web_item_frames [OF assms] by (simp add: web_party_def)

text \<open>Byte streams never stop reading by an error, and a WebSocket does not close the loop.\<close>

lemma not_stopped_bytes: "\<not> stopped byte_party (map Xml done_part) rest"
  by (induction done_part rule: rev_induct) (auto simp: stopped_def byte_party_def)

lemma closing: "end_closes byte_party" "\<not> end_closes (web_party c n)"
  by (simp_all add: byte_party_def web_party_def)

end
