(* ===== verification/Listeners.thy ===== *)
theory Listeners
  imports Main_Config Peers
begin

text \<open>
  Model of \<open>src/common/stream_listener.rs\<close> (what the two listeners return), of the accept loops
  \<open>spawn_tls_listener\<close> (\<open>src/tls/incoming.rs\<close>), \<open>spawn_outgoing_listener\<close> (\<open>src/outgoing.rs\<close>) and
  \<open>internal_spawn_quic_listener\<close> (\<open>src/quic/incoming.rs\<close>), and of a connection from the first
  byte it receives to the last one it relays.

  A listener is the list of what its \<open>accept\<close> returns; a list that has been used up is a
  listener that is waiting for the next connection.  Every connection is handled by a task of
  its own, so the order of the sessions is the order in which they were accepted, not the
  order in which they run.
\<close>

section \<open>The sockets\<close>

text \<open>What the operating system and the libraries give for one accepted connection.\<close>

record connection =
  conn_peeks :: "peek_event list"
  conn_reader :: reader
  conn_sink :: sink
  conn_accept :: "reader \<Rightarrow> sink \<Rightarrow> tls_stream outcome"
  conn_websocket :: ws_accept
  conn_random :: bytes

text \<open>The address of a Unix socket is that constant; its streams are buffered ones.\<close>

fun listener_accept :: "'h Listener \<Rightarrow> (connection \<times> SocketAddr) outcome \<Rightarrow> (connection \<times> SocketAddr) outcome" where
  "listener_accept (ListenTcp h) r = r"
| "listener_accept (ListenUnix h) r = map_outcome (\<lambda>(stream, addr). (stream, loopback)) r"

fun listener_local_addr :: "'h Listener \<Rightarrow> SocketAddr outcome \<Rightarrow> SocketAddr outcome" where
  "listener_local_addr (ListenTcp h) r = r"
| "listener_local_addr (ListenUnix h) r = Ok loopback"

fun peek_bytes_of :: "'h Listener \<Rightarrow> nat \<Rightarrow> peek_event list \<Rightarrow> bytes outcome option" where
  "peek_bytes_of (ListenTcp h) = tcp_peek_bytes"
| "peek_bytes_of (ListenUnix h) = buf_peek_bytes"

section \<open>The accept loops\<close>

text \<open>
  The sessions that are spawned, and how the task ends: \<^const>\<open>None\<close> when it is still waiting.
\<close>

fun accept_loop ::
    "'h Listener \<Rightarrow> (connection \<Rightarrow> SocketAddr \<Rightarrow> 's) \<Rightarrow> (connection \<times> SocketAddr) outcome list
      \<Rightarrow> 's list \<times> unit outcome option"
where
  "accept_loop l handle [] = ([], None)"
| "accept_loop l handle (r # rs) =
     (case listener_accept l r of
        Ok (stream, addr) \<Rightarrow> (case accept_loop l handle rs of (ss, e) \<Rightarrow> (handle stream addr # ss, e))
      | Err e \<Rightarrow> ([], Some (Err e))
      | Panic \<Rightarrow> ([], Some Panic))"

definition spawn_tls_listener ::
    "('u, 'l, 'b, 'n, 't) incoming_env \<Rightarrow> 'h Listener \<Rightarrow> SocketAddr outcome \<Rightarrow> IncomingConfig
      \<Rightarrow> (connection \<times> SocketAddr) outcome list \<Rightarrow> session option list \<times> unit outcome option"
where
  "spawn_tls_listener env l addr config accepts =
     (case listener_local_addr l addr of
        Ok local_addr \<Rightarrow>
          accept_loop l (\<lambda>c client.
            handle_tls_connection env (peek_bytes_of l) (conn_accept c) config local_addr
              (Context_new (logging env) (conn_random c) ''tcp-in'' client) (conn_peeks c) (conn_reader c) (conn_sink c))
            accepts
      | Err e \<Rightarrow> ([], Some (Err e))
      | Panic \<Rightarrow> ([], Some Panic))"

definition spawn_outgoing_listener ::
    "('u, 'l, 'b, 'n) net \<Rightarrow> 'h Listener \<Rightarrow> nat \<Rightarrow> (connection \<times> SocketAddr) outcome list
      \<Rightarrow> ((bool \<times> shuffle) outcome \<times> Context) option list \<times> unit outcome option"
where
  "spawn_outgoing_listener net l max_size accepts =
     accept_loop l (\<lambda>c client.
       handle_outgoing_connection net (peek_bytes_of l) max_size
         (Context_new (net_logging net) (conn_random c) ''unk-out'' client) (conn_peeks c)
         (conn_reader c, conn_sink c) (conn_websocket c))
       accepts"

text \<open>
  The endpoint of QUIC: a connection whose handshake fails opens no session and does not end
  the loop; \<open>ended\<close> when \<open>accept\<close> has returned \<open>None\<close>.
\<close>

record quic_connection =
  quic_identity :: "bytes list option"
  quic_handshake :: "(bytes option \<times> bytes option) option"
  quic_request :: "unit outcome"
  quic_accepted :: "unit outcome"
  quic_streams :: "(reader \<times> sink) list"
  quic_random :: bytes
  quic_remote :: SocketAddr

definition internal_spawn_quic_listener ::
    "('u, 'l, 'b, 'n, 't) incoming_env \<Rightarrow> bytes \<Rightarrow> IncomingConfig \<Rightarrow> SocketAddr \<Rightarrow> quic_connection outcome list \<Rightarrow> bool
      \<Rightarrow> session list list \<times> unit outcome option"
where
  "internal_spawn_quic_listener env webtransport_alpn config local_addr incoming ended =
     (map (\<lambda>c. case c of
             Ok q \<Rightarrow> handle_quic_connection env webtransport_alpn (quic_request q) (quic_accepted q) (quic_streams q)
                      config (quic_identity q) (quic_handshake q) local_addr (quic_random q) (quic_remote q)
           | _ \<Rightarrow> []) incoming,
      if ended then Some (Ok ()) else None)"

section \<open>What an accept loop serves\<close>

definition seen_addr :: "'h Listener \<Rightarrow> SocketAddr \<Rightarrow> SocketAddr" where
  "seen_addr l a = (case l of ListenTcp h \<Rightarrow> a | ListenUnix h \<Rightarrow> loopback)"

lemma listener_accept_Ok [simp]: "listener_accept l (Ok (c, a)) = Ok (c, seen_addr l a)"
  by (cases l) (simp_all add: seen_addr_def)

lemma listener_accept_Err [simp]: "listener_accept l (Err e) = Err e"
  by (cases l) simp_all

lemma accept_loop_prefix:
  "accept_loop l handle (map Ok cs @ rs)
    = (case accept_loop l handle rs of (ss, e) \<Rightarrow> (map (\<lambda>(c, a). handle c (seen_addr l a)) cs @ ss, e))"
  by (induction cs) (auto split: prod.splits)

lemma accept_loop_all: "accept_loop l handle (map Ok cs) = (map (\<lambda>(c, a). handle c (seen_addr l a)) cs, None)"
  using accept_loop_prefix [of l handle cs "[]"] by simp

lemma peek_bytes_length: "peek_bytes_of l n es = Some (Ok p) \<Longrightarrow> length p = n"
proof (induction es)
  case Nil
  then show ?case by (cases l) simp_all
next
  case (Cons e es)
  then show ?case by (cases l; cases e) (auto simp: Let_def split: if_splits)
qed

section \<open>A run between two streams of items\<close>

text \<open>
  What a run from the start state between two streams of items has done when it is at its end:
  every step made is one of finitely many, no run stops before the loop has returned, and then
  everything of the one end has been written to the other.
\<close>

definition delivers :: "bool \<Rightarrow> bool \<Rightarrow> shuffle \<Rightarrow> nat \<Rightarrow> wr_event list \<Rightarrow> (bytes \<times> nat) list \<Rightarrow> wr_event list \<Rightarrow> (bytes \<times> nat) list \<Rightarrow> bool" where
  "delivers tracing is_c2s s0 bound to_backend xs to_client ys \<longleftrightarrow>
     (\<forall>k s. (shuffle_step tracing is_c2s ^^ k) s0 s \<longrightarrow> k \<le> bound)
     \<and> (\<forall>s. shuffle_run tracing is_c2s s0 s \<longrightarrow> (\<nexists>s'. shuffle_step tracing is_c2s s s') \<longrightarrow>
          finished s = Some (Ok ())
          \<and> (\<exists>i j ow iw. out_wr s = AsyncWrite ow \<and> sent ow = to_backend @ relayed (take i xs)
               \<and> in_wr s = AsyncWrite iw \<and> sent iw = to_client @ relayed (take j ys)
               \<and> (i = length xs \<or> j = length ys)))"

lemma delivers_if:
  assumes r: "relays_between tracing is_c2s s0 bound byte_party to_client (map (Xml \<circ> snd) xs) byte_party to_backend (map (Xml \<circ> snd) ys)"
  shows "delivers tracing is_c2s s0 bound to_backend (delivered xs) to_client (delivered ys)"
proof -
  have "finished s = Some (Ok ()) \<and> (\<exists>i j ow iw. out_wr s = AsyncWrite ow \<and> sent ow = to_backend @ relayed (take i (delivered xs))
      \<and> in_wr s = AsyncWrite iw \<and> sent iw = to_client @ relayed (take j (delivered ys))
      \<and> (i = length (delivered xs) \<or> j = length (delivered ys)))"
    if run: "shuffle_run tracing is_c2s s0 s" and stuck: "\<nexists>s'. shuffle_step tracing is_c2s s s'" for s
  proof -
    from r run stuck obtain ao ar bo br where fin: "finished s = Some (Ok ())"
      and e: "map (Xml \<circ> snd) xs = ao @ ar" "map (Xml \<circ> snd) ys = bo @ br"
      and g: "got byte_party to_client ao bo (in_wr s)" "got byte_party to_backend bo ao (out_wr s)"
      and ov: "over byte_party byte_party ao ar bo br s"
      unfolding relays_between_def by blast
    define i j where "i = length ao" and "j = length bo"
    have ao: "ao = map Xml (map snd (take i xs))" "ar = map Xml (map snd (drop i xs))"
      and bo: "bo = map Xml (map snd (take j ys))" "br = map Xml (map snd (drop j ys))"
      using e by (simp_all add: i_def j_def flip: take_map drop_map)
    have d: "map (\<lambda>x. (show_item x, item_eoft x)) (map snd (take m zs)) = take m (delivered zs)" for m zs
      by (simp add: delivered_def split_def take_map)
    have "i \<le> length xs" "j \<le> length ys" using arg_cong [OF e(1), of length] arg_cong [OF e(2), of length]
      by (simp_all add: i_def j_def)
    with ov have "i = length xs \<or> j = length ys" by (auto simp: over_def ao bo not_stopped_bytes simp del: map_map)
    with g fin show ?thesis unfolding ao bo got_bytes pieces_of_items d by (auto simp: relayed_prefix_length)
  qed
  with r show ?thesis unfolding delivers_def relays_between_def by blast
qed

lemma shuffle_delivers:
  assumes "idle n 0 f" and "0 < m" and "fits n xs" and "fits m ys"
    and "CHR ''<'' \<notin> set xtail" and "CHR ''<'' \<notin> set ytail" and "faults iw = []" and "faults ow = []"
    and "ird = map RByte (show_stream xs @ xtail)" and "ord = map RByte (show_stream ys @ ytail)"
  shows "delivers tracing is_c2s (shuffle_start (AsyncRead ird) (AsyncWrite iw) (AsyncRead ord) (AsyncWrite ow) m f)
    (3 * length ird + 3 * length ord + 3) (sent ow) (delivered xs) (sent iw) (delivered ys)"
proof (rule delivers_if)
  show "relays_between tracing is_c2s (shuffle_start (AsyncRead ird) (AsyncWrite iw) (AsyncRead ord) (AsyncWrite ow) m f)
      (3 * length ird + 3 * length ord + 3) byte_party (sent iw) (map (Xml \<circ> snd) xs) byte_party (sent ow) (map (Xml \<circ> snd) ys)"
    using byte_streams.loop_relays [OF byte_start [OF assms(1,3,5)] byte_start [OF idle_new [OF assms(2)] assms(4,6)]
        bytes_understood bytes_understood assms(7,8), of tracing is_c2s]
    by (simp add: assms(9,10)) (simp add: byte_party_def)
qed

section \<open>From accept to the last stanza\<close>

lemma sniffed_filter_idle:
  assumes "length p = 3" and "3 \<le> n"
  shows "idle n 0 ((StanzaFilter_new n)\<lparr>buf := p @ drop 3 (buf (StanzaFilter_new n))\<rparr>)"
  by (rule idle_buf [OF idle_new]) (use assms in \<open>simp_all add: StanzaFilter_new_def\<close>)

lemma direct_tls_session:
  assumes "peek_bytes 3 pks = Some (Ok p)" and "is_client_hello p" and "length p = 3"
    and "3 \<le> max_stanza_size_bytes config" and "accept rd wr = Ok t"
    and "first_bytes_match_buf_timeout 3 (\<lambda>p. p = ''GET'') (tls_peeks t) = Some (Ok False)"
  shows "\<exists>f ctx'. idle (max_stanza_size_bytes config) 0 f \<and> client_addr ctx' = client_addr ctx
    \<and> handle_tls_connection env peek_bytes accept config local_addr ctx pks rd wr
      = Some (shuffle_rd_wr_filter env config (tls_certs t) local_addr ctx' (AsyncRead (tls_reader t)) (AsyncWrite (tls_sink t)) f)"
proof -
  have "client_addr (set_proto lg p ctx) = client_addr ctx" for lg p by (simp add: set_proto_def re_calc_def)
  with sniffed_filter_idle [OF assms(3,4)] assms show ?thesis
    unfolding handle_tls_connection_def after_tls_def Let_def by fastforce
qed

text \<open>A session of byte streams, from the first byte of its header, whatever the filter was used for.\<close>

lemma session_delivers:
  assumes "idle n e f" and "max_stanza_size_bytes config = n" and "0 < n" and "faults sk = []"
    and "ok_item x" and "is_header x" and "length (show_item x) \<le> n" and "CHR ''<'' \<notin> set ws" and "decls_ok n ds"
    and "declares_client (show_item x) = is_c2s" and "is_c2s \<or> authenticated env certs (preamble ds x)"
    and "target_of config is_c2s = Some tgt" and "backend env tgt = Ok (map RByte (show_stream ys @ ytail), bs)"
    and "faults bs = []" and "use_proxy config \<longrightarrow> 104 \<le> n"
    and "fits n xs" and "fits n ys" and "CHR ''<'' \<notin> set xtail" and "CHR ''<'' \<notin> set ytail"
  shows "\<exists>s0 ctx' bs'. shuffle_rd_wr_filter env config certs local_addr ctx
          (header_input ds ws x (show_stream xs @ xtail)) (AsyncWrite sk) f = (Ok (is_c2s, s0), ctx', Some bs')
    \<and> delivers tracing is_c2s s0 (3 * length (show_stream xs @ xtail) + 3 * length (show_stream ys @ ytail) + 3)
        (sent bs @ announcement config (client_addr ctx) local_addr @ [Wrote (preamble ds x), Flushed]) (delivered xs)
        (sent sk) (delivered ys)"
proof -
  from session_opens [OF assms(1,5-15), of ctx local_addr "show_stream xs @ xtail" "AsyncWrite sk"]
  obtain ctx2 f' bs' where f': "idle n 0 f'"
    and bs': "bs' = log_event (announcement config (client_addr ctx) local_addr @ [Wrote (preamble ds x), Flushed]) bs"
    and o: "shuffle_rd_wr_filter env config certs local_addr ctx
          (header_input ds ws x (show_stream xs @ xtail)) (AsyncWrite sk) f
        = (Ok (is_c2s, shuffle_start (AsyncRead (map RByte (show_stream xs @ xtail))) (AsyncWrite sk)
            (AsyncRead (map RByte (show_stream ys @ ytail))) (AsyncWrite bs') n f'), ctx2, Some bs')"
    unfolding assms(2) by blast
  have "faults bs' = []" using bs' assms(14) by simp
  from shuffle_delivers [OF f' assms(3,16-19,4) this refl refl, of tracing is_c2s] bs' o
  show ?thesis by simp
qed

lemma direct_tls_delivers:
  assumes "peek_bytes 3 pks = Some (Ok p)" and "is_client_hello p" and "length p = 3"
    and "max_stanza_size_bytes config = n" and "3 \<le> n" and "accept rd wr = Ok t"
    and "first_bytes_match_buf_timeout 3 (\<lambda>p. p = ''GET'') (tls_peeks t) = Some (Ok False)"
    and "AsyncRead (tls_reader t) = header_input ds ws x (show_stream xs @ xtail)" and "faults (tls_sink t) = []"
    and "ok_item x" and "is_header x" and "length (show_item x) \<le> n" and "CHR ''<'' \<notin> set ws" and "decls_ok n ds"
    and "declares_client (show_item x) = is_c2s" and "is_c2s \<or> authenticated env (tls_certs t) (preamble ds x)"
    and "target_of config is_c2s = Some tgt" and "backend env tgt = Ok (map RByte (show_stream ys @ ytail), bs)"
    and "faults bs = []" and "use_proxy config \<longrightarrow> 104 \<le> n"
    and "fits n xs" and "fits n ys" and "CHR ''<'' \<notin> set xtail" and "CHR ''<'' \<notin> set ytail"
  shows "\<exists>s0 ctx' bs'. handle_tls_connection env peek_bytes accept config local_addr ctx pks rd wr
        = Some (Ok (is_c2s, s0), ctx', Some bs')
    \<and> delivers tracing is_c2s s0 (3 * length (show_stream xs @ xtail) + 3 * length (show_stream ys @ ytail) + 3)
        (sent bs @ announcement config (client_addr ctx) local_addr @ [Wrote (preamble ds x), Flushed]) (delivered xs)
        (sent (tls_sink t)) (delivered ys)"
proof -
  from direct_tls_session [where peek_bytes = peek_bytes and accept = accept, OF assms(1-3) _ assms(6,7), of config ctx env local_addr] assms(4,5)
  obtain f ctx1 where f: "idle n 0 f" and c1: "client_addr ctx1 = client_addr ctx"
    and h: "handle_tls_connection env peek_bytes accept config local_addr ctx pks rd wr
      = Some (shuffle_rd_wr_filter env config (tls_certs t) local_addr ctx1
          (header_input ds ws x (show_stream xs @ xtail)) (AsyncWrite (tls_sink t)) f)" unfolding assms(8) by auto
  from assms(5) have "0 < n" by simp
  from session_delivers [OF f assms(4) this assms(9-24), of local_addr ctx1 tracing] h c1
  show ?thesis by simp
qed

text \<open>The sessions of the two kinds of listeners.\<close>

lemma tls_listener_serves:
  assumes "listener_local_addr l addr = Ok local_addr" and "i < length cs" and "cs ! i = (c, client)"
  shows "fst (spawn_tls_listener env l addr config (map Ok cs @ later)) ! i
    = handle_tls_connection env (peek_bytes_of l) (conn_accept c) config local_addr
        (Context_new (logging env) (conn_random c) ''tcp-in'' (seen_addr l client)) (conn_peeks c) (conn_reader c) (conn_sink c)"
  using assms by (auto simp: spawn_tls_listener_def accept_loop_prefix nth_append split: prod.splits)

lemma outgoing_listener_serves:
  assumes "i < length cs" and "cs ! i = (c, client)"
  shows "fst (spawn_outgoing_listener net l m (map Ok cs @ later)) ! i
    = handle_outgoing_connection net (peek_bytes_of l) m
        (Context_new (net_logging net) (conn_random c) ''unk-out'' (seen_addr l client)) (conn_peeks c)
        (conn_reader c, conn_sink c) (conn_websocket c)"
  using assms by (auto simp: spawn_outgoing_listener_def accept_loop_prefix nth_append split: prod.splits)

section \<open>Properties\<close>

text \<open>C3: a client or a verified server that connects to a listener, starts TLS and sends a header
  and stanzas of at most the configured size gets what a proxy promises, whoever else connects:
  its header reaches the backend of its kind of stream, behind the address of the client when the
  configuration says so; whatever the order in which the bytes of the two sides arrive, the loop
  makes at most three steps per byte and three more; and when no step is left it has returned
  without an error, has written to each side, unaltered and in order, stanzas the other has
  sent, and all of those of a side that has ended.\<close>

theorem connection_is_relayed:
  assumes "listener_local_addr l addr = Ok local_addr" and "i < length cs" and "cs ! i = (c, client)"
    and "peek_bytes_of l 3 (conn_peeks c) = Some (Ok p)" and "is_client_hello p"
    and "max_stanza_size_bytes config = n" and "3 \<le> n" and "conn_accept c (conn_reader c) (conn_sink c) = Ok t"
    and "first_bytes_match_buf_timeout 3 (\<lambda>p. p = ''GET'') (tls_peeks t) = Some (Ok False)"
    and "AsyncRead (tls_reader t) = header_input ds ws x (show_stream xs @ xtail)" and "faults (tls_sink t) = []"
    and "ok_item x" and "is_header x" and "length (show_item x) \<le> n" and "CHR ''<'' \<notin> set ws" and "decls_ok n ds"
    and "declares_client (show_item x) = is_c2s" and "is_c2s \<or> authenticated env (tls_certs t) (preamble ds x)"
    and "target_of config is_c2s = Some tgt" and "backend env tgt = Ok (map RByte (show_stream ys @ ytail), bs)"
    and "faults bs = []" and "use_proxy config \<longrightarrow> 104 \<le> n"
    and "fits n xs" and "fits n ys" and "CHR ''<'' \<notin> set xtail" and "CHR ''<'' \<notin> set ytail"
  shows "\<exists>s0 ctx bs'. fst (spawn_tls_listener env l addr config (map Ok cs @ later)) ! i = Some (Ok (is_c2s, s0), ctx, Some bs')
    \<and> delivers tracing is_c2s s0 (3 * length (show_stream xs @ xtail) + 3 * length (show_stream ys @ ytail) + 3)
        (sent bs @ announcement config (seen_addr l client) local_addr @ [Wrote (preamble ds x), Flushed]) (delivered xs)
        (sent (tls_sink t)) (delivered ys)"
proof -
  let ?ctx = "Context_new (logging env) (conn_random c) ''tcp-in'' (seen_addr l client)"
  have "client_addr ?ctx = seen_addr l client" by (simp add: Context_new_def)
  moreover have "fst (spawn_tls_listener env l addr config (map Ok cs @ later)) ! i
      = handle_tls_connection env (peek_bytes_of l) (conn_accept c) config local_addr ?ctx (conn_peeks c) (conn_reader c) (conn_sink c)"
    using assms(1-3) by (rule tls_listener_serves)
  ultimately show ?thesis
    using direct_tls_delivers [where peek_bytes = "peek_bytes_of l" and accept = "conn_accept c" and ctx = ?ctx and local_addr = local_addr and tracing = tracing,
        OF assms(4,5) peek_bytes_length [OF assms(4)] assms(6-26)] by simp
qed

definition example_tls :: tls_stream where
  "example_tls =
     \<lparr>tls_certs = example_certs, tls_peeks = [Filled 0 ''<str''],
      tls_reader = map RByte (show_item example_header @ ''<a/>''), tls_sink = no_sink, tls_websocket = (\<lambda>r c. Err IoError)\<rparr>"

definition example_connection :: connection where
  "example_connection =
     \<lparr>conn_peeks = [Peeked [CHR 0x16, CHR 0x03, CHR 0x01] False], conn_reader = [], conn_sink = no_sink,
      conn_accept = (\<lambda>rd wr. Ok example_tls), conn_websocket = (\<lambda>r c. Err IoError), conn_random = []\<rparr>"

lemma connection_is_relayed_witness:
  "let xs = [([], Stanza (EmptyElem (CHR ''a'', [])))]; client = SocketAddrV4 1 2
   in \<exists>s0 ctx bs'. fst (spawn_tls_listener example_env (ListenTcp (0 :: nat)) (Ok loopback) example_config
          (map Ok [(example_connection, client)] @ [Err IoError])) ! 0 = Some (Ok (True, s0), ctx, Some bs')
    \<and> delivers False True s0 (3 * length (show_stream xs @ []) + 3 * length (show_stream [] @ []) + 3)
        (sent no_sink @ announcement example_config (seen_addr (ListenTcp (0 :: nat)) client) loopback @ [Wrote (preamble [] example_header), Flushed])
        (delivered xs) (sent (tls_sink example_tls)) (delivered [])"
proof -
  have x: "ok_item example_header" "length (show_item example_header) \<le> 120" "decls_ok 120 []"
    and f: "fits 120 [([], Stanza (EmptyElem (CHR ''a'', [])))]" "fits 120 []"
    and d: "declares_client (show_item example_header) = True"
    unfolding decls_ok_def fits_def by code_simp+
  have r: "AsyncRead (tls_reader example_tls) = header_input [] [] example_header (show_stream [([], Stanza (EmptyElem (CHR ''a'', [])))] @ [])"
    unfolding header_input_def by code_simp
  have p: "peek_bytes_of (ListenTcp (0 :: nat)) 3 (conn_peeks example_connection) = Some (Ok [CHR 0x16, CHR 0x03, CHR 0x01])"
    "is_client_hello [CHR 0x16, CHR 0x03, CHR 0x01]"
    "first_bytes_match_buf_timeout 3 (\<lambda>p. p = ''GET'') (tls_peeks example_tls) = Some (Ok False)" by code_simp+
  have b: "backend example_env (SocketPath ''/c'') = Ok (map RByte (show_stream [] @ []), no_sink)" by code_simp
  show ?thesis unfolding Let_def
    by (rule connection_is_relayed [OF _ _ _ p(1,2) _ _ _ p(3) r _ x(1) _ x(2) _ x(3) d _ _ b _ _ f])
      (simp_all add: example_connection_def example_tls_def example_config_def target_of_def example_header_def)
qed

text \<open>One failure of \<open>accept\<close>, also one of a single connection, ends the listener: the task
  returns the error, and of what would have been accepted later nothing is served, by a listener
  for TLS as by one for clients.\<close>

theorem accept_error_ends_listener:
  shows "spawn_tls_listener env l (Ok local_addr) config (map Ok cs @ Err e # later)
      = (fst (spawn_tls_listener env l (Ok local_addr) config (map Ok cs)), Some (Err e))
    \<and> length (fst (spawn_tls_listener env l (Ok local_addr) config (map Ok cs))) = length cs
    \<and> spawn_outgoing_listener net l m (map Ok cs @ Err e # later)
      = (fst (spawn_outgoing_listener net l m (map Ok cs)), Some (Err e))
    \<and> length (fst (spawn_outgoing_listener net l m (map Ok cs))) = length cs"
proof -
  have "\<exists>a. listener_local_addr l (Ok local_addr) = Ok a" by (cases l) simp_all
  then show ?thesis
    by (auto simp: spawn_tls_listener_def spawn_outgoing_listener_def accept_loop_prefix accept_loop_all)
qed

end
