(* ===== verification/Conn_Types.thy ===== *)
theory Conn_Types
  imports Outgoing
begin

text \<open>
  The typing of the connections that \<open>src/srv.rs\<close> finds: which combinations of transport, security,
  addresses and names can occur in an \<open>XmppConnection\<close>, for each place that makes one.  Every step
  of the discovery keeps it.
\<close>

section \<open>Well-formed connections\<close>

text \<open>
  A WebSocket has the origin made of the host and port of its URI; one without addresses has that
  host as its target.
\<close>

definition ws_origin :: "('u, 'l, 'b, 'n) world \<Rightarrow> 'u \<Rightarrow> bytes \<Rightarrow> 16 word \<Rightarrow> bytes \<Rightarrow> bool" where
  "ws_origin w u host p origin \<longleftrightarrow> uri_host w u = Some host \<and>
     (case uri_port w u of
        Some (s, n) \<Rightarrow> origin = ''https://'' @ host @ '':'' @ s \<and> p = n
      | None \<Rightarrow> origin = ''https://'' @ host \<and> p = 443)"

fun type_ok :: "('u, 'l, 'b, 'n) world \<Rightarrow> ('u, 'l) XmppConnection \<Rightarrow> ('u, 'l) XmppConnectionType \<Rightarrow> bool" where
  "type_ok w c StartTLS \<longleftrightarrow> \<not> secure c"
| "type_ok w c DirectTLS \<longleftrightarrow> (secure c \<longleftrightarrow> ips c \<noteq> [])"
| "type_ok w c QUIC \<longleftrightarrow> (secure c \<longleftrightarrow> ips c \<noteq> [])"
| "type_ok w c (WebSocket u origin) \<longleftrightarrow>
     (\<exists>host. ws_origin w u host (port c) origin \<and> (ips c = [] \<longrightarrow> target c = host \<and> priority c = 65535))"
| "type_ok w c (WebTransport l) \<longleftrightarrow> secure c \<and> ips c \<noteq> []"

definition conn_ok :: "('u, 'l, 'b, 'n) world \<Rightarrow> ('u, 'l) XmppConnection \<Rightarrow> bool" where
  "conn_ok w c \<longleftrightarrow> type_ok w c (conn_type c) \<and> (\<not> secure c \<longrightarrow> ips c = [] \<and> ech c = None)"

named_theorems conn_intros

lemma default_ok [conn_intros]: "c \<in> set (default_conns domain is_c2s) \<Longrightarrow> conn_ok w c"
  by (auto simp: default_conns_def default_conn_def conn_ok_def)

lemma srv_ok [conn_intros]: "ty \<in> {StartTLS, DirectTLS, QUIC} \<Longrightarrow> conn_ok w (srv_to_connection ty srv)"
  by (auto simp: srv_to_connection_def conn_ok_def)

lemma wss_type:
  assumes "wss_to_srv w url sec = Some c"
  shows "\<exists>u origin host. conn_type c = WebSocket u origin \<and> ws_origin w u host (port c) origin
    \<and> target c = host \<and> priority c = 65535 \<and> secure c = sec \<and> ips c = [] \<and> ech c = None"
proof -
  from assms obtain u name where u: "uri_try_from w url = Ok u" "uri_host w u = Some name"
    by (auto simp: wss_to_srv_def split: outcome.splits option.splits)
  show ?thesis
  proof (cases "uri_port w u")
    case None
    with assms u show ?thesis by (auto simp: wss_to_srv_def ws_origin_def Let_def)
  next
    case (Some q)
    with assms u show ?thesis by (cases q) (auto simp: wss_to_srv_def ws_origin_def Let_def)
  qed
qed

lemma wss_ok [conn_intros]: "wss_to_srv w url sec = Some c \<Longrightarrow> conn_ok w c"
  by (auto simp: conn_ok_def dest: wss_type)

text \<open>A link overwrites all but the type and the port of the connection it is made of.\<close>

lemma link_common_ok:
  assumes "LinkCommon_into_xmpp_connection l ty p = Some c"
    and "ty \<in> {DirectTLS, QUIC} \<or> (\<exists>url. ty = WebTransport url)
      \<or> (\<exists>u origin host. ty = WebSocket u origin \<and> ws_origin w u host p origin)"
  shows "conn_ok w c"
  using assms by (auto simp: LinkCommon_Some conn_ok_def)

lemma wss_link_ok:
  "wss_to_srv w url sec = Some srv \<Longrightarrow> LinkCommon_into_xmpp_connection l (conn_type srv) (port srv) = Some c \<Longrightarrow> conn_ok w c"
  by (rule link_common_ok) (auto dest!: wss_type)

lemma link_ok [conn_intros]: "Link_into_xmpp_connection w l is_c2s = Some c \<Longrightarrow> conn_ok w c"
  by (cases l)
    (auto simp: Link_into_xmpp_connection_def Let_def bind_eq_Some_conv wt_to_srv_def
      intro: link_common_ok wss_ok wss_link_ok split: if_splits option.splits outcome.splits)

section \<open>Every step keeps it\<close>

lemma push_srvs_ok:
  "list_all (conn_ok w) ret \<Longrightarrow> ty \<in> {StartTLS, DirectTLS, QUIC} \<Longrightarrow> list_all (conn_ok w) (push_srvs ty rs ret)"
  using srv_ok by (fastforce simp: list_all_iff dest!: push_srvs_set)

lemma collect_srvs_ok:
  "list_all (conn_ok w) ret \<Longrightarrow> ty \<in> {StartTLS, DirectTLS, QUIC} \<Longrightarrow> list_all (conn_ok w) (collect_srvs ret recs ty)"
  by (simp add: collect_srvs_def push_srvs_ok split: outcome.split)

lemma push_txt_ok: "list_all (conn_ok w) ret \<Longrightarrow> list_all (conn_ok w) (push_txt w is_c2s txt ret)"
  by (auto simp: push_txt_def intro: conn_intros split: outcome.splits option.splits)

lemma fold_txt_ok: "list_all (conn_ok w) ret \<Longrightarrow> list_all (conn_ok w) (fold (push_txt w is_c2s) ts ret)"
  by (induction ts arbitrary: ret) (simp_all add: push_txt_ok)

lemma collect_txts_ok: "list_all (conn_ok w) ret \<Longrightarrow> list_all (conn_ok w) (collect_txts w ret recs is_c2s)"
proof -
  have "list_all (conn_ok w) ret \<Longrightarrow> list_all (conn_ok w) (push_txts w is_c2s rs ret)" for rs
    by (induction w is_c2s rs ret rule: push_txts.induct) (simp_all add: fold_txt_ok)
  then show "list_all (conn_ok w) ret \<Longrightarrow> ?thesis" by (simp add: collect_txts_def split: outcome.split)
qed

lemma from_dns_ok: "list_all (conn_ok w) ret \<Longrightarrow> list_all (conn_ok w) (from_dns w is_c2s ds ret)"
  by (cases ds) (simp add: from_dns_def collect_srvs_ok collect_txts_ok)

lemma push_links_ok: "list_all (conn_ok w) ret \<Longrightarrow> list_all (conn_ok w) (push_links w is_c2s ls ret)"
  by (auto simp: list_all_iff push_links_set intro: conn_intros)

lemma push_hosts_ok: "list_all (conn_ok w) ret \<Longrightarrow> list_all (conn_ok w) (push_hosts w hosts ret)"
  by (auto simp: list_all_iff push_hosts_set intro: conn_intros)

lemma collect_json_ok:
  "collect_host_meta_json w domain is_c2s (ret0, pins0) = (t, ret, pins) \<Longrightarrow> list_all (conn_ok w) ret0 \<Longrightarrow> list_all (conn_ok w) ret"
  by (auto simp: collect_host_meta_json_def HostMeta_collect_def Let_def push_links_ok
      split: outcome.splits if_splits option.splits)

lemma collect_xml_ok:
  "collect_host_meta_xml w domain is_c2s ret0 = (u, ret) \<Longrightarrow> list_all (conn_ok w) ret0 \<Longrightarrow> list_all (conn_ok w) ret"
  by (auto simp: collect_host_meta_xml_def push_hosts_ok split: outcome.splits if_splits)

lemma collect_host_meta_ok:
  assumes "collect_host_meta w domain is_c2s (ret0, pins0) = (r, ret, pins)" and "list_all (conn_ok w) ret0"
  shows "list_all (conn_ok w) ret"
proof -
  obtain json jret jpins where j: "collect_host_meta_json w domain is_c2s (ret0, pins0) = (json, jret, jpins)"
    by (cases "collect_host_meta_json w domain is_c2s (ret0, pins0)") auto
  obtain xr xml where x: "collect_host_meta_xml w domain is_c2s [] = (xr, xml)"
    by (cases "collect_host_meta_xml w domain is_c2s []") auto
  from collect_json_ok [OF j assms(2)] collect_xml_ok [OF x] assms(1) j x show ?thesis
    by (auto simp: collect_host_meta_def split: outcome.splits option.splits)
qed

section \<open>Properties\<close>

text \<open>C19: whatever the DNS and the documents of a domain hold, the connections that are tried are
  well formed.  STARTTLS is never made on a secure record, so its handshake is always for the domain
  itself; WebTransport is always secure; only secure connections have addresses of their own or
  parameters of ECH, and a secure one over TLS or QUIC has addresses, so that for them no name is
  looked up; and a WebSocket has the origin of its own URI.\<close>

theorem connections_well_formed:
  assumes "get_xmpp_connections (net_world net) domain is_c2s = Ok (conns, v)"
  shows "list_all (conn_ok (net_world net)) conns
    \<and> (\<forall>c\<in>set conns. (if secure c then target c else domain) = domain \<or> conn_type c \<noteq> StartTLS)
    \<and> (\<forall>c\<in>set conns. (\<nexists>u origin. conn_type c = WebSocket u origin) \<and> secure c \<longrightarrow> ips_of net c = Ok (ips c))"
proof -
  from get_xmpp_connections_Ok [OF assms] obtain dn r ret pins ds psh where
    h: "collect_host_meta (net_world net) domain is_c2s ([], []) = (r, ret, pins)"
    and cv: "(conns, v) = conns_and_verifier (net_world net) domain is_c2s dn pins psh (chosen (net_world net) is_c2s r ds ret)"
    by blast
  have "list_all (conn_ok (net_world net)) (chosen (net_world net) is_c2s r ds ret)"
    using collect_host_meta_ok [OF h] by (simp add: chosen_def from_dns_ok split: outcome.split option.split)
  with conns_and_verifier_sound [OF cv] have ok: "list_all (conn_ok (net_world net)) conns"
    by (auto simp: list_all_iff intro: conn_intros)
  moreover have "(if secure c then target c else domain) = domain \<or> conn_type c \<noteq> StartTLS" if "c \<in> set conns" for c
    using ok that by (cases "conn_type c") (auto simp: list_all_iff conn_ok_def)
  moreover have "ips_of net c = Ok (ips c)"
    if "c \<in> set conns" "\<nexists>u origin. conn_type c = WebSocket u origin" "secure c" for c
    using ok that by (cases "conn_type c") (auto simp: list_all_iff conn_ok_def ips_of_def)
  ultimately show ?thesis by blast
qed

lemma connections_well_formed_witness:
  "\<exists>conns v. get_xmpp_connections example_world ''a'' True = Ok (conns, v) \<and> conns \<noteq> []
    \<and> list_all (conn_ok example_world) conns"
proof -
  have "is_ok (get_xmpp_connections example_world ''a'' True)" by code_simp
  then obtain cv where "get_xmpp_connections example_world ''a'' True = Ok cv" by (auto simp: is_ok_iff)
  then obtain conns v where g: "get_xmpp_connections example_world ''a'' True = Ok (conns, v)" by (cases cv) auto
  have w: "net_world ((example_net [] [])\<lparr>net_world := example_world\<rparr>) = example_world" by simp
  from get_xmpp_connections_Ok [OF g] obtain is_c2s dn pins psh found
    where "(conns, v) = conns_and_verifier example_world ''a'' is_c2s dn pins psh found" by blast
  from conns_and_verifier_sound [OF this] have "conns \<noteq> []" by blast
  with connections_well_formed [of "(example_net [] [])\<lparr>net_world := example_world\<rparr>" "''a''" True, unfolded w, OF g] g
  show ?thesis by blast
qed

end
