(* ===== verification/Relay_Spec.thy ===== *)
theory Relay_Spec
  imports Shuffle
begin

text \<open>
  What \<open>shuffle_rd_wr_filter_only\<close> promises, without bytes, filters and disabled branches: a relay
  of two queues of stanzas, which takes the next stanza of either queue to the other side, in any
  order, and may close when one of the queues is empty.  The loop between two byte streams refines
  it, and every run of the relay is one of the loop.
\<close>

section \<open>The relay\<close>

record relay =
  upstream :: "(bytes \<times> nat) list"
  downstream :: "(bytes \<times> nat) list"
  backend_log :: "wr_event list"
  client_log :: "wr_event list"
  closed :: bool

inductive relay_step :: "relay \<Rightarrow> relay \<Rightarrow> bool" where
  Up: "\<not> closed r \<Longrightarrow> upstream r = x # xs
     \<Longrightarrow> relay_step r (r\<lparr>upstream := xs, backend_log := backend_log r @ relayed [x]\<rparr>)"
| Down: "\<not> closed r \<Longrightarrow> downstream r = y # ys
     \<Longrightarrow> relay_step r (r\<lparr>downstream := ys, client_log := client_log r @ relayed [y]\<rparr>)"
| Close: "\<not> closed r \<Longrightarrow> upstream r = [] \<or> downstream r = [] \<Longrightarrow> relay_step r (r\<lparr>closed := True\<rparr>)"

inductive_cases relay_stepE: "relay_step r r'"

text \<open>Nothing is lost, made up, reordered or sent to the wrong side.\<close>

definition conserved :: "relay \<Rightarrow> wr_event list \<times> wr_event list" where
  "conserved r = (backend_log r @ relayed (upstream r), client_log r @ relayed (downstream r))"

lemma relay_conserves: "relay_step r r' \<Longrightarrow> conserved r' = conserved r"
  by (auto simp: conserved_def relayed_def elim!: relay_stepE)

lemma relay_run_conserves: "relay_step\<^sup>*\<^sup>* r r' \<Longrightarrow> conserved r' = conserved r"
  by (induction rule: rtranclp_induct) (simp_all add: relay_conserves)

definition relay_abs :: "shuffle \<Rightarrow> relay" where
  "relay_abs s =
     \<lparr>upstream = to_come (in_filter s) (in_rd s), downstream = to_come (out_filter s) (out_rd s),
      backend_log = sent (sink_of (out_wr s)), client_log = sent (sink_of (in_wr s)),
      closed = (finished s \<noteq> None)\<rparr>"

section \<open>Refinement up to stuttering\<close>

locale stutter_refinement =
  fixes step :: "'s \<Rightarrow> 's \<Rightarrow> bool"
    and astep :: "'a \<Rightarrow> 'a \<Rightarrow> bool"
    and inv :: "'s \<Rightarrow> bool"
    and abs :: "'s \<Rightarrow> 'a"
  assumes inv_step: "inv s \<Longrightarrow> step s s' \<Longrightarrow> inv s'"
    and simulated: "inv s \<Longrightarrow> step s s' \<Longrightarrow> abs s' = abs s \<or> astep (abs s) (abs s')"
begin

lemma run_simulated: "step\<^sup>*\<^sup>* s s' \<Longrightarrow> inv s \<Longrightarrow> inv s' \<and> astep\<^sup>*\<^sup>* (abs s) (abs s')"
proof (induction rule: rtranclp_induct)
  case (step t u)
  then have t: "inv t" "astep\<^sup>*\<^sup>* (abs s) (abs t)" by simp_all
  from simulated [OF t(1) step.hyps(2)] inv_step [OF t(1) step.hyps(2)] t(2) show ?case
    by (auto intro: rtranclp.rtrancl_into_rtrancl)
qed simp

end

text \<open>Every abstract step is made by a run.\<close>

locale stutter_equivalence = stutter_refinement +
  assumes realised: "inv s \<Longrightarrow> astep (abs s) a \<Longrightarrow> \<exists>s'. step\<^sup>*\<^sup>* s s' \<and> abs s' = a"
begin

lemma run_realised: "astep\<^sup>*\<^sup>* x a \<Longrightarrow> x = abs s \<Longrightarrow> inv s \<Longrightarrow> \<exists>s'. step\<^sup>*\<^sup>* s s' \<and> abs s' = a"
proof (induction rule: rtranclp_induct)
  case (step b c)
  then obtain t where t: "step\<^sup>*\<^sup>* s t" "abs t = b" by blast
  with run_simulated [OF t(1)] step.prems have "inv t" by blast
  from realised [OF this] step.hyps(2) t(2) obtain u where "step\<^sup>*\<^sup>* t u" "abs u = c" by blast
  with rtranclp_trans [OF t(1)] show ?case by blast
qed blast

lemma same_runs: "inv s \<Longrightarrow> (\<exists>s'. step\<^sup>*\<^sup>* s s' \<and> abs s' = a) \<longleftrightarrow> astep\<^sup>*\<^sup>* (abs s) a"
  using run_simulated run_realised by blast

end

section \<open>The loop refines the relay\<close>

lemma in_branch_relays:
  assumes "clean_run s" and "finished s = None"
  shows "relay_abs (in_branch tr c s) = relay_abs s \<or> relay_step (relay_abs s) (relay_abs (in_branch tr c s))"
proof -
  from assms obtain rd wo where rd: "in_rd s = AsyncRead rd" "clean (in_filter s) rd"
    and w: "out_wr s = AsyncWrite wo" "faults wo = []"
    by (cases "in_rd s") (auto simp: clean_run_def)
  obtain p rd' f' w' where p: "poll_next (AsyncRead rd) (in_filter s) (in_wr s) = (p, rd', f', w')"
    by (cases "poll_next (AsyncRead rd) (in_filter s) (in_wr s)") auto
  note c = poll_cut [OF p] and ok = poll_clean [OF p rd(2)]
  show ?thesis
  proof (cases p)
    case NotReady
    with p c rd show ?thesis by (simp add: in_branch_def relay_abs_def)
  next
    case (Ready r)
    with ok obtain o1 where r: "r = Ok o1" by (auto simp: is_ok_iff)
    show ?thesis
    proof (cases o1)
      case None
      with c Ready r have e: "rd = []" "to_come f' rd' = []" "w' = in_wr s" by auto
      then have "relay_step (relay_abs s) (relay_abs s\<lparr>closed := True\<rparr>)"
        using rd assms(2) by (intro Close) (auto simp: relay_abs_def)
      moreover have "in_branch tr c s = s\<lparr>in_rd := rd', in_filter := f', in_wr := w', finished := Some (Ok ())\<rparr>"
        using p None Ready r rd(1) by (simp add: in_branch_def)
      then have "relay_abs (in_branch tr c s) = relay_abs s\<lparr>closed := True\<rparr>"
        using e rd(1) by (simp add: relay_abs_def)
      ultimately show ?thesis by simp
    next
      case (Some x)
      obtain bs e where x: "x = (bs, e)" by (cases x)
      have "relay_step (relay_abs s) (relay_abs s\<lparr>upstream := to_come f' rd', backend_log := backend_log (relay_abs s) @ relayed [x]\<rparr>)"
        using c Some Ready r rd assms(2) by (intro Up) (auto simp: relay_abs_def)
      moreover have "relay_abs (in_branch tr c s)
          = relay_abs s\<lparr>upstream := to_come f' rd', backend_log := backend_log (relay_abs s) @ relayed [x]\<rparr>"
        using p c Some Ready r rd w x assms(2)
        by (simp add: in_branch_def relay_abs_def write_and_flush_ok relayed_def)
      ultimately show ?thesis by simp
    qed
  qed
qed

text \<open>The other direction, with the sides exchanged.\<close>

definition swap_relay :: "relay \<Rightarrow> relay" where
  "swap_relay r =
     \<lparr>upstream = downstream r, downstream = upstream r, backend_log = client_log r, client_log = backend_log r,
      closed = closed r\<rparr>"

lemma relay_abs_swap: "relay_abs (swap_sides s) = swap_relay (relay_abs s)"
  by (simp add: relay_abs_def swap_sides_def swap_relay_def)

lemma swap_relay_swap [simp]: "swap_relay (swap_relay r) = r"
  by (simp add: swap_relay_def)

lemma relay_step_swap: "relay_step r r' \<Longrightarrow> relay_step (swap_relay r) (swap_relay r')"
proof (erule relay_stepE)
  fix x xs assume h: "r' = r\<lparr>upstream := xs, backend_log := backend_log r @ relayed [x]\<rparr>" "\<not> closed r" "upstream r = x # xs"
  from Down [of "swap_relay r" x xs] h show ?thesis by (simp add: swap_relay_def)
next
  fix y ys assume h: "r' = r\<lparr>downstream := ys, client_log := client_log r @ relayed [y]\<rparr>" "\<not> closed r" "downstream r = y # ys"
  from Up [of "swap_relay r" y ys] h show ?thesis by (simp add: swap_relay_def)
next
  assume h: "r' = r\<lparr>closed := True\<rparr>" "\<not> closed r" "upstream r = [] \<or> downstream r = []"
  from Close [of "swap_relay r"] h show ?thesis by (auto simp: swap_relay_def)
qed

lemma out_branch_relays:
  assumes "clean_run s" and "finished s = None"
  shows "relay_abs (out_branch tr c s) = relay_abs s \<or> relay_step (relay_abs s) (relay_abs (out_branch tr c s))"
proof -
  have a: "relay_abs (out_branch tr c s) = swap_relay (relay_abs (in_branch tr c (swap_sides s)))"
    by (simp add: out_branch_swap relay_abs_swap)
  from in_branch_relays [of "swap_sides s" tr c] assms
  have "relay_abs (in_branch tr c (swap_sides s)) = swap_relay (relay_abs s)
      \<or> relay_step (swap_relay (relay_abs s)) (relay_abs (in_branch tr c (swap_sides s)))"
    by (simp add: clean_run_swap relay_abs_swap)
  with relay_step_swap show ?thesis unfolding a by (metis swap_relay_swap)
qed

text \<open>A side that is read alone gives its next stanza, or ends.\<close>

definition next_up :: "relay \<Rightarrow> relay" where
  "next_up r =
     (case upstream r of
        [] \<Rightarrow> r\<lparr>closed := True\<rparr>
      | x # xs \<Rightarrow> r\<lparr>upstream := xs, backend_log := backend_log r @ relayed [x]\<rparr>)"

definition next_down :: "relay \<Rightarrow> relay" where
  "next_down r = swap_relay (next_up (swap_relay r))"

lemma relay_step_next: "relay_step r r' \<Longrightarrow> r' = next_up r \<or> r' = next_down r"
  by (erule relay_stepE) (auto simp: next_up_def next_down_def swap_relay_def)

lemma in_side_gives:
  assumes "clean_run s" and "finished s = None" and "in_rd s = AsyncRead rd"
  shows "\<exists>s'. shuffle_run tr c s s' \<and> relay_abs s' = next_up (relay_abs s)"
  using assms
proof (induction rd arbitrary: s rule: length_induct)
  case (1 rd)
  let ?s = "in_branch tr c s"
  from 1(2,3) have step: "shuffle_step tr c s ?s" by (intro In) (auto simp: clean_run_def)
  have clean: "clean_run ?s" by (rule clean_run_in [OF 1(2)])
  from 1 obtain wo where cl: "clean (in_filter s) rd" and w: "out_wr s = AsyncWrite wo" "faults wo = []"
    by (auto simp: clean_run_def)
  obtain p rd' f' w' where p: "poll_next (AsyncRead rd) (in_filter s) (in_wr s) = (p, rd', f', w')"
    by (cases "poll_next (AsyncRead rd) (in_filter s) (in_wr s)") auto
  note c = poll_cut [OF p] and ok = poll_clean [OF p cl]
  show ?case
  proof (cases p)
    case NotReady
    from c obtain es where es: "rd' = AsyncRead es" by (auto simp: byte_stream_def)
    have s: "?s = s\<lparr>in_rd := AsyncRead es, in_filter := f', in_wr := w'\<rparr>" and a: "relay_abs ?s = relay_abs s"
      using p c NotReady es 1(4) by (simp_all add: in_branch_def relay_abs_def)
    have len: "length es < length rd" using source.poll_consumes [OF p] NotReady es by simp
    have "finished ?s = None" "in_rd ?s = AsyncRead es" using 1(3) by (simp_all add: s)
    with 1(1) [rule_format, OF len clean] obtain t where "shuffle_run tr c ?s t" "relay_abs t = next_up (relay_abs ?s)" by blast
    with converse_rtranclp_into_rtranclp [of "shuffle_step tr c", OF step] a show ?thesis by auto
  next
    case (Ready r)
    with ok obtain o1 where r: "r = Ok o1" by (auto simp: is_ok_iff)
    have "relay_abs ?s = next_up (relay_abs s)"
    proof (cases o1)
      case None
      with c Ready r have e: "rd = []" "to_come f' rd' = []" "w' = in_wr s" by auto
      have "?s = s\<lparr>in_rd := rd', in_filter := f', in_wr := w', finished := Some (Ok ())\<rparr>"
        using p None Ready r 1(4) by (simp add: in_branch_def)
      with e 1(4) show ?thesis by (simp add: relay_abs_def next_up_def)
    next
      case (Some x)
      obtain bs e where "x = (bs, e)" by (cases x)
      with p c Some Ready r 1(3,4) w show ?thesis
        by (simp add: in_branch_def relay_abs_def write_and_flush_ok relayed_def next_up_def)
    qed
    with step show ?thesis by blast
  qed
qed

lemma swap_swap [simp]: "swap_sides (swap_sides s) = s"
  by (simp add: swap_sides_def)

lemma in_branch_swap: "in_branch tr c (swap_sides s) = swap_sides (out_branch tr c s)"
  by (simp add: out_branch_swap)

lemma shuffle_step_swap: "shuffle_step tr c s t \<Longrightarrow> shuffle_step tr c (swap_sides s) (swap_sides t)"
proof (erule shuffle_stepE)
  assume h: "t = in_branch tr c s" "finished s = None" "\<not> in_off s"
  from Out [of "swap_sides s" tr c] h show ?thesis by (simp add: out_branch_swap) (simp add: swap_sides_def)
next
  assume h: "t = out_branch tr c s" "finished s = None" "\<not> out_off s"
  from In [of "swap_sides s" tr c] h show ?thesis by (simp add: in_branch_swap) (simp add: swap_sides_def)
qed

lemma shuffle_run_swap: "shuffle_run tr c s t \<Longrightarrow> shuffle_run tr c (swap_sides s) (swap_sides t)"
  by (induction rule: rtranclp_induct) (auto intro: rtranclp.rtrancl_into_rtrancl shuffle_step_swap)

lemma out_side_gives:
  assumes "clean_run s" and "finished s = None"
  shows "\<exists>s'. shuffle_run tr c s s' \<and> relay_abs s' = next_down (relay_abs s)"
proof -
  from assms obtain rd where rd: "in_rd (swap_sides s) = AsyncRead rd"
    by (cases "out_rd s") (auto simp: clean_run_def swap_sides_def)
  have "clean_run (swap_sides s)" "finished (swap_sides s) = None" using assms by (simp_all add: clean_run_swap)
  from in_side_gives [OF this rd, of tr c] obtain t where
    t: "shuffle_run tr c (swap_sides s) t" "relay_abs t = next_up (swap_relay (relay_abs s))"
    unfolding relay_abs_swap by blast
  from shuffle_run_swap [OF t(1)] t(2) have "shuffle_run tr c s (swap_sides t)"
    and "relay_abs (swap_sides t) = next_down (relay_abs s)" by (simp_all add: relay_abs_swap next_down_def)
  then show ?thesis by blast
qed

lemma relay_step_realised:
  assumes "clean_run s" and "relay_step (relay_abs s) a"
  shows "\<exists>s'. shuffle_run tr c s s' \<and> relay_abs s' = a"
proof -
  from assms(2) have fin: "finished s = None" by (auto simp: relay_abs_def elim: relay_stepE)
  from assms(1) obtain rd where rd: "in_rd s = AsyncRead rd" by (cases "in_rd s") (auto simp: clean_run_def)
  from relay_step_next [OF assms(2)] in_side_gives [OF assms(1) fin rd, of tr c] out_side_gives [OF assms(1) fin, of tr c]
  show ?thesis by blast
qed

interpretation relaying: stutter_equivalence "shuffle_step tr c" relay_step clean_run relay_abs for tr c
proof
  show "clean_run s'" if "clean_run s" "shuffle_step tr c s s'" for s s'
    using that by (auto elim!: shuffle_stepE intro: clean_run_in clean_run_out)
  show "relay_abs s' = relay_abs s \<or> relay_step (relay_abs s) (relay_abs s')" if "clean_run s" "shuffle_step tr c s s'" for s s'
    using that by (auto elim!: shuffle_stepE dest: in_branch_relays out_branch_relays)
  show "\<exists>s'. shuffle_run tr c s s' \<and> relay_abs s' = a" if "clean_run s" "relay_step (relay_abs s) a" for s a
    by (rule relay_step_realised [OF that])
qed

section \<open>Properties\<close>

text \<open>C7: between two byte streams of well-formed items the loop is a relay of two queues: the states it
  can reach are, seen without bytes, exactly those of a relay that starts with the items of the two
  sides, takes the next one of either side to the other in any order, and closes when one side has
  no more.  In each of them what has been written and what is still to come make up what each side
  has sent.\<close>

theorem shuffle_refines_relay:
  assumes "idle n 0 ifilter" and "0 < m" and "fits n xs" and "fits m ys"
    and "CHR ''<'' \<notin> set xtail" and "CHR ''<'' \<notin> set ytail" and "faults iw = []" and "faults ow = []"
    and "s0 = shuffle_start (AsyncRead (map RByte (show_stream xs @ xtail))) (AsyncWrite iw)
      (AsyncRead (map RByte (show_stream ys @ ytail))) (AsyncWrite ow) m ifilter"
  shows "(\<forall>r. (\<exists>s. shuffle_run tracing is_c2s s0 s \<and> relay_abs s = r)
      \<longleftrightarrow> relay_step\<^sup>*\<^sup>* \<lparr>upstream = delivered xs, downstream = delivered ys, backend_log = sent ow,
            client_log = sent iw, closed = False\<rparr> r)
    \<and> (\<forall>s. shuffle_run tracing is_c2s s0 s \<longrightarrow>
          conserved (relay_abs s) = (sent ow @ relayed (delivered xs), sent iw @ relayed (delivered ys)))"
proof -
  let ?r0 = "\<lparr>upstream = delivered xs, downstream = delivered ys, backend_log = sent ow,
            client_log = sent iw, closed = False\<rparr>"
  note x = cut_stream [OF assms(1,3,5)] and y = cut_stream [OF idle_new [OF assms(2)] assms(4,6)]
  have clean: "clean_run s0" and a: "relay_abs s0 = ?r0"
    using x y assms(7-9) by (simp_all add: clean_run_def relay_abs_def shuffle_start_def)
  note same = relaying.same_runs [OF clean, of tracing is_c2s, unfolded a]
  have "conserved (relay_abs s) = conserved ?r0" if "shuffle_run tracing is_c2s s0 s" for s
    using same that relay_run_conserves by blast
  with same show ?thesis by (simp add: conserved_def)
qed

text \<open>One stanza goes up, and the relay closes.\<close>

lemma shuffle_refines_relay_witness:
  "let xs = [([], Stanza (EmptyElem (CHR ''a'', [])))];
       s0 = shuffle_start (AsyncRead (map RByte (show_stream xs @ []))) (AsyncWrite no_sink)
         (AsyncRead (map RByte (show_stream [] @ []))) (AsyncWrite no_sink) 20 (StanzaFilter_new 20)
   in \<exists>s. shuffle_run False True s0 s \<and> relay_abs s
        = \<lparr>upstream = [], downstream = [], backend_log = relayed (delivered xs), client_log = [], closed = True\<rparr>"
proof -
  let ?xs = "[([], Stanza (EmptyElem (CHR ''a'', [])))]"
  let ?s0 = "shuffle_start (AsyncRead (map RByte (show_stream ?xs @ []))) (AsyncWrite no_sink)
         (AsyncRead (map RByte (show_stream [] @ []))) (AsyncWrite no_sink) 20 (StanzaFilter_new 20)"
  let ?r = "\<lparr>upstream = delivered ?xs, downstream = delivered [], backend_log = [], client_log = [], closed = False\<rparr>"
  have f: "fits 20 ?xs" "fits 20 []" unfolding fits_def by code_simp+
  have i: "idle 20 0 (StanzaFilter_new 20)" by (rule idle_new) simp
  have "relay_step ?r (?r\<lparr>upstream := [], backend_log := relayed (delivered ?xs)\<rparr>)"
    using Up [of ?r] by (simp add: delivered_def)
  moreover have "relay_step (?r\<lparr>upstream := [], backend_log := relayed (delivered ?xs)\<rparr>)
      \<lparr>upstream = [], downstream = [], backend_log = relayed (delivered ?xs), client_log = [], closed = True\<rparr>"
    using Close [of "?r\<lparr>upstream := [], backend_log := relayed (delivered ?xs)\<rparr>"] by (simp add: delivered_def)
  ultimately have "relay_step\<^sup>*\<^sup>* ?r
      \<lparr>upstream = [], downstream = [], backend_log = relayed (delivered ?xs), client_log = [], closed = True\<rparr>" by auto
  with shuffle_refines_relay [OF i _ f _ _ _ _ refl, of "[]" "[]" no_sink no_sink False True] show ?thesis
    unfolding Let_def by simp
qed

end
