(* ===== verification/End_To_End.thy ===== *)
theory End_To_End
  imports Listeners Conn_Types Relay_Spec
begin

text \<open>
  Whole connections, composed of the theories of their parts: a connection that starts in the clear
  and asks for STARTTLS (\<open>src/tls/incoming.rs\<close>), and one of a local client to the server of a domain
  (\<open>src/outgoing.rs\<close>), each from \<open>accept\<close> to the last stanza.
\<close>

section \<open>STARTTLS\<close>

text \<open>
  What the client says in the clear: declarations and headers, a request, anything without a byte
  0x16, and the start of the handshake.
\<close>

definition clear_input :: "(bytes \<times> item) list \<Rightarrow> bytes \<Rightarrow> item \<Rightarrow> bytes \<Rightarrow> bytes \<Rightarrow> reader" where
  "clear_input pre ws0 req junk hello = map RByte (show_stream pre @ ws0 @ show_item req @ junk @ CHR 0x16 # hello)"

definition asks_for_tls :: "nat \<Rightarrow> (bytes \<times> item) list \<Rightarrow> bytes \<Rightarrow> item \<Rightarrow> bytes \<Rightarrow> bool" where
  "asks_for_tls n pre ws0 req junk \<longleftrightarrow> list_all (opening_item n) pre \<and> ok_item req \<and> length (show_item req) \<le> n
     \<and> prefix ''<starttls '' (show_item req) \<and> CHR ''<'' \<notin> set ws0 \<and> CHR 0x16 \<notin> set junk"

definition clear_log :: "(bytes \<times> item) list \<Rightarrow> wr_event list" where
  "clear_log pre = concat (map (answer \<circ> snd) pre) @ [Wrote proceed, Flushed]"

lemma starttls_session:
  assumes "peek_bytes 3 pks = Some (Ok p)" and "\<not> is_client_hello p" and "length p = 3"
    and "max_stanza_size_bytes config = n" and "3 \<le> n"
    and "asks_for_tls n pre ws0 req junk" and "faults wr = []"
    and "accept (map RByte (CHR 0x16 # hello)) (log_event (clear_log pre) wr) = Ok t"
    and "first_bytes_match_buf_timeout 3 (\<lambda>p. p = ''GET'') (tls_peeks t) = Some (Ok False)"
  shows "\<exists>e f ctx'. idle n e f \<and> client_addr ctx' = client_addr ctx
    \<and> handle_tls_connection env peek_bytes accept config local_addr ctx pks (clear_input pre ws0 req junk hello) wr
      = Some (shuffle_rd_wr_filter env config (tls_certs t) local_addr ctx' (AsyncRead (tls_reader t)) (AsyncWrite (tls_sink t)) f)"
proof -
  let ?f = "(StanzaFilter_new n)\<lparr>buf := p @ drop 3 (buf (StanzaFilter_new n))\<rparr>"
  have i: "idle n 0 ?f" by (rule sniffed_filter_idle [OF assms(3,5)])
  from assms(6) have a: "list_all (opening_item n) pre" "ok_item req" "length (show_item req) \<le> n"
    "prefix ''<starttls '' (show_item req)" "CHR ''<'' \<notin> set ws0" "CHR 0x16 \<notin> set junk"
    by (simp_all add: asks_for_tls_def)
  from starttls_in_run [OF i a(1) assms(7) a(2-6), of hello] obtain e f where f: "idle n e f"
    and r: "starttls_in (clear_input pre ws0 req junk hello) ?f wr
      = (Ok (map RByte (CHR 0x16 # hello)), f, log_event (clear_log pre) wr)"
    unfolding clear_input_def clear_log_def log_event_def by blast
  have "client_addr (set_proto lg q ctx) = client_addr ctx" for lg q by (simp add: set_proto_def re_calc_def)
  moreover have "\<exists>ctx'. client_addr ctx' = client_addr ctx \<and>
      handle_tls_connection env peek_bytes accept config local_addr ctx pks (clear_input pre ws0 req junk hello) wr
      = Some (shuffle_rd_wr_filter env config (tls_certs t) local_addr ctx' (AsyncRead (tls_reader t)) (AsyncWrite (tls_sink t)) f)"
    using calculation assms(1,2,4,5,8,9) r unfolding handle_tls_connection_def after_tls_def Let_def
    by (intro exI [of _ "set_proto (logging env) ''starttls-in'' ctx"]) simp
  ultimately show ?thesis using f by blast
qed

lemma starttls_delivers:
  assumes "peek_bytes 3 pks = Some (Ok p)" and "\<not> is_client_hello p" and "length p = 3"
    and "max_stanza_size_bytes config = n" and "3 \<le> n"
    and "asks_for_tls n pre ws0 req junk" and "faults wr = []"
    and "accept (map RByte (CHR 0x16 # hello)) (log_event (clear_log pre) wr) = Ok t"
    and "first_bytes_match_buf_timeout 3 (\<lambda>p. p = ''GET'') (tls_peeks t) = Some (Ok False)"
    and "AsyncRead (tls_reader t) = header_input ds ws x (show_stream xs @ xtail)" and "faults (tls_sink t) = []"
    and "ok_item x" and "is_header x" and "length (show_item x) \<le> n" and "CHR ''<'' \<notin> set ws" and "decls_ok n ds"
    and "declares_client (show_item x) = is_c2s" and "is_c2s \<or> authenticated env (tls_certs t) (preamble ds x)"
    and "target_of config is_c2s = Some tgt" and "backend env tgt = Ok (map RByte (show_stream ys @ ytail), bs)"
    and "faults bs = []" and "use_proxy config \<longrightarrow> 104 \<le> n"
    and "fits n xs" and "fits n ys" and "CHR ''<'' \<notin> set xtail" and "CHR ''<'' \<notin> set ytail"
  shows "\<exists>s0 ctx' bs'. handle_tls_connection env peek_bytes accept config local_addr ctx pks (clear_input pre ws0 req junk hello) wr
        = Some (Ok (is_c2s, s0), ctx', Some bs')
    \<and> delivers tracing is_c2s s0 (3 * length (show_stream xs @ xtail) + 3 * length (show_stream ys @ ytail) + 3)
        (sent bs @ announcement config (client_addr ctx) local_addr @ [Wrote (preamble ds x), Flushed]) (delivered xs)
        (sent (tls_sink t)) (delivered ys)"
proof -
  from starttls_session [where peek_bytes = peek_bytes and accept = accept, OF assms(1-9), of ctx env local_addr]
  obtain e f ctx1 where f: "idle n e f" and c1: "client_addr ctx1 = client_addr ctx"
    and h: "handle_tls_connection env peek_bytes accept config local_addr ctx pks (clear_input pre ws0 req junk hello) wr
      = Some (shuffle_rd_wr_filter env config (tls_certs t) local_addr ctx1
          (header_input ds ws x (show_stream xs @ xtail)) (AsyncWrite (tls_sink t)) f)" unfolding assms(10) by auto
  from assms(5) have "0 < n" by simp
  from session_delivers [OF f assms(4) this assms(11-26), of local_addr ctx1 tracing] h c1
  show ?thesis by simp
qed

section \<open>The outgoing side\<close>

lemma outgoing_delivers:
  assumes "peek_bytes 3 pks = Some (Ok p)" and "p \<noteq> ''GET''" and "length p = 3" and "3 \<le> n"
    and "AsyncRead rd = header_input ds ws x (show_stream xs @ xtail)" and "faults k = []"
    and "ok_item x" and "is_header x" and "length (show_item x) \<le> n" and "CHR ''<'' \<notin> set ws"
    and "decls_ok n ds" and "declares_client (show_item x) = is_c2s"
    and "header_attr ''to'' (preamble ds x) = Ok domain" and "utf8_valid domain"
    and "get_xmpp_connections (net_world net) domain is_c2s = Ok (bad @ c # cs, v)" and "list_all (unreachable net domain) bad"
    and "conn_type c = DirectTLS" and "ips_of net c = Ok (dead @ ip # later)" and "list_all (no_tcp net c) dead"
    and "server_name (net_world net) (conn_name c domain) = Ok nm" and "tcp_connect net (socket_addr ip (port c)) = Ok q"
    and "tls_handshake net (config_alpn (with_custom_certificate_verifier n is_c2s v)) nm (socket_addr ip (port c))
      = Ok (map RByte (show_stream (map (apsnd XmlDecl) es) @ us @ show_item y @ show_stream ys @ ytail), s)"
    and "ok_item y" and "is_header y" and "length (show_item y) \<le> n" and "CHR ''<'' \<notin> set us" and "decls_ok n es" and "faults s = []"
    and "fits n xs" and "fits n ys" and "CHR ''<'' \<notin> set xtail" and "CHR ''<'' \<notin> set ytail"
  shows "\<exists>s0 ctx'. handle_outgoing_connection net peek_bytes n ctx pks (rd, k) ws_acc = Some (Ok (is_c2s, s0), ctx')
    \<and> delivers tracing is_c2s s0 (3 * length (show_stream xs @ xtail) + 3 * length (show_stream ys @ ytail) + 3)
        (sent s @ [Wrote (preamble ds x), Flushed]) (delivered xs)
        (sent k @ [Wrote (preamble es y), Flushed]) (delivered ys)"
proof -
  let ?f = "(StanzaFilter_new n)\<lparr>buf := p @ drop 3 (buf (StanzaFilter_new n))\<rparr>"
  have i: "idle n 0 ?f" by (rule sniffed_filter_idle [OF assms(3,4)])
  from outgoing_opens [OF i assms(7-28) assms(6), of ctx "show_stream xs @ xtail"] obtain f' ctx' where f': "idle n 0 f'"
    and a: "answer_client net n ctx (header_input ds ws x (show_stream xs @ xtail)) (AsyncWrite k) ?f
      = (Ok (is_c2s, shuffle_start (AsyncRead (map RByte (show_stream xs @ xtail))) (AsyncWrite (log_event [Wrote (preamble es y), Flushed] k))
           (AsyncRead (map RByte (show_stream ys @ ytail))) (AsyncWrite (log_event [Wrote (preamble ds x), Flushed] s)) n f'), ctx')" by blast
  have fw: "faults (log_event [Wrote (preamble es y), Flushed] k) = []" "faults (log_event [Wrote (preamble ds x), Flushed] s) = []" "0 < n"
    using assms(4,6,28) by simp_all
  from shuffle_delivers [OF f' fw(3) assms(29-32) fw(1,2) refl refl, of tracing is_c2s] a assms(1,2,4) show ?thesis
    by (simp add: handle_outgoing_connection_def Let_def assms(5))
qed

section \<open>Properties\<close>

text \<open>C12: a connection that starts in the clear is served like one that starts with TLS: everything that
  is said before the handshake is answered in the clear, every header with a header and the
  features, the request with \<open>proceed\<close>, and none of it reaches a backend; the handshake is made on
  what follows, and then the connection is relayed as one that starts with TLS is, from the header of
  the encrypted stream on, although the filter has been used for the dialogue.\<close>

theorem starttls_connection_is_relayed:
  assumes "listener_local_addr l addr = Ok local_addr" and "i < length cs" and "cs ! i = (c, client)"
    and "peek_bytes_of l 3 (conn_peeks c) = Some (Ok p)" and "\<not> is_client_hello p"
    and "max_stanza_size_bytes config = n" and "3 \<le> n"
    and "asks_for_tls n pre ws0 req junk" and "conn_reader c = clear_input pre ws0 req junk hello" and "faults (conn_sink c) = []"
    and "conn_accept c (map RByte (CHR 0x16 # hello)) (log_event (clear_log pre) (conn_sink c)) = Ok t"
    and "first_bytes_match_buf_timeout 3 (\<lambda>p. p = ''GET'') (tls_peeks t) = Some (Ok False)"
    and "AsyncRead (tls_reader t) = header_input ds ws x (show_stream xs @ xtail)" and "faults (tls_sink t) = []"
    and "ok_item x" and "is_header x" and "length (show_item x) \<le> n" and "CHR ''<'' \<notin> set ws" and "decls_ok n ds"
    and "declares_client (show_item x) = is_c2s" and "is_c2s \<or> authenticated env (tls_certs t) (preamble ds x)"
    and "target_of config is_c2s = Some tgt" and "backend env tgt = Ok (map RByte (show_stream ys @ ytail), bs)"
    and "faults bs = []" and "use_proxy config \<longrightarrow> 104 \<le> n"
    and "fits n xs" and "fits n ys" and "CHR ''<'' \<notin> set xtail" and "CHR ''<'' \<notin> set ytail"
  shows "\<exists>s0 ctx bs'. fst (spawn_tls_listener env l addr config (map Ok cs @ later)) ! i = Some (Ok (is_c2s, s0), ctx, Some bs')
    \<and> delivers tracing is_c2s s0 (3 * length (show_stream xs @ xtail) + 3 * length (show_stream ys @ ytail) + 3)
        (sent bs @ announcement config (seen_addr l client) local_addr @ [Wrote (preamble ds x), Flushed]) (delivered xs)
        (sent (tls_sink t)) (delivered ys)"
proof -
  let ?ctx = "Context_new (logging env) (conn_random c) ''tcp-in'' (seen_addr l client)"
  have "client_addr ?ctx = seen_addr l client" by (simp add: Context_new_def)
  moreover have "fst (spawn_tls_listener env l addr config (map Ok cs @ later)) ! i
      = handle_tls_connection env (peek_bytes_of l) (conn_accept c) config local_addr ?ctx (conn_peeks c) (conn_reader c) (conn_sink c)"
    using assms(1-3) by (rule tls_listener_serves)
  ultimately show ?thesis
    using starttls_delivers [where peek_bytes = "peek_bytes_of l" and accept = "conn_accept c" and ctx = ?ctx and local_addr = local_addr and tracing = tracing,
        OF assms(4,5) peek_bytes_length [OF assms(4)] assms(6-8,10-29)] by (simp add: assms(9))
qed

definition example_request :: item where
  "example_request = Stanza (EmptyElem (CHR ''s'', map Plain ''tarttls x''))"

definition example_pre :: "(bytes \<times> item) list" where
  "example_pre = [([], Header (CHR ''s'', map Plain ''tream:stream to=b''))]"

definition starttls_connection :: connection where
  "starttls_connection =
     \<lparr>conn_peeks = [Peeked ''<st'' False], conn_reader = clear_input example_pre [] example_request '' '' ''hello'', conn_sink = no_sink,
      conn_accept = (\<lambda>rd wr. if rd = map RByte (CHR 0x16 # ''hello'') \<and> length (sent wr) = 5 then Ok example_tls else Err IoError),
      conn_websocket = (\<lambda>r c. Err IoError), conn_random = []\<rparr>"

lemma starttls_connection_is_relayed_witness:
  "let xs = [([], Stanza (EmptyElem (CHR ''a'', [])))]; client = SocketAddrV4 1 2
   in \<exists>s0 ctx bs'. fst (spawn_tls_listener example_env (ListenTcp (0 :: nat)) (Ok loopback) example_config
          (map Ok [(starttls_connection, client)] @ [])) ! 0 = Some (Ok (True, s0), ctx, Some bs')
    \<and> delivers False True s0 (3 * length (show_stream xs @ []) + 3 * length (show_stream [] @ []) + 3)
        (sent no_sink @ announcement example_config (seen_addr (ListenTcp (0 :: nat)) client) loopback @ [Wrote (preamble [] example_header), Flushed])
        (delivered xs) (sent (tls_sink example_tls)) (delivered [])"
proof -
  have x: "ok_item example_header" "length (show_item example_header) \<le> 120" "decls_ok 120 []"
    and f: "fits 120 [([], Stanza (EmptyElem (CHR ''a'', [])))]" "fits 120 []"
    and d: "declares_client (show_item example_header) = True"
    unfolding decls_ok_def fits_def by code_simp+
  have r: "AsyncRead (tls_reader example_tls) = header_input [] [] example_header (show_stream [([], Stanza (EmptyElem (CHR ''a'', [])))] @ [])"
    unfolding header_input_def by code_simp
  have p: "peek_bytes_of (ListenTcp (0 :: nat)) 3 (conn_peeks starttls_connection) = Some (Ok ''<st'')" "\<not> is_client_hello ''<st''"
    "first_bytes_match_buf_timeout 3 (\<lambda>p. p = ''GET'') (tls_peeks example_tls) = Some (Ok False)"
    "asks_for_tls 120 example_pre [] example_request '' ''" by code_simp+
  have a: "conn_accept starttls_connection (map RByte (CHR 0x16 # ''hello'')) (log_event (clear_log example_pre) (conn_sink starttls_connection)) = Ok example_tls"
    by (simp add: starttls_connection_def clear_log_def log_event_def example_pre_def)
  have b: "backend example_env (SocketPath ''/c'') = Ok (map RByte (show_stream [] @ []), no_sink)" by code_simp
  show ?thesis unfolding Let_def
    by (rule starttls_connection_is_relayed [OF _ _ _ p(1,2) _ _ p(4) _ _ a p(3) r _ x(1) _ x(2) _ x(3) d _ _ b _ _ f])
      (simp_all add: starttls_connection_def example_tls_def example_config_def target_of_def example_header_def)
qed

text \<open>A local client that connects to a listener and sends a header for a domain and stanzas of at most
  the configured size is relayed to a server of that domain: records without a reachable address
  and addresses that refuse the connection are passed over, the first server that is reached over
  TLS, under the domain's verifier, gets the client's header and answers with its own, which goes
  back to the client; then at most three steps per byte are made and three more, and when no step is
  left the loop has returned without an error, has written to each side, unaltered and in order,
  stanzas the other has sent, and all of those of a side that has ended.\<close>

theorem outgoing_is_relayed:
  assumes "i < length cns" and "cns ! i = (cn, client)"
    and "peek_bytes_of l 3 (conn_peeks cn) = Some (Ok p)" and "p \<noteq> ''GET''" and "3 \<le> n"
    and "AsyncRead (conn_reader cn) = header_input ds ws x (show_stream xs @ xtail)" and "faults (conn_sink cn) = []"
    and "ok_item x" and "is_header x" and "length (show_item x) \<le> n" and "CHR ''<'' \<notin> set ws"
    and "decls_ok n ds" and "declares_client (show_item x) = is_c2s"
    and "header_attr ''to'' (preamble ds x) = Ok domain" and "utf8_valid domain"
    and "get_xmpp_connections (net_world net) domain is_c2s = Ok (bad @ c # cs, v)" and "list_all (unreachable net domain) bad"
    and "conn_type c = DirectTLS" and "ips_of net c = Ok (dead @ ip # later)" and "list_all (no_tcp net c) dead"
    and "server_name (net_world net) (conn_name c domain) = Ok nm" and "tcp_connect net (socket_addr ip (port c)) = Ok q"
    and "tls_handshake net (config_alpn (with_custom_certificate_verifier n is_c2s v)) nm (socket_addr ip (port c))
      = Ok (map RByte (show_stream (map (apsnd XmlDecl) es) @ us @ show_item y @ show_stream ys @ ytail), s)"
    and "ok_item y" and "is_header y" and "length (show_item y) \<le> n" and "CHR ''<'' \<notin> set us" and "decls_ok n es" and "faults s = []"
    and "fits n xs" and "fits n ys" and "CHR ''<'' \<notin> set xtail" and "CHR ''<'' \<notin> set ytail"
  shows "\<exists>s0 ctx'. fst (spawn_outgoing_listener net l n (map Ok cns @ failed)) ! i = Some (Ok (is_c2s, s0), ctx')
    \<and> delivers tracing is_c2s s0 (3 * length (show_stream xs @ xtail) + 3 * length (show_stream ys @ ytail) + 3)
        (sent s @ [Wrote (preamble ds x), Flushed]) (delivered xs)
        (sent (conn_sink cn) @ [Wrote (preamble es y), Flushed]) (delivered ys)"
  unfolding outgoing_listener_serves [OF assms(1,2)]
  by (rule outgoing_delivers [where peek_bytes = "peek_bytes_of l", OF assms(3,4) peek_bytes_length [OF assms(3)] assms(5-33)])

text \<open>A client of the domain \<open>a\<close>, whose host-meta names the server \<open>b\<close>.\<close>

definition client_connection :: connection where
  "client_connection =
     \<lparr>conn_peeks = [Peeked ''<st'' False], conn_reader = map RByte (show_item client_header @ ''<a/>''), conn_sink = no_sink,
      conn_accept = (\<lambda>rd wr. Err IoError), conn_websocket = (\<lambda>r c. Err IoError), conn_random = []\<rparr>"

lemma outgoing_is_relayed_witness:
  "let xs = [([], Stanza (EmptyElem (CHR ''a'', [])))]; ys = [([], Stanza (EmptyElem (CHR ''f'', [])))]
   in \<exists>s0 ctx'. fst (spawn_outgoing_listener published_net (ListenTcp (0 :: nat)) 60 (map Ok [(client_connection, loopback)] @ [])) ! 0
        = Some (Ok (True, s0), ctx')
    \<and> delivers False True s0 (3 * length (show_stream xs @ []) + 3 * length (show_stream ys @ []) + 3)
        (sent no_sink @ [Wrote (preamble [] client_header), Flushed]) (delivered xs)
        (sent (conn_sink client_connection) @ [Wrote (preamble [([], ''v?'')] server_header), Flushed]) (delivered ys)"
proof -
  let ?xs = "[([], Stanza (EmptyElem (CHR ''a'', [])))]"
  let ?ys = "[([], Stanza (EmptyElem (CHR ''f'', [])))]"
  have p: "peek_bytes_of (ListenTcp (0 :: nat)) 3 (conn_peeks client_connection) = Some (Ok ''<st'')" by code_simp
  have r: "AsyncRead (conn_reader client_connection) = header_input [] [] client_header (show_stream ?xs @ [])"
    unfolding header_input_def by code_simp
  have h: "header_attr ''to'' (preamble [] client_header) = Ok ''a''" by code_simp
  have f: "fits 60 ?xs" "fits 60 ?ys" unfolding fits_def by code_simp+
  have d: "decls_ok 60 []" "decls_ok 60 [([], ''v?'')]" by (simp_all add: decls_ok_def)
  have g: "get_xmpp_connections (net_world published_net) ''a'' True = Ok ([] @ published_conn # [], published_verifier)"
    using published_conns by (simp add: published_net_def)
  have i: "ips_of published_net published_conn = Ok ([] @ V4 1 # [])" by (simp add: ips_of_def published_conn_def)
  have s: "server_name (net_world published_net) (conn_name published_conn ''a'') = Ok ''b''" by code_simp
  have t: "tcp_connect published_net (socket_addr (V4 1) (port published_conn)) = Ok ([], no_sink)" by code_simp
  have k: "tls_handshake published_net (config_alpn (with_custom_certificate_verifier 60 True published_verifier)) ''b'' (socket_addr (V4 1) (port published_conn))
      = Ok (map RByte (show_stream (map (apsnd XmlDecl) [([], ''v?'')]) @ '' '' @ show_item server_header @ show_stream ?ys @ []), no_sink)"
    by (simp add: published_net_def example_net_def) (code_simp)
  show ?thesis unfolding Let_def
    by (rule outgoing_is_relayed [OF _ _ p _ _ r _ example_headers(1-3) _ d(1) example_headers(4) h _ g _ _ i _ s t k example_headers(5-7) _ d(2) _ f])
      (simp_all add: client_connection_def published_conn_def is_ascii_def utf8_valid_ascii)
qed

end
