(* ===== verification/Ws_Relay.thy ===== *)
theory Ws_Relay
  imports Listeners
begin

text \<open>
  A client over a WebSocket and a backend over a byte stream, joined by the loop of
  \<open>shuffle_rd_wr_filter_only\<close> (\<open>src/common/mod.rs\<close>): the conversions of \<open>src/websocket/mod.rs\<close> and
  \<open>src/in_out.rs\<close> in both directions, and the whole connection, from \<open>accept\<close> over
  \<open>handle_websocket_connection\<close> (\<open>src/websocket/incoming.rs\<close>) to the last stanza.
\<close>

section \<open>The loop\<close>

text \<open>
  The first \<open>i\<close> events of the client and the first \<open>j\<close> items of the backend have been served.  The
  client has got a pong for each of its pings and a message for each of the items, both in order,
  one group of frames after the other.
\<close>

definition ws_served ::
    "bool \<Rightarrow> wr_event list \<Rightarrow> ws_event list \<Rightarrow> wr_event list \<Rightarrow> item list \<Rightarrow> nat \<Rightarrow> nat \<Rightarrow> shuffle \<Rightarrow> bool"
where
  "ws_served is_c2s to_backend es to_client ys i j s \<longleftrightarrow>
     in_rd s = WebSocketRead (drop i es)
     \<and> (\<exists>ow. out_wr s = AsyncWrite ow \<and> faults ow = [] \<and> sent ow = to_backend @ relayed (texts_of (take i es)))
     \<and> (\<exists>iw gs. in_wr s = WebSocketClientWrite iw \<and> faults iw = [] \<and> sent iw = to_client @ concat gs
          \<and> gs \<in> shuffles (pongs_of (take i es)) (map (ws_frames is_c2s) (take j ys)))"

text \<open>
  What the loop promises between a WebSocket and a byte stream: it makes a bounded number of steps;
  at any moment it has served a beginning of what each side has sent; it stops only by returning,
  and returns only when the backend has ended and all of its items have been sent to the client.
\<close>

definition ws_delivers ::
    "bool \<Rightarrow> bool \<Rightarrow> shuffle \<Rightarrow> nat \<Rightarrow> wr_event list \<Rightarrow> ws_event list \<Rightarrow> wr_event list \<Rightarrow> item list \<Rightarrow> bool"
where
  "ws_delivers tracing is_c2s s0 bound to_backend es to_client ys \<longleftrightarrow>
     (\<forall>k s. (shuffle_step tracing is_c2s ^^ k) s0 s \<longrightarrow> k \<le> bound)
     \<and> (\<forall>s. shuffle_run tracing is_c2s s0 s \<longrightarrow>
          finished s \<in> {None, Some (Ok ())}
          \<and> (finished s \<noteq> None \<longleftrightarrow> (\<nexists>s'. shuffle_step tracing is_c2s s s'))
          \<and> (\<exists>i j. ws_served is_c2s to_backend es to_client ys i j s
               \<and> (finished s \<noteq> None \<longrightarrow> out_rd s = AsyncRead [] \<and> j = length ys)))"

lemma ws_delivers_if:
  assumes r: "relays_between tracing is_c2s s0 bound (web_party is_c2s n) to_client (map Ws es) byte_party to_backend (map Xml ys)"
    and ok: "list_all (\<lambda>x. ok_item x \<and> sendable x) ys"
  shows "ws_delivers tracing is_c2s s0 bound to_backend es to_client ys"
proof -
  have "\<exists>i j. ws_served is_c2s to_backend es to_client ys i j s \<and> (finished s \<noteq> None \<longrightarrow> out_rd s = AsyncRead [] \<and> j = length ys)"
    if "shuffle_run tracing is_c2s s0 s" for s
  proof -
    from r that obtain ao ar bo br where e: "map Ws es = ao @ ar" "map Xml ys = bo @ br"
      and rd: "end_reads (web_party is_c2s n) ar (in_filter s) (in_rd s)"
      and g: "got (web_party is_c2s n) to_client ao bo (in_wr s)" "got byte_party to_backend bo ao (out_wr s)"
      and fin: "finished s \<noteq> None \<longrightarrow> over (web_party is_c2s n) byte_party ao ar bo br s"
      unfolding relays_between_def by blast
    define i j where "i = length ao" and "j = length bo"
    have ao: "ao = map Ws (take i es)" "ar = map Ws (drop i es)" and bo: "bo = map Xml (take j ys)" "br = map Xml (drop j ys)"
      using e by (simp_all add: i_def j_def flip: take_map drop_map)
    have tk: "list_all (\<lambda>x. ok_item x \<and> sendable x) (take j ys)" using ok by (auto simp: list_all_iff dest: in_set_takeD)
    have inj: "map Ws us = map Ws vs \<Longrightarrow> us = vs" for us vs by (rule map_injective [of Ws]) (auto simp: inj_def)
    from rd have "in_rd s = WebSocketRead (drop i es)" unfolding ao by (auto simp: web_party_def dest: inj)
    with g have "ws_served is_c2s to_backend es to_client ys i j s"
      unfolding ao bo got_bytes got_web [OF tk] pieces_of_events by (auto simp: ws_served_def)
    moreover have "j \<le> length ys" using arg_cong [OF e(2), of length] by (simp add: j_def)
    then have "out_rd s = AsyncRead [] \<and> j = length ys" if "finished s \<noteq> None"
      using fin that by (auto simp: over_def closing bo not_stopped_bytes)
    ultimately show ?thesis by blast
  qed
  with r show ?thesis unfolding ws_delivers_def relays_between_def by blast
qed

lemma ws_shuffle_delivers:
  assumes "length (buf f) = n" and "texts_fit n es" and "0 < m" and "fits m ys" and "CHR ''<'' \<notin> set ytail"
    and "list_all (sendable \<circ> snd) ys" and "faults iw = []" and "faults ow = []"
    and "ord = map RByte (show_stream ys @ ytail)"
  shows "ws_delivers tracing is_c2s (shuffle_start (WebSocketRead es) (WebSocketClientWrite iw) (AsyncRead ord) (AsyncWrite ow) m f)
    (3 * length es + 3 * length ord + 3) (sent ow) es (sent iw) (map snd ys)"
proof -
  have ok: "list_all (\<lambda>x. ok_item x \<and> sendable x) (map snd ys)"
    using assms(4,6) by (auto simp: fits_def list_all_iff)
  have "relays_between tracing is_c2s
      (shuffle_start (WebSocketRead es) (end_writer (web_party is_c2s n) iw) (AsyncRead ord) (end_writer byte_party ow) m f)
      (3 * remaining (WebSocketRead es) + 3 * remaining (AsyncRead ord) + 3) (web_party is_c2s n) (sent iw) (map Ws es)
      byte_party (sent ow) (map Xml (map snd ys))"
    by (rule client_on_web.loop_relays [OF web_start [OF assms(1,2)] _ bytes_understood items_understood [OF ok] assms(7,8)])
      (use byte_start [OF idle_new [OF assms(3)] assms(4,5)] assms(9) in simp)
  from ws_delivers_if [OF _ ok] this show ?thesis by (simp add: web_party_def byte_party_def)
qed

section \<open>The session\<close>

text \<open>The header a client opens its stream with, after pings, if any.\<close>

definition ws_input :: "bytes list \<Rightarrow> bytes \<Rightarrow> ws_event list \<Rightarrow> ws_event list" where
  "ws_input ps t es = map (WsMsg \<circ> WsPing) ps @ WsMsg (WsText t) # es"

lemma ws_header_read:
  assumes "idle n e f" and "faults sk = []" and "prefix ''<stream:stream '' (from_ws t)" and "length (from_ws t) \<le> n"
  shows "\<exists>f'. idle n e f' \<and> stream_preamble (WebSocketRead (ws_input ps t es)) (WebSocketClientWrite sk) f
      = (Ok (from_ws t, declares_client (from_ws t)), WebSocketRead es, WebSocketClientWrite (log_event (concat (map pong ps)) sk), f')"
proof -
  let ?f = "f\<lparr>buf := from_ws t @ drop (length (from_ws t)) (buf f)\<rparr>"
  have l: "length (from_ws t) \<le> length (buf f)" using assms(1,4) by (simp add: idle_length)
  then have i: "idle n e ?f" by (intro idle_buf [OF assms(1)]) simp
  have "\<not> prefix ''<?xml '' (from_ws t)" using prefix_same_cases [OF assms(3), of "''<?xml ''"] by auto
  moreover have "StanzaRead_next (WebSocketRead (ws_input ps t es)) f (WebSocketClientWrite sk)
      = (Ok (Some (from_ws t, 0)), WebSocketRead es, ?f, WebSocketClientWrite (log_event (concat (map pong ps)) sk))"
    using l by (simp add: ws_input_def ws_loop_pings [OF assms(2)] Let_def del: map_map)
  ultimately show ?thesis
    using i assms(3) unfolding stream_preamble_def
    by (subst preamble_loop.simps) (auto simp: declares_client_def slice_simps)
qed

lemma ws_session_delivers:
  assumes "idle n e f" and "max_stanza_size_bytes config = n" and "0 < n"
    and "accept_hdr ws_response (ws_cfg n) = Ok (ws_input ps t es, sk)" and "faults sk = []"
    and "prefix ''<stream:stream '' (from_ws t)" and "length (from_ws t) \<le> n" and "texts_fit n es"
    and "declares_client (from_ws t) = is_c2s" and "is_c2s \<or> authenticated env certs (from_ws t)"
    and "target_of config is_c2s = Some tgt" and "backend env tgt = Ok (map RByte (show_stream ys @ ytail), bs)"
    and "faults bs = []" and "use_proxy config \<longrightarrow> 104 \<le> n"
    and "fits n ys" and "list_all (sendable \<circ> snd) ys" and "CHR ''<'' \<notin> set ytail"
  shows "\<exists>s0 ctx' bs'. handle_websocket_connection env accept_hdr config certs local_addr ctx f = (Ok (is_c2s, s0), ctx', Some bs')
    \<and> ws_delivers tracing is_c2s s0 (3 * length es + 3 * length (show_stream ys @ ytail) + 3)
        (sent bs @ announcement config (client_addr ctx) local_addr @ [Wrote (from_ws t), Flushed]) es
        (sent sk @ concat (map pong ps)) (map snd ys)"
proof -
  let ?ctx = "set_proto (logging env) ''websocket-in'' ctx"
  let ?ctx2 = "set_c2s_stream_open (logging env) is_c2s (from_ws t) ?ctx"
  let ?iw = "log_event (concat (map pong ps)) sk"
  have c: "client_addr ?ctx = client_addr ctx" by (simp add: set_proto_def re_calc_def)
  from ws_header_read [OF assms(1,5,6,7), of ps es] assms(9) obtain f1 where f1: "idle n e f1"
    and pre: "stream_preamble (WebSocketRead (ws_input ps t es)) (WebSocketClientWrite sk) f
      = (Ok (from_ws t, is_c2s), WebSocketRead es, WebSocketClientWrite ?iw, f1)" by blast
  have auth: "(if is_c2s then Ok () else s2s_auth env certs (from_ws t)) = Ok ()"
    using assms(10) by (cases is_c2s) (simp_all add: s2s_auth_iff)
  let ?bs = "log_event (announcement config (client_addr ?ctx2) local_addr @ [Wrote (from_ws t), Flushed]) bs"
  from open_incoming_ok [OF assms(11-13) f1 assms(14), of ?ctx2 local_addr "from_ws t"]
  obtain ctx' f' where f': "idle n e f'" and o: "open_incoming env config local_addr ?ctx2 (from_ws t) is_c2s f1
      = (Ok (AsyncRead (map RByte (show_stream ys @ ytail)), AsyncWrite ?bs), ctx', f', Some ?bs)" by blast
  have "handle_websocket_connection env accept_hdr config certs local_addr ctx f
      = (Ok (is_c2s, shuffle_start (WebSocketRead es) (WebSocketClientWrite ?iw)
          (AsyncRead (map RByte (show_stream ys @ ytail))) (AsyncWrite ?bs) n f'), ctx', Some ?bs)"
    unfolding handle_websocket_connection_def incoming_websocket_connection_def Let_def assms(2,4)
      outcome.map prod.case outcome.case shuffle_rd_wr_filter_def pre auth o by simp
  moreover have "faults ?bs = []" "faults ?iw = []" using assms(5,13) by simp_all
  from ws_shuffle_delivers [OF idle_length [OF f'] assms(8,3,15,17,16) this(2,1) refl, of tracing is_c2s] c
  have "ws_delivers tracing is_c2s (shuffle_start (WebSocketRead es) (WebSocketClientWrite ?iw)
        (AsyncRead (map RByte (show_stream ys @ ytail))) (AsyncWrite ?bs) n f') (3 * length es + 3 * length (show_stream ys @ ytail) + 3)
        (sent bs @ announcement config (client_addr ctx) local_addr @ [Wrote (from_ws t), Flushed]) es
        (sent sk @ concat (map pong ps)) (map snd ys)" by simp
  ultimately show ?thesis by blast
qed

lemma ws_tls_delivers:
  assumes "peek_bytes 3 pks = Some (Ok p)" and "is_client_hello p" and "length p = 3"
    and "max_stanza_size_bytes config = n" and "3 \<le> n" and "accept rd wr = Ok tls"
    and "first_bytes_match_buf_timeout 3 (\<lambda>p. p = ''GET'') (tls_peeks tls) = Some (Ok True)"
    and "tls_websocket tls ws_response (ws_cfg n) = Ok (ws_input ps t es, sk)" and "faults sk = []"
    and "prefix ''<stream:stream '' (from_ws t)" and "length (from_ws t) \<le> n" and "texts_fit n es"
    and "declares_client (from_ws t) = is_c2s" and "is_c2s \<or> authenticated env (tls_certs tls) (from_ws t)"
    and "target_of config is_c2s = Some tgt" and "backend env tgt = Ok (map RByte (show_stream ys @ ytail), bs)"
    and "faults bs = []" and "use_proxy config \<longrightarrow> 104 \<le> n"
    and "fits n ys" and "list_all (sendable \<circ> snd) ys" and "CHR ''<'' \<notin> set ytail"
  shows "\<exists>s0 ctx' bs'. handle_tls_connection env peek_bytes accept config local_addr ctx pks rd wr = Some (Ok (is_c2s, s0), ctx', Some bs')
    \<and> ws_delivers tracing is_c2s s0 (3 * length es + 3 * length (show_stream ys @ ytail) + 3)
        (sent bs @ announcement config (client_addr ctx) local_addr @ [Wrote (from_ws t), Flushed]) es
        (sent sk @ concat (map pong ps)) (map snd ys)"
proof -
  let ?f = "(StanzaFilter_new n)\<lparr>buf := p @ drop 3 (buf (StanzaFilter_new n))\<rparr>"
  let ?ctx = "set_proto (logging env) ''directtls-in'' ctx"
  have f: "idle n 0 ?f" by (rule sniffed_filter_idle [OF assms(3,5)])
  have "0 < n" using assms(5) by simp
  have "handle_tls_connection env peek_bytes accept config local_addr ctx pks rd wr
      = Some (handle_websocket_connection env (tls_websocket tls) config (tls_certs tls) local_addr ?ctx ?f)"
    using assms(1,2,4-7) by (simp add: handle_tls_connection_def after_tls_def Let_def)
  moreover have "client_addr ?ctx = client_addr ctx" by (simp add: set_proto_def re_calc_def)
  ultimately show ?thesis
    using ws_session_delivers [where ctx = ?ctx and local_addr = local_addr and tracing = tracing and certs = "tls_certs tls"
      and accept_hdr = "tls_websocket tls", OF f assms(4) \<open>0 < n\<close> assms(8-21)] by simp
qed

section \<open>Properties\<close>

text \<open>C13: a client that connects to a listener, starts TLS, upgrades to a WebSocket and opens a stream is
  served like one over TCP: the backend gets the header, converted, and the texts of the client, each
  converted and flushed, in order; the client gets a pong for each of its pings and the items of the
  backend, each converted to a message that declares its namespaces, in order, never one inside the
  other.  A message that is neither a text nor a ping, an error, a close and the end of the WebSocket
  end nothing: at most three steps per message and byte are made and three more, none of them fails,
  and the loop stops only when the backend has ended and everything it has sent has been written to
  the client.\<close>

theorem websocket_connection_is_relayed:
  assumes "listener_local_addr l addr = Ok local_addr" and "i < length cs" and "cs ! i = (c, client)"
    and "peek_bytes_of l 3 (conn_peeks c) = Some (Ok p)" and "is_client_hello p"
    and "max_stanza_size_bytes config = n" and "3 \<le> n" and "conn_accept c (conn_reader c) (conn_sink c) = Ok tls"
    and "first_bytes_match_buf_timeout 3 (\<lambda>p. p = ''GET'') (tls_peeks tls) = Some (Ok True)"
    and "tls_websocket tls ws_response (ws_cfg n) = Ok (ws_input ps t es, sk)" and "faults sk = []"
    and "prefix ''<stream:stream '' (from_ws t)" and "length (from_ws t) \<le> n" and "texts_fit n es"
    and "declares_client (from_ws t) = is_c2s" and "is_c2s \<or> authenticated env (tls_certs tls) (from_ws t)"
    and "target_of config is_c2s = Some tgt" and "backend env tgt = Ok (map RByte (show_stream ys @ ytail), bs)"
    and "faults bs = []" and "use_proxy config \<longrightarrow> 104 \<le> n"
    and "fits n ys" and "list_all (sendable \<circ> snd) ys" and "CHR ''<'' \<notin> set ytail"
  shows "\<exists>s0 ctx bs'. fst (spawn_tls_listener env l addr config (map Ok cs @ later)) ! i = Some (Ok (is_c2s, s0), ctx, Some bs')
    \<and> ws_delivers tracing is_c2s s0 (3 * length es + 3 * length (show_stream ys @ ytail) + 3)
        (sent bs @ announcement config (seen_addr l client) local_addr @ [Wrote (from_ws t), Flushed]) es
        (sent sk @ concat (map pong ps)) (map snd ys)"
proof -
  let ?ctx = "Context_new (logging env) (conn_random c) ''tcp-in'' (seen_addr l client)"
  have "client_addr ?ctx = seen_addr l client" by (simp add: Context_new_def)
  with ws_tls_delivers [where peek_bytes = "peek_bytes_of l" and accept = "conn_accept c" and ctx = ?ctx and local_addr = local_addr
      and tracing = tracing, OF assms(4,5) peek_bytes_length [OF assms(4)] assms(6-23)]
  show ?thesis by (simp add: tls_listener_serves [OF assms(1-3)])
qed

text \<open>A client that pings, opens a stream, sends a stanza, pings again and closes.\<close>

definition ws_open :: bytes where
  "ws_open = open_element ''to=\"b\" xmlns=\"'' ns_framing ''\" xmlns:stream=\"s\"''"

definition ws_messages :: "ws_event list" where
  "ws_messages = [WsMsg (WsText ''<a/>''), WsMsg (WsPing ''y''), WsMsg (WsClose None)]"

definition ws_tls :: tls_stream where
  "ws_tls =
     \<lparr>tls_certs = example_certs, tls_peeks = [FillPending 1, Filled 2 ''GET /''], tls_reader = [], tls_sink = no_sink,
      tls_websocket = (\<lambda>r cfg. if r [] \<noteq> [] \<and> accept_unmasked_frames cfg then Ok (ws_input [''x''] ws_open ws_messages, no_sink) else Err IoError)\<rparr>"

definition ws_connection :: connection where
  "ws_connection = example_connection\<lparr>conn_accept := (\<lambda>rd wr. Ok ws_tls)\<rparr>"

lemma websocket_connection_is_relayed_witness:
  "let ys = [([], XmlDecl ''v?''), ([], Stanza (EmptyElem (CHR ''f'', []))), ([], StreamEnd)]; client = SocketAddrV4 1 2;
       env = example_env\<lparr>backend := (\<lambda>tgt. Ok (map RByte (show_stream ys @ []), no_sink))\<rparr>
   in \<exists>s0 ctx bs'. fst (spawn_tls_listener env (ListenTcp (0 :: nat)) (Ok loopback) example_config
          (map Ok [(ws_connection, client)] @ [])) ! 0 = Some (Ok (True, s0), ctx, Some bs')
    \<and> ws_delivers False True s0 (3 * length ws_messages + 3 * length (show_stream ys @ []) + 3)
        (sent no_sink @ announcement example_config (seen_addr (ListenTcp (0 :: nat)) client) loopback @ [Wrote (from_ws ws_open), Flushed]) ws_messages
        (sent no_sink @ concat (map pong [''x''])) (map snd ys)"
proof -
  let ?ys = "[([], XmlDecl ''v?''), ([], Stanza (EmptyElem (CHR ''f'', []))), ([], StreamEnd)]"
  let ?env = "example_env\<lparr>backend := (\<lambda>tgt. Ok (map RByte (show_stream ?ys @ []), no_sink))\<rparr>"
  have p: "peek_bytes_of (ListenTcp (0 :: nat)) 3 (conn_peeks ws_connection) = Some (Ok [CHR 0x16, CHR 0x03, CHR 0x01])"
    "is_client_hello [CHR 0x16, CHR 0x03, CHR 0x01]"
    "first_bytes_match_buf_timeout 3 (\<lambda>p. p = ''GET'') (tls_peeks ws_tls) = Some (Ok True)" by code_simp+
  have t: "prefix ''<stream:stream '' (from_ws ws_open)" "length (from_ws ws_open) \<le> 120" "declares_client (from_ws ws_open) = True"
    by code_simp+
  have m: "texts_fit 120 ws_messages" unfolding texts_fit_def ws_messages_def by (auto simp: from_ws_def)
  have y: "fits 120 ?ys" "list_all (sendable \<circ> snd) ?ys" unfolding fits_def by code_simp+
  have w: "tls_websocket ws_tls ws_response (ws_cfg 120) = Ok (ws_input [''x''] ws_open ws_messages, no_sink)"
    by (simp add: ws_tls_def ws_response_def ws_cfg_def)
  have b: "backend ?env (SocketPath ''/c'') = Ok (map RByte (show_stream ?ys @ []), no_sink)" by simp
  show ?thesis unfolding Let_def
    by (rule websocket_connection_is_relayed [OF _ _ _ p(1,2) _ _ _ p(3) w _ t(1,2) m t(3) _ _ b _ _ y])
      (simp_all add: ws_connection_def example_connection_def example_config_def target_of_def)
qed

end
