(* ===== verification/Outgoing_Relay.thy ===== *)
theory Outgoing_Relay
  imports Ws_Relay
begin

text \<open>
  The outgoing side whole, whatever its two ends are: a local client over TCP or over a WebSocket
  (\<open>handle_outgoing_connection\<close> of \<open>src/outgoing.rs\<close>), and a server over any transport of
  \<open>XmppConnection::connect\<close> of \<open>src/srv.rs\<close>, the first one of the list of \<open>srv_connect\<close> that is reached; and
  what an attempt over STARTTLS leaves behind for a WebSocket.
\<close>

section \<open>Opening a stream\<close>

text \<open>
  How a stream is opened by an end, what that makes of it as a party of the loop, and what is then left
  to read: a header behind its declarations in a byte stream, or a text behind pings on a WebSocket.
\<close>

inductive opens ::
    "nat \<Rightarrow> bool \<Rightarrow> StanzaRead \<Rightarrow> bytes \<Rightarrow> bool \<Rightarrow> wr_event list \<Rightarrow> StanzaRead \<Rightarrow> party \<Rightarrow> piece_sent list \<Rightarrow> bool"
  for n is_c2s
where
  Bytes: "ok_item x \<Longrightarrow> is_header x \<Longrightarrow> length (show_item x) \<le> n \<Longrightarrow> CHR ''<'' \<notin> set ws \<Longrightarrow> decls_ok n ds
     \<Longrightarrow> fits n xs \<Longrightarrow> CHR ''<'' \<notin> set tail
     \<Longrightarrow> opens n is_c2s (header_input ds ws x (show_stream xs @ tail)) (preamble ds x) (declares_client (show_item x)) []
           (AsyncRead (map RByte (show_stream xs @ tail))) byte_party (map (Xml \<circ> snd) xs)"
| Web: "prefix ''<stream:stream '' (from_ws t) \<Longrightarrow> length (from_ws t) \<le> n \<Longrightarrow> texts_fit n es
     \<Longrightarrow> opens n is_c2s (WebSocketRead (ws_input ps t es)) (from_ws t) (declares_client (from_ws t)) (concat (map pong ps))
           (WebSocketRead es) (web_party is_c2s n) (map Ws es)"

lemma opens_party: "opens n c rd hdr k pgs rest P us \<Longrightarrow> P \<in> {byte_party, web_party c n}"
  by (auto elim: opens.cases)

lemma web_not_bytes: "web_party c n \<noteq> byte_party"
proof -
  have "end_writer (web_party c n) s \<noteq> end_writer byte_party s" for s by (simp add: web_party_def byte_party_def)
  then show ?thesis by metis
qed

lemma opens_reads:
  assumes "opens n c rd hdr k pgs rest P us" and "idle n e f" and "e = 0 \<or> P = byte_party" and "faults s = []"
  shows "\<exists>f'. idle n 0 f' \<and> stream_preamble rd (end_writer P s) f = (Ok (hdr, k), rest, end_writer P (log_event pgs s), f')"
  using assms(1)
proof (cases rule: opens.cases)
  case (Bytes x ws ds xs tail)
  from header_read [OF assms(2) Bytes(8-12), of "show_stream xs @ tail" "AsyncWrite s"] show ?thesis
    unfolding Bytes(1-5) by (simp add: Bytes(6) byte_party_def del: map_append)
next
  case (Web t es ps)
  have "e = 0" using assms(3) Web(6) web_not_bytes by auto
  with ws_header_read [OF assms(2,4) Web(8,9), of ps es] show ?thesis
    unfolding Web(1-5) by (simp add: Web(6) web_party_def)
qed

lemma opens_start: "opens n c rd hdr k pgs rest P us \<Longrightarrow> idle n 0 f \<Longrightarrow> end_reads P us f rest"
  by (erule opens.cases; simp only:) (assumption | rule byte_start web_start idle_length)+

section \<open>Reaching a server\<close>

text \<open>
  The filter between two attempts: the place of a first tag it has noted matters to a WebSocket only,
  whose header does not go through it (\<open>tidy\<close>: there is none).
\<close>

definition at_rest :: "nat \<Rightarrow> bool \<Rightarrow> StanzaFilter \<Rightarrow> bool" where
  "at_rest n tidy f \<longleftrightarrow> (\<exists>e. idle n e f \<and> (tidy \<longrightarrow> e = 0))"

lemma idle_at_rest: "idle n 0 f \<Longrightarrow> at_rest n tidy f"
  by (auto simp: at_rest_def)

text \<open>Attempts that fail, and one that succeeds, from any such filter to one.\<close>

definition refuses ::
    "nat \<Rightarrow> bool \<Rightarrow> ('u, 'l, 'b, 'n) net \<Rightarrow> bytes \<Rightarrow> bytes \<Rightarrow> 'n OutgoingVerifierConfig \<Rightarrow> ('u, 'l) XmppConnection \<Rightarrow> IpAddr \<Rightarrow> bool"
where
  "refuses n tidy net domain hdr config c ip \<longleftrightarrow>
     (\<forall>f. at_rest n tidy f \<longrightarrow>
        (\<exists>e f'. try_ip net c domain hdr f config (socket_addr ip (port c)) = (Err e, f') \<and> at_rest n tidy f'))"

definition out_of_reach ::
    "nat \<Rightarrow> bool \<Rightarrow> ('u, 'l, 'b, 'n) net \<Rightarrow> bytes \<Rightarrow> bytes \<Rightarrow> 'n OutgoingVerifierConfig \<Rightarrow> ('u, 'l) XmppConnection \<Rightarrow> bool"
where
  "out_of_reach n tidy net domain hdr config c \<longleftrightarrow>
     (\<exists>e. ips_of net c = Err e) \<or> (\<exists>adrs. ips_of net c = Ok adrs \<and> list_all (refuses n tidy net domain hdr config c) adrs)"

definition reaches ::
    "nat \<Rightarrow> bool \<Rightarrow> ('u, 'l, 'b, 'n) net \<Rightarrow> bytes \<Rightarrow> bytes \<Rightarrow> 'n OutgoingVerifierConfig \<Rightarrow> ('u, 'l) XmppConnection \<Rightarrow> IpAddr \<Rightarrow> io \<Rightarrow> bool"
where
  "reaches n tidy net domain hdr config c ip io \<longleftrightarrow>
     (\<forall>f. at_rest n tidy f \<longrightarrow>
        (\<exists>prt f'. try_ip net c domain hdr f config (socket_addr ip (port c)) = (Ok (io, prt), f') \<and> at_rest n tidy f'))"

text \<open>A STARTTLS server that holds the dialogue either way, whatever becomes of the handshake.\<close>

lemma starttls_attempt:
  assumes "idle n e f" and "conn_type c = StartTLS" and "server_name (net_world net) (conn_name c domain) = Ok nm"
    and "tcp_connect net addr = Ok (map RByte (show_stream zs @ ws @ show_item pr @ junk), k)" and "faults k = []"
    and "list_all (awaits_starttls n) zs" and "ok_item pr" and "length (show_item pr) \<le> n" and "CHR ''<'' \<notin> set ws"
    and "prefix ''<proceed '' (show_item pr)"
  shows "\<exists>f'. idle n (noted e (map snd zs @ [pr])) f' \<and> try_ip net c domain hdr f config addr
      = (map_outcome (\<lambda>p. (byte_io p, ''starttls-out'')) (tls_handshake net (connector config) nm addr), f')"
proof -
  from starttls_out_run [OF assms(1,6,5,7-10), of hdr junk] obtain f' k' where f': "idle n (noted e (map snd zs @ [pr])) f'"
    and d: "starttls_out hdr (map RByte (show_stream zs @ ws @ show_item pr @ junk)) f k = (Ok (), f', k')" by blast
  have "try_ip net c domain hdr f config addr
      = (map_outcome (\<lambda>p. (byte_io p, ''starttls-out'')) (tls_handshake net (connector config) nm addr), f')"
    using assms(2-4) d
    by (cases "tls_handshake net (connector config) nm addr") (simp_all add: try_ip_def starttls_connect_def Let_def del: map_append split del: if_split)
  with f' show ?thesis by blast
qed

lemma starttls_reaches:
  assumes "conn_type c = StartTLS" and "server_name (net_world net) (conn_name c domain) = Ok nm"
    and "tcp_connect net (socket_addr ip (port c)) = Ok (map RByte (show_stream zs @ ws @ show_item pr @ junk), k)" and "faults k = []"
    and "list_all (awaits_starttls n) zs" and "ok_item pr" and "length (show_item pr) \<le> n" and "CHR ''<'' \<notin> set ws"
    and "prefix ''<proceed '' (show_item pr)"
  shows "tls_handshake net (connector config) nm (socket_addr ip (port c)) = Ok p \<Longrightarrow> reaches n False net domain hdr config c ip (byte_io p)"
    and "tls_handshake net (connector config) nm (socket_addr ip (port c)) = Err x \<Longrightarrow> refuses n False net domain hdr config c ip"
  using starttls_attempt [OF _ assms, of _ _ hdr config] by (fastforce simp: reaches_def refuses_def at_rest_def)+

lemma try_ips_refused:
  "list_all (refuses n tidy net domain hdr config c) dead \<Longrightarrow> at_rest n tidy f \<Longrightarrow>
     \<exists>f'. at_rest n tidy f' \<and> try_ips net c domain hdr f config (dead @ adrs) = try_ips net c domain hdr f' config adrs"
proof (induction dead arbitrary: f)
  case (Cons ip dead)
  then obtain e f1 where "try_ip net c domain hdr f config (socket_addr ip (port c)) = (Err e, f1)" "at_rest n tidy f1"
    by (auto simp: refuses_def)
  with Cons.IH [of f1] Cons.prems(1) show ?case by (simp add: Let_def)
qed auto

lemma out_of_reach_fails:
  assumes "out_of_reach n tidy net domain hdr config c" and "at_rest n tidy f"
  shows "\<exists>e f'. conn_connect net c domain hdr f config = (Err e, f') \<and> at_rest n tidy f'"
  using assms(1) try_ips_refused [of n tidy net domain hdr config c _ f "[]"] assms(2)
  unfolding out_of_reach_def conn_connect_def by fastforce

lemma srv_connect_passes:
  "list_all (out_of_reach n tidy net domain hdr config) bad \<Longrightarrow> at_rest n tidy f \<Longrightarrow>
     \<exists>f'. at_rest n tidy f' \<and> (\<forall>ctx. srv_connect_loop net domain is_c2s hdr config (bad @ cs) f ctx
       = srv_connect_loop net domain is_c2s hdr config cs f' ctx)"
proof (induction bad arbitrary: f)
  case (Cons c bad)
  then obtain e f1 where "conn_connect net c domain hdr f config = (Err e, f1)" "at_rest n tidy f1"
    using out_of_reach_fails [of n tidy net domain hdr config c f] by auto
  with Cons.IH [of f1] Cons.prems(1) show ?case by simp
qed auto

lemma reaches_connects:
  assumes "ips_of net c = Ok (dead @ ip # later)" and "list_all (refuses n tidy net domain hdr config c) dead"
    and "reaches n tidy net domain hdr config c ip io" and "at_rest n tidy f"
  shows "\<exists>prt f'. at_rest n tidy f' \<and> conn_connect net c domain hdr f config = (Ok (io, socket_addr ip (port c), prt), f')"
proof -
  from try_ips_refused [OF assms(2,4), of "ip # later"] obtain f1 where f1: "at_rest n tidy f1"
    and t: "try_ips net c domain hdr f config (dead @ ip # later) = try_ips net c domain hdr f1 config (ip # later)" by blast
  from assms(3) f1 obtain prt f2 where "try_ip net c domain hdr f1 config (socket_addr ip (port c)) = (Ok (io, prt), f2)" "at_rest n tidy f2"
    unfolding reaches_def by blast
  with assms(1) t show ?thesis by (simp add: conn_connect_def Let_def)
qed

section \<open>The session\<close>

lemma party_writes:
  assumes "P \<in> {byte_party, web_party c n}" and "end_takes P (bs, e)" and "faults s = []"
  shows "write_and_flush tr c bs e (end_writer P s) = (Ok (), end_writer P (log_event (end_frames P (bs, e)) s))"
  using assms bytes.write_end [of "(bs, e)" s tr c] web.write_end [of c n "(bs, e)" s tr] by auto

text \<open>The session, once the list of connections has been passed through up to one that is made.\<close>

lemma outgoing_ends_made:
  assumes pre: "stream_preamble ird (end_writer A k) f = (Ok (hdr, is_c2s), rest1, end_writer A (log_event pg1 k), f1)"
    and A: "A \<in> {byte_party, web_party is_c2s n}" and B: "B \<in> {byte_party, web_party is_c2s n}"
    and k: "faults k = []" and s: "faults s = []"
    and "header_attr ''to'' hdr = Ok domain" and "utf8_valid domain"
    and "get_xmpp_connections (net_world net) domain is_c2s = Ok (conns, v)"
    and config: "config = with_custom_certificate_verifier m is_c2s v"
    and skip: "\<And>ctx. srv_connect_loop net domain is_c2s hdr config conns f1 ctx
      = srv_connect_loop net domain is_c2s hdr config (c # cs) f2 ctx"
    and conn: "conn_connect net c domain hdr f2 config = (Ok ((end_writer B s, ord), addr, prt), f3)"
    and rsp: "stream_preamble ord (end_writer B (log_event (end_frames B (hdr, length hdr)) s)) f3
      = (Ok (resp, kind), rest2, end_writer B (log_event (end_frames B (hdr, length hdr) @ pg2) s), f4)"
    and hB: "end_takes B (hdr, length hdr)" and rA: "end_takes A (resp, 0)"
  shows "\<exists>ctx'. answer_client net m ctx ird (end_writer A k) f
      = (Ok (is_c2s, shuffle_start rest1 (end_writer A (log_event (pg1 @ end_frames A (resp, 0)) k))
           rest2 (end_writer B (log_event (end_frames B (hdr, length hdr) @ pg2) s)) m f4), ctx')"
proof -
  let ?ctx = "set_c2s_stream_open (net_logging net) is_c2s hdr ctx"
  note w = party_writes [OF B hB s]
  have "\<exists>ctx'. srv_connect net domain is_c2s hdr f1 ?ctx m
      = (Ok ((end_writer B (log_event (end_frames B (hdr, length hdr) @ pg2) s), rest2), resp), f4, ctx')"
    using skip conn w rsp by (simp add: srv_connect_def assms(8) Let_def flip: config)
  then obtain ctx' where loop: "srv_connect net domain is_c2s hdr f1 ?ctx m
      = (Ok ((end_writer B (log_event (end_frames B (hdr, length hdr) @ pg2) s), rest2), resp), f4, ctx')" by blast
  have "faults (log_event pg1 k) = []" using k by simp
  from party_writes [OF A rA this]
  have a: "write_and_flush (net_tracing net) is_c2s resp 0 (end_writer A (log_event pg1 k))
      = (Ok (), end_writer A (log_event (end_frames A (resp, 0)) (log_event pg1 k)))" .
  have "bind_ok (header_attr ''to'' hdr) from_utf8 = Ok domain" using assms(6,7) by (simp add: from_utf8_def)
  with loop a pre show ?thesis by (intro exI [of _ ctx']) (simp add: answer_client_def Let_def)
qed

lemma outgoing_ends_open:
  assumes f: "idle n 0 f" and cl: "opens n is_c2s ird hdr is_c2s pg1 rest1 A us" and k: "faults k = []"
    and "header_attr ''to'' hdr = Ok domain" and "utf8_valid domain"
    and "get_xmpp_connections (net_world net) domain is_c2s = Ok (bad @ c # cs, v)"
    and config: "config = with_custom_certificate_verifier m is_c2s v"
    and "list_all (out_of_reach n tidy net domain hdr config) bad"
    and "ips_of net c = Ok (dead @ ip # later)" and "list_all (refuses n tidy net domain hdr config c) dead"
    and "reaches n tidy net domain hdr config c ip (end_writer B s, ord)" and tidy: "tidy \<or> B = byte_party"
    and sv: "opens n is_c2s ord resp kind pg2 rest2 B vs" and s: "faults s = []"
    and hB: "end_takes B (hdr, length hdr)" and rA: "end_takes A (resp, 0)"
  shows "\<exists>f' ctx'. idle n 0 f' \<and> answer_client net m ctx ird (end_writer A k) f
      = (Ok (is_c2s, shuffle_start rest1 (end_writer A (log_event (pg1 @ end_frames A (resp, 0)) k))
           rest2 (end_writer B (log_event (end_frames B (hdr, length hdr) @ pg2) s)) m f'), ctx')"
proof -
  from opens_reads [OF cl f _ k] obtain f1 where f1: "idle n 0 f1"
    and pre: "stream_preamble ird (end_writer A k) f = (Ok (hdr, is_c2s), rest1, end_writer A (log_event pg1 k), f1)" by blast
  from srv_connect_passes [OF assms(8) idle_at_rest [OF f1], of is_c2s "c # cs"] obtain f2 where f2: "at_rest n tidy f2"
    and skip: "\<And>ctx. srv_connect_loop net domain is_c2s hdr config (bad @ c # cs) f1 ctx
      = srv_connect_loop net domain is_c2s hdr config (c # cs) f2 ctx" by blast
  from reaches_connects [OF assms(9-11) f2] obtain prt f3 where f3: "at_rest n tidy f3"
    and conn: "conn_connect net c domain hdr f2 config = (Ok ((end_writer B s, ord), socket_addr ip (port c), prt), f3)" by blast
  from f3 tidy obtain e where e: "idle n e f3" "e = 0 \<or> B = byte_party" unfolding at_rest_def by blast
  have "faults (log_event (end_frames B (hdr, length hdr)) s) = []" using s by simp
  from opens_reads [OF sv e this] obtain f4 where f4: "idle n 0 f4"
    and rsp: "stream_preamble ord (end_writer B (log_event (end_frames B (hdr, length hdr)) s)) f3
      = (Ok (resp, kind), rest2, end_writer B (log_event (end_frames B (hdr, length hdr) @ pg2) s), f4)" by auto
  from outgoing_ends_made [OF pre opens_party [OF cl] opens_party [OF sv] k s assms(4-7) skip conn rsp hB rA] f4
  show ?thesis by blast
qed

text \<open>
  What the listener makes of a connection that has been accepted: the library's handshake is called
  for one that starts like a request of HTTP.
\<close>

definition client_ends :: "bytes \<Rightarrow> nat \<Rightarrow> connection \<Rightarrow> StanzaRead \<Rightarrow> StanzaWrite \<Rightarrow> bool" where
  "client_ends p n cn ird iwr \<longleftrightarrow>
     (if p = ''GET'' then \<exists>msgs k. conn_websocket cn ws_response (ws_cfg n) = Ok (msgs, k)
          \<and> ird = WebSocketRead msgs \<and> iwr = WebSocketClientWrite k
      else ird = AsyncRead (conn_reader cn) \<and> iwr = AsyncWrite (conn_sink cn))"

lemma outgoing_ends_deliver:
  assumes "peek_bytes 3 pks = Some (Ok p)" and "length p = 3" and "3 \<le> n"
    and "client_ends p n cn ird (end_writer A k)"
    and cl: "opens n is_c2s ird hdr is_c2s pg1 rest1 A us" and k: "faults k = []"
    and "header_attr ''to'' hdr = Ok domain" and "utf8_valid domain"
    and "get_xmpp_connections (net_world net) domain is_c2s = Ok (bad @ c # cs, v)"
    and "config = with_custom_certificate_verifier n is_c2s v"
    and "list_all (out_of_reach n tidy net domain hdr config) bad"
    and "ips_of net c = Ok (dead @ ip # later)" and "list_all (refuses n tidy net domain hdr config c) dead"
    and "reaches n tidy net domain hdr config c ip (end_writer B s, ord)" and "tidy \<or> B = byte_party"
    and sv: "opens n is_c2s ord resp kind pg2 rest2 B vs" and s: "faults s = []"
    and "end_takes B (hdr, length hdr)" and "end_takes A (resp, 0)" and "understood B us" and "understood A vs"
  shows "\<exists>s0 ctx'. handle_outgoing_connection net peek_bytes n ctx pks (conn_reader cn, conn_sink cn) (conn_websocket cn)
        = Some (Ok (is_c2s, s0), ctx')
    \<and> relays_between tracing is_c2s s0 (3 * remaining rest1 + 3 * remaining rest2 + 3)
        A (sent k @ pg1 @ end_frames A (resp, 0)) us B (sent s @ end_frames B (hdr, length hdr) @ pg2) vs"
proof -
  let ?f = "(StanzaFilter_new n)\<lparr>buf := p @ drop 3 (buf (StanzaFilter_new n))\<rparr>"
  have i: "idle n 0 ?f" by (rule sniffed_filter_idle [OF assms(2,3)])
  from outgoing_ends_open [OF i assms(5-19), of ctx] obtain f' ctx' where f': "idle n 0 f'"
    and a: "answer_client net n ctx ird (end_writer A k) ?f
      = (Ok (is_c2s, shuffle_start rest1 (end_writer A (log_event (pg1 @ end_frames A (resp, 0)) k))
           rest2 (end_writer B (log_event (end_frames B (hdr, length hdr) @ pg2) s)) n f'), ctx')" by blast
  have ends: "two_ends tracing is_c2s A B" by (rule two_ends_any [OF opens_party [OF cl] opens_party [OF sv]])
  have "handle_outgoing_connection net peek_bytes n ctx pks (conn_reader cn, conn_sink cn) (conn_websocket cn)
      = Some (answer_client net n ctx ird (end_writer A k) ?f)"
    using assms(1-4) by (auto simp: handle_outgoing_connection_def client_ends_def incoming_websocket_connection_def Let_def)
  moreover have i0: "idle n 0 (StanzaFilter_new n)" using assms(3) by (intro idle_new) simp
  have fl: "faults (log_event (pg1 @ end_frames A (resp, 0)) k) = []" "faults (log_event (end_frames B (hdr, length hdr) @ pg2) s) = []"
    using k s by simp_all
  from two_ends.loop_relays [OF ends opens_start [OF cl f'] opens_start [OF sv i0] assms(20,21) fl]
  have "relays_between tracing is_c2s (shuffle_start rest1 (end_writer A (log_event (pg1 @ end_frames A (resp, 0)) k))
           rest2 (end_writer B (log_event (end_frames B (hdr, length hdr) @ pg2) s)) n f')
        (3 * remaining rest1 + 3 * remaining rest2 + 3)
        A (sent k @ pg1 @ end_frames A (resp, 0)) us B (sent s @ end_frames B (hdr, length hdr) @ pg2) vs"
    by simp
  ultimately show ?thesis using a by auto
qed

section \<open>Properties\<close>

text \<open>C8: a local client that connects to the outgoing listener, over TCP or over a WebSocket, is relayed to
  the first server of the domain its header names that can be reached, over any transport: records
  that cannot be reached and addresses that refuse are passed over (but no attempt in front of a
  WebSocket may have noted a first tag: \<open>tidy\<close>); the server gets the header in the framing of its
  transport, and the client the header that the server answers with in the framing of its own; from
  then on each end gets, whatever the order in which bytes and messages arrive, what the other sends,
  each stanza once, in order and converted where the two transports differ, and a pong for each ping of
  its own.  The loop makes at most three steps per byte and message and three more, and does not fail;
  it stops only by returning, and returns only when a byte stream has ended and everything of it has
  been delivered, or when neither end can be read.\<close>

theorem local_client_is_relayed:
  assumes "i < length cns" and "cns ! i = (cn, client)"
    and "peek_bytes_of l 3 (conn_peeks cn) = Some (Ok p)" and "3 \<le> n"
    and "client_ends p n cn ird (end_writer A k)"
    and "opens n is_c2s ird hdr is_c2s pg1 rest1 A us" and "faults k = []"
    and "header_attr ''to'' hdr = Ok domain" and "utf8_valid domain"
    and "get_xmpp_connections (net_world net) domain is_c2s = Ok (bad @ c # cs, v)"
    and "config = with_custom_certificate_verifier n is_c2s v"
    and "list_all (out_of_reach n tidy net domain hdr config) bad"
    and "ips_of net c = Ok (dead @ ip # later)" and "list_all (refuses n tidy net domain hdr config c) dead"
    and "reaches n tidy net domain hdr config c ip (end_writer B s, ord)" and "tidy \<or> B = byte_party"
    and "opens n is_c2s ord resp kind pg2 rest2 B vs" and "faults s = []"
    and "end_takes B (hdr, length hdr)" and "end_takes A (resp, 0)" and "understood B us" and "understood A vs"
  shows "\<exists>s0 ctx'. fst (spawn_outgoing_listener net l n (map Ok cns @ failed)) ! i = Some (Ok (is_c2s, s0), ctx')
    \<and> relays_between tracing is_c2s s0 (3 * remaining rest1 + 3 * remaining rest2 + 3)
        A (sent k @ pg1 @ end_frames A (resp, 0)) us B (sent s @ end_frames B (hdr, length hdr) @ pg2) vs"
  unfolding outgoing_listener_serves [OF assms(1,2)]
  by (rule outgoing_ends_deliver [where peek_bytes = "peek_bytes_of l", OF assms(3) peek_bytes_length [OF assms(3)] assms(4-22)])

text \<open>A client over a WebSocket, which pings while it waits, and the server of \<open>published_net\<close>.\<close>

definition browser_open :: bytes where
  "browser_open = ''<open to='' @ CHR 0x27 # ''a'' @ CHR 0x27 # '' xmlns='' @ CHR 0x22 # ns_framing @ CHR 0x22 # ''/>''"

definition browser_messages :: "ws_event list" where
  "browser_messages = [WsMsg (WsPing ''p''), WsMsg (WsText ''<a/>'')]"

definition browser :: connection where
  "browser =
     \<lparr>conn_peeks = [Peeked ''GET'' False], conn_reader = [], conn_sink = no_sink, conn_accept = (\<lambda>rd wr. Err IoError),
      conn_websocket = (\<lambda>r c. Ok (ws_input [] browser_open browser_messages, no_sink)), conn_random = []\<rparr>"

lemma browser_header:
  "prefix ''<stream:stream '' (from_ws browser_open)" "length (from_ws browser_open) \<le> 120"
  "declares_client (from_ws browser_open) = True" "header_attr ''to'' (from_ws browser_open) = Ok ''a''"
  by code_simp+

lemma local_client_is_relayed_witness:
  "let hdr = from_ws browser_open; resp = preamble [([], ''v?'')] server_header;
       ys = [([], Stanza (EmptyElem (CHR ''f'', [])))]; A = web_party True 120
   in \<exists>s0 ctx'. fst (spawn_outgoing_listener published_net (ListenTcp (0 :: nat)) 120 (map Ok [(browser, loopback)] @ [])) ! 0
        = Some (Ok (True, s0), ctx')
    \<and> relays_between False True s0 (3 * remaining (WebSocketRead browser_messages) + 3 * remaining (AsyncRead (map RByte (show_stream ys @ []))) + 3)
        A (sent no_sink @ concat (map pong []) @ end_frames A (resp, 0)) (map Ws browser_messages)
        byte_party (sent no_sink @ end_frames byte_party (hdr, length hdr) @ []) (map (Xml \<circ> snd) ys)"
proof -
  let ?ys = "[([], Stanza (EmptyElem (CHR ''f'', [])))]"
  let ?cfg = "with_custom_certificate_verifier 120 True published_verifier"
  have p: "peek_bytes_of (ListenTcp (0 :: nat)) 3 (conn_peeks browser) = Some (Ok ''GET'')" by code_simp
  have f: "fits 120 ?ys" "decls_ok 120 [([], ''v?'')]" unfolding fits_def decls_ok_def by code_simp+
  have h: "length (show_item server_header) \<le> 120" "\<not> declares_client (show_item server_header)" by code_simp+
  have m: "texts_fit 120 browser_messages" unfolding texts_fit_def browser_messages_def by (auto simp: from_ws_def)
  have cl: "opens 120 True (WebSocketRead (ws_input [] browser_open browser_messages)) (from_ws browser_open) True (concat (map pong []))
      (WebSocketRead browser_messages) (web_party True 120) (map Ws browser_messages)"
    using opens.Web [OF browser_header(1,2) m, of True "[]"] browser_header(3) by simp
  have r: "header_input [([], ''v?'')] '' '' server_header (show_stream ?ys @ [])
      = AsyncRead (map RByte (show_stream (map (apsnd XmlDecl) [([], ''v?'')]) @ '' '' @ show_item server_header @ ''<f/>''))"
    unfolding header_input_def by code_simp
  have sv: "opens 120 True (header_input [([], ''v?'')] '' '' server_header (show_stream ?ys @ [])) (preamble [([], ''v?'')] server_header) False []
      (AsyncRead (map RByte (show_stream ?ys @ []))) byte_party (map (Xml \<circ> snd) ?ys)"
    using opens.Bytes [OF example_headers(5,6) h(1) _ f(2) f(1), of "'' ''" "[]" True] h(2) by simp
  have g: "get_xmpp_connections (net_world published_net) ''a'' True = Ok ([] @ published_conn # [], published_verifier)"
    using published_conns by (simp add: published_net_def)
  have i: "ips_of published_net published_conn = Ok ([] @ V4 1 # [])" by (simp add: ips_of_def published_conn_def)
  have t: "reaches 120 True published_net ''a'' (from_ws browser_open) ?cfg published_conn (V4 1)
      (end_writer byte_party no_sink, header_input [([], ''v?'')] '' '' server_header (show_stream ?ys @ []))"
    unfolding r
  proof -
    have n: "server_name (net_world published_net) ''b'' = Ok ''b''" by code_simp
    show "reaches 120 True published_net ''a'' (from_ws browser_open) ?cfg published_conn (V4 1) (end_writer byte_party no_sink,
        AsyncRead (map RByte (show_stream (map (apsnd XmlDecl) [([], ''v?'')]) @ '' '' @ show_item server_header @ ''<f/>'')))"
      using n by (simp add: reaches_def try_ip_def tls_connect_def published_conn_def published_net_def example_net_def byte_io_def byte_party_def)
  qed
  have k: "end_takes (web_party True 120) (preamble [([], ''v?'')] server_header, 0)"
    unfolding web_party_def party.simps by code_simp
  have "list_all (\<lambda>x. ok_item x \<and> sendable x) (map snd ?ys)" by code_simp
  from items_understood [OF this, of True 120] have u: "understood (web_party True 120) (map (Xml \<circ> snd) ?ys)" by simp
  show ?thesis unfolding Let_def
    by (rule local_client_is_relayed [OF _ _ p _ _ cl _ browser_header(4) _ g refl _ i _ t _ sv _ _ k bytes_understood u])
      (simp_all add: client_ends_def browser_def web_party_def byte_party_def is_ascii_def utf8_valid_ascii ws_cfg_def)
qed

lemma stanza_not_close:
  assumes "stanza_node y" shows "\<not> prefix ''</stream:stream'' (show_node y)"
proof -
  from assms have "is_elem y" "ok_node y" by (simp_all add: stanza_node_def)
  then show ?thesis by (cases y) (auto simp: show_tag_def ok_open_tag_def ok_tag_def)
qed

lemma write_converted:
  "\<not> prefix ''<?xml '' bs \<Longrightarrow> faults s = [] \<Longrightarrow> write_and_flush tr c bs e (WebSocketClientWrite s) =
     (case to_ws_new bs e c of
        Ok t \<Rightarrow> (Ok (), WebSocketClientWrite (log_event [Fed (WsText t), Flushed] s))
      | Err er \<Rightarrow> (Err er, WebSocketClientWrite s)
      | Panic \<Rightarrow> (Panic, WebSocketClientWrite s))"
  by (cases "to_ws_new bs e c") (simp_all add: write_and_flush_def write_ws_def sink_ok)

lemma to_ws_past_end:
  "\<not> prefix ''<stream:stream '' bs \<Longrightarrow> \<not> prefix ''</stream:stream'' bs \<Longrightarrow> length bs < e \<Longrightarrow> to_ws_new bs e c = Panic"
  by (cases e) (simp_all add: to_ws_new_def)

lemma proceed_noted:
  assumes "ok_item pr" and "prefix ''<proceed '' (show_item pr)"
  shows "item_eoft pr \<noteq> 0"
proof (cases pr)
  case (Stanza y)
  with assms(1) show ?thesis using first_tag_at(1) [of y] by simp
qed (use assms in auto)

text \<open>C34: a client over TCP whose stanzas are converted at the wrong place: the first server holds the
  dialogue of STARTTLS and then fails the handshake, the next one is reached over a WebSocket.  What
  was read in the dialogue has left the place of the end of its first tag in the filter, where the
  header of the second server does not take it away, so that the first stanza of the client is
  converted as if its first tag ended there (a declaration of a namespace that those bytes lack is put
  in at that place), and a stanza that is shorter than that makes the task panic.\<close>

theorem stale_first_tag_end:
  assumes "idle n 0 f" and "opens n is_c2s ird hdr is_c2s pg1 (AsyncRead (map RByte (w1 @ show_item x @ rest))) byte_party us"
    and "faults k = []" and "header_attr ''to'' hdr = Ok domain" and "utf8_valid domain"
    and "get_xmpp_connections (net_world net) domain is_c2s = Ok (c1 # c2 # cs, v)"
    and "config = with_custom_certificate_verifier n is_c2s v"
    and "conn_type c1 = StartTLS" and "ips_of net c1 = Ok [ip1]" and "server_name (net_world net) (conn_name c1 domain) = Ok nm"
    and "tcp_connect net (socket_addr ip1 (port c1)) = Ok (map RByte (show_stream zs @ ws @ show_item pr @ junk), k1)"
    and "faults k1 = []" and "list_all (awaits_starttls n) zs" and "ok_item pr" and "length (show_item pr) \<le> n"
    and "CHR ''<'' \<notin> set ws" and "prefix ''<proceed '' (show_item pr)"
    and "tls_handshake net (connector config) nm (socket_addr ip1 (port c1)) = Err err"
    and "conn_type c2 = WebSocket url origin" and "ips_of net c2 = Ok (ip2 # later)"
    and "reaches n False net domain hdr config c2 ip2 (WebSocketClientWrite s, ord)"
    and "opens n is_c2s ord resp kind pg2 rest2 (web_party is_c2s n) vs" and "faults s = []"
    and "end_takes (web_party is_c2s n) (hdr, length hdr)"
    and "ok_item x" and "x = Stanza y" and "length (show_item x) \<le> n" and "CHR ''<'' \<notin> set w1"
    and "e = noted 0 (map snd zs @ [pr])"
  shows "\<exists>s0 ctx' s' sx. answer_client net n ctx ird (AsyncWrite k) f = (Ok (is_c2s, s0), ctx')
    \<and> out_wr s0 = WebSocketClientWrite sx \<and> shuffle_run tracing is_c2s s0 s'
    \<and> (case to_ws_new (show_item x) e is_c2s of
          Ok t \<Rightarrow> out_wr s' = WebSocketClientWrite (log_event [Fed (WsText t), Flushed] sx)
        | Err er \<Rightarrow> finished s' = Some (Err er)
        | Panic \<Rightarrow> finished s' = Some Panic)
    \<and> (length (show_item x) < e \<longrightarrow> to_ws_new (show_item x) e is_c2s = Panic)"
proof -
  have A: "byte_party \<in> {byte_party, web_party is_c2s n}" and B: "web_party is_c2s n \<in> {byte_party, web_party is_c2s n}" by simp_all
  from opens_reads [OF assms(2,1) _ assms(3)] obtain f1 where f1: "idle n 0 f1"
    and pre: "stream_preamble ird (end_writer byte_party k) f
      = (Ok (hdr, is_c2s), AsyncRead (map RByte (w1 @ show_item x @ rest)), end_writer byte_party (log_event pg1 k), f1)" by blast
  from starttls_attempt [OF f1 assms(8,10-17), of hdr config] obtain f2 where f2: "idle n e f2"
    and t1: "try_ip net c1 domain hdr f1 config (socket_addr ip1 (port c1)) = (Err err, f2)" by (auto simp: assms(18,29))
  have skip: "srv_connect_loop net domain is_c2s hdr config (c1 # c2 # cs) f1 ctx
      = srv_connect_loop net domain is_c2s hdr config (c2 # cs) f2 ctx" for ctx
    using t1 by (simp add: conn_connect_def assms(9) Let_def)
  from f2 have "at_rest n False f2" by (auto simp: at_rest_def)
  with assms(21) obtain prt f3 where t2: "try_ip net c2 domain hdr f2 config (socket_addr ip2 (port c2))
      = (Ok ((WebSocketClientWrite s, ord), prt), f3)"
    unfolding reaches_def by blast
  then have "f3 = f2" by (simp add: try_ip_def assms(19) Let_def)
  with t2 have conn: "conn_connect net c2 domain hdr f2 config
      = (Ok ((end_writer (web_party is_c2s n) s, ord), socket_addr ip2 (port c2), prt), f2)"
    by (simp add: conn_connect_def assms(20) web_party_def Let_def)
  let ?pg = "end_frames (web_party is_c2s n) (hdr, length hdr)"
  have "\<exists>f4. idle n e f4 \<and> stream_preamble ord (end_writer (web_party is_c2s n) (log_event ?pg s)) f2
      = (Ok (resp, kind), rest2, end_writer (web_party is_c2s n) (log_event (?pg @ pg2) s), f4)"
    using assms(22)
  proof (cases rule: opens.cases)
    case (Web t es ps)
    have "faults (log_event ?pg s) = []" using assms(23) by simp
    from ws_header_read [OF f2 this Web(7,8), of ps es] show ?thesis
      unfolding Web(1-5) by (simp add: web_party_def)
  qed (use web_not_bytes [of is_c2s n] in simp)
  then obtain f4 where f4: "idle n e f4"
    and rsp: "stream_preamble ord (end_writer (web_party is_c2s n) (log_event ?pg s)) f2
      = (Ok (resp, kind), rest2, end_writer (web_party is_c2s n) (log_event (?pg @ pg2) s), f4)" by blast
  have rA: "end_takes byte_party (resp, 0)" by (simp add: byte_party_def)
  let ?s0 = "shuffle_start (AsyncRead (map RByte (w1 @ show_item x @ rest))) (end_writer byte_party (log_event (pg1 @ end_frames byte_party (resp, 0)) k))
      rest2 (end_writer (web_party is_c2s n) (log_event (?pg @ pg2) s)) n f4"
  let ?sx = "log_event (?pg @ pg2) s"
  from outgoing_ends_made [OF pre A B assms(3,23,4-7) skip conn rsp assms(24) rA, of ctx] obtain ctx'
    where a: "answer_client net n ctx ird (AsyncWrite k) f = (Ok (is_c2s, ?s0), ctx')" by (auto simp: byte_party_def)
  have "\<not> is_decl x" by (simp add: assms(26))
  with not_decl_item assms(25) have d: "\<not> prefix ''<?xml '' (show_item x)" by blast
  have "stanza_node y" using assms(25) by (simp add: assms(26))
  with header_item [OF assms(25)] have o: "\<not> prefix ''<stream:stream '' (show_item x)" "\<not> prefix ''</stream:stream'' (show_item x)"
    by (simp_all add: assms(26) stanza_not_close)
  have e: "e \<noteq> 0" using proceed_noted [OF assms(14,17)] by (simp add: assms(29) noted_snoc)
  from next_eoft_item_any [OF f4 assms(25,27,28), of rest] e obtain f5
    where rd: "reader_next_eoft (map RByte (w1 @ show_item x @ rest)) f4 = (Ok (Some (show_item x, e)), map RByte rest, f5)"
    by auto
  let ?s1 = "in_written (map RByte rest) f5 (write_and_flush tracing is_c2s (show_item x) e (out_wr ?s0)) ?s0"
  have run: "shuffle_run tracing is_c2s ?s0 ?s1"
    by (rule run_in_stanza) (use rd in \<open>simp_all add: shuffle_start_def\<close>)
  have w: "out_wr ?s0 = WebSocketClientWrite ?sx" by (simp add: shuffle_start_def web_party_def)
  have "faults ?sx = []" using assms(23) by simp
  note wr = write_converted [OF d this, of tracing is_c2s e]
  have "case to_ws_new (show_item x) e is_c2s of
          Ok t \<Rightarrow> out_wr ?s1 = WebSocketClientWrite (log_event [Fed (WsText t), Flushed] ?sx)
        | Err er \<Rightarrow> finished ?s1 = Some (Err er)
        | Panic \<Rightarrow> finished ?s1 = Some Panic"
    unfolding w wr in_written_def by (cases "to_ws_new (show_item x) e is_c2s") (simp_all del: show_item.simps)
  moreover have "length (show_item x) < e \<longrightarrow> to_ws_new (show_item x) e is_c2s = Panic"
    using o by (simp add: to_ws_past_end)
  ultimately show ?thesis using a w run by blast
qed

text \<open>
  A domain with a record for STARTTLS and, after it, a WebSocket; the handshake at the first one fails, as
  it does for a certificate that is not valid.
\<close>

definition fallback_world :: "(bytes, bytes, bytes, bytes) world" where
  "fallback_world = example_world\<lparr>get_https := (\<lambda>url. Err IoError),
     srv_lookup := (\<lambda>n. if n = ''_xmpp-client._tcp.a.''
        then Ok [SRV \<lparr>srv_priority = 1, srv_weight = 2, srv_port = 5222, srv_is_root = False, srv_target = ''a.''\<rparr>] else Err IoError),
     txt_lookup := (\<lambda>n. Ok [TXT [''_xmpp-client-websocket=wss://a'']]), uri_host := (\<lambda>u. Some ''a'')\<rparr>"

definition proceed_item :: item where
  "proceed_item = Stanza (EmptyElem (CHR ''p'', map Plain ''roceed x''))"

definition fallback_net :: "(bytes, bytes, bytes, bytes) net" where
  "fallback_net = published_net\<lparr>net_world := fallback_world,
     tcp_connect := (\<lambda>a. Ok (if sa_port a = 443 then [] else map RByte (show_stream [([], server_header)] @ [] @ show_item proceed_item @ []), no_sink)),
     tls_handshake := (\<lambda>c n a. if sa_port a = 443 then Ok ([], no_sink) else Err IoError),
     ws_client := (\<lambda>u h c s. Ok (ws_input [] browser_open [], no_sink))\<rparr>"

definition fallback_conns :: "(bytes, bytes) XmppConnection list" where
  "fallback_conns =
     [\<lparr>conn_type = StartTLS, priority = 1, weight = 2, port = 5222, target = ''a.'', secure = False, ips = [], ech = None\<rparr>,
      \<lparr>conn_type = WebSocket ''wss://a'' ''https://a'', priority = 65535, weight = 0, port = 443, target = ''a'', secure = False,
       ips = [], ech = None\<rparr>]"

lemma fallback_world_conns: "get_xmpp_connections fallback_world ''a'' True = Ok (fallback_conns, example_verifier)"
  by code_simp

lemma stale_first_tag_end_witness:
  "\<exists>s0 ctx' s'. answer_client fallback_net 120 example_ctx
        (header_input [([], ''v?'')] '' '' client_header (show_stream [([], Stanza (EmptyElem (CHR ''a'', [])))] @ []))
        (AsyncWrite no_sink) (StanzaFilter_new 120) = (Ok (True, s0), ctx')
    \<and> shuffle_run False True s0 s' \<and> finished s' = Some Panic"
proof -
  let ?x = "Stanza (EmptyElem (CHR ''a'', []))"
  let ?xs = "[([], ?x)] :: (bytes \<times> item) list"
  let ?zs = "[([], server_header)] :: (bytes \<times> item) list"
  let ?cfg = "with_custom_certificate_verifier 120 True example_verifier"
  have f: "fits 120 ?xs" "decls_ok 120 [([], ''v?'')]" unfolding fits_def decls_ok_def by code_simp+
  have r: "AsyncRead (map RByte (show_stream ?xs @ [])) = AsyncRead (map RByte ([] @ show_item ?x @ []))" by code_simp
  have h: "length (show_item client_header) \<le> 120" by code_simp
  have cl: "opens 120 True (header_input [([], ''v?'')] '' '' client_header (show_stream ?xs @ [])) (preamble [([], ''v?'')] client_header) True []
      (AsyncRead (map RByte ([] @ show_item ?x @ []))) byte_party (map (Xml \<circ> snd) ?xs)"
    using opens.Bytes [OF example_headers(1,2) h _ f(2) f(1), of "'' ''" "[]" True] example_headers(4) unfolding r [symmetric] by simp
  have g: "get_xmpp_connections (net_world fallback_net) ''a'' True = Ok (fallback_conns ! 0 # fallback_conns ! 1 # [], example_verifier)"
    using fallback_world_conns by (simp add: fallback_net_def fallback_conns_def)
  have t: "tcp_connect fallback_net (socket_addr (V4 1) (port (fallback_conns ! 0)))
      = Ok (map RByte (show_stream ?zs @ [] @ show_item proceed_item @ []), no_sink)"
    by (simp add: fallback_net_def fallback_conns_def del: map_append append.simps)
  have z: "list_all (awaits_starttls 120) ?zs" "ok_item proceed_item" "length (show_item proceed_item) \<le> 120"
    "prefix ''<proceed '' (show_item proceed_item)" unfolding awaits_starttls_def by code_simp+
  have q: "server_name (net_world fallback_net) ''a'' = Ok ''a''" by code_simp
  have w: "reaches 120 False fallback_net ''a'' (preamble [([], ''v?'')] client_header) ?cfg (fallback_conns ! 1) (V4 1)
      (WebSocketClientWrite no_sink, WebSocketRead (ws_input [] browser_open []))"
    using q by (auto simp: reaches_def try_ip_def websocket_connect_def fallback_conns_def fallback_net_def published_net_def example_net_def Let_def)
  have sv: "opens 120 True (WebSocketRead (ws_input [] browser_open [])) (from_ws browser_open) True (concat (map pong []))
      (WebSocketRead []) (web_party True 120) (map Ws [])"
    using opens.Web [OF browser_header(1,2), of "[]" True "[]"] browser_header(3) by (simp add: texts_fit_def)
  have k: "end_takes (web_party True 120) (preamble [([], ''v?'')] client_header, length (preamble [([], ''v?'')] client_header))"
    unfolding web_party_def party.simps by code_simp
  have nm: "server_name (net_world fallback_net) (conn_name (fallback_conns ! 0) ''a'') = Ok ''a''" by code_simp
  have x: "ok_item ?x" "length (show_item ?x) \<le> 120" by code_simp+
  have "\<exists>s0 ctx' s' sx. answer_client fallback_net 120 example_ctx
        (header_input [([], ''v?'')] '' '' client_header (show_stream ?xs @ [])) (AsyncWrite no_sink) (StanzaFilter_new 120) = (Ok (True, s0), ctx')
    \<and> out_wr s0 = WebSocketClientWrite sx \<and> shuffle_run False True s0 s'
    \<and> (case to_ws_new (show_item ?x) (noted 0 (map snd ?zs @ [proceed_item])) True of
          Ok t \<Rightarrow> out_wr s' = WebSocketClientWrite (log_event [Fed (WsText t), Flushed] sx)
        | Err er \<Rightarrow> finished s' = Some (Err er)
        | Panic \<Rightarrow> finished s' = Some Panic)
    \<and> (length (show_item ?x) < noted 0 (map snd ?zs @ [proceed_item])
        \<longrightarrow> to_ws_new (show_item ?x) (noted 0 (map snd ?zs @ [proceed_item])) True = Panic)"
    by (rule stale_first_tag_end [OF idle_new cl _ example_headers(8) _ g refl _ _ nm t _ z(1-3) _ z(4) _ _ _ w sv _ k x(1) refl x(2) _ refl])
      (simp_all add: fallback_net_def published_net_def example_net_def fallback_conns_def ips_of_def is_ascii_def utf8_valid_ascii)
  moreover have "length (show_item ?x) < noted 0 (map snd ?zs @ [proceed_item])" by code_simp
  ultimately show ?thesis by auto
qed

end
