(* ===== verification/Lazy_Cell.thy ===== *)
theory Lazy_Cell
  imports Prelude
begin

text \<open>
  Statics of type \<open>LazyLock\<close>, which are computed when they are first used, and the reason why they can be
  taken for constants, as the locale \<open>once_cell\<close>: an initialiser that gives the same result in every
  state the program can be in gives that result to every user.

  A \<open>LazyLock\<close> whose initialiser has panicked is poisoned, and every later use of it panics.
\<close>

datatype 'a lazy = Unused | Value 'a | Poisoned

definition deref :: "('s \<Rightarrow> 'a lazy) \<Rightarrow> ('a lazy \<Rightarrow> 's \<Rightarrow> 's) \<Rightarrow> ('s \<Rightarrow> 'a outcome \<times> 's) \<Rightarrow> 's \<Rightarrow> 'a outcome \<times> 's" where
  "deref get put init st =
     (case get st of
        Value a \<Rightarrow> (Ok a, st)
      | Poisoned \<Rightarrow> (Panic, st)
      | Unused \<Rightarrow>
          (case init st of
             (Ok a, st) \<Rightarrow> (Ok a, put (Value a) st)
           | (_, st) \<Rightarrow> (Panic, put Poisoned st)))"

definition expect :: "'a outcome \<Rightarrow> 'a outcome" where
  "expect r = (case r of Ok a \<Rightarrow> Ok a | _ \<Rightarrow> Panic)"

lemma expect_simps [simp]: "expect (Ok a) = Ok a" "expect (Err e) = Panic" "expect Panic = Panic" "expect (expect r) = expect r"
  by (simp_all add: expect_def split: outcome.split)

text \<open>The content of a cell whose initialiser can only give one result.\<close>

definition cell_holds :: "'a outcome \<Rightarrow> 'a lazy \<Rightarrow> bool" where
  "cell_holds val c \<longleftrightarrow> c = Unused \<or> c = (case val of Ok a \<Rightarrow> Value a | _ \<Rightarrow> Poisoned)"

locale once_cell =
  fixes inv :: "'s \<Rightarrow> bool"
    and get :: "'s \<Rightarrow> 'a lazy"
    and put :: "'a lazy \<Rightarrow> 's \<Rightarrow> 's"
    and init :: "'s \<Rightarrow> 'a outcome \<times> 's"
    and val :: "'a outcome"
  assumes cell_settled: "inv st \<Longrightarrow> cell_holds val (get st)"
    and put_inv: "inv st \<Longrightarrow> cell_holds val c \<Longrightarrow> inv (put c st)"
    and init_val: "inv st \<Longrightarrow> init st = (r, st') \<Longrightarrow> expect r = expect val \<and> inv st'"
begin

lemma deref_val:
  assumes "inv st"
  shows "fst (deref get put init st) = expect val \<and> inv (snd (deref get put init st))"
proof (cases "get st = Unused")
  case True
  obtain r st' where i: "init st = (r, st')" by (cases "init st")
  note v = init_val [OF assms i]
  show ?thesis
  proof (cases r)
    case (Ok a)
    with v have "val = Ok a" by (cases val) (simp_all add: expect_def)
    with True i v Ok put_inv [of st' "Value a"] show ?thesis by (simp add: deref_def cell_holds_def expect_def)
  next
    case (Err e)
    with v have "\<not> is_ok val" by (cases val) (simp_all add: expect_def)
    with True i v Err put_inv [of st' Poisoned] show ?thesis by (cases val) (simp_all add: deref_def cell_holds_def expect_def)
  next
    case Panic
    with v have "\<not> is_ok val" by (cases val) (simp_all add: expect_def)
    with True i v Panic put_inv [of st' Poisoned] show ?thesis by (cases val) (simp_all add: deref_def cell_holds_def expect_def)
  qed
next
  case False
  with cell_settled [OF assms] assms show ?thesis
    by (cases val) (simp_all add: deref_def cell_holds_def expect_def)
qed

end

end
