(* ===== verification/Process_Statics.thy ===== *)
theory Process_Statics
  imports Certs_Key Lazy_Cell
begin

text \<open>
  The state of the process that is set once: the default provider of cryptography, which
  \<open>install_default_rustls_provider\<close> of \<open>src/lib.rs\<close> installs, and the statics that are computed when
  they are first used, \<open>ROOT_STORE\<close>, \<open>SERVER_VERIFIER\<close> and \<open>TLS_SERVER_ROOTS\<close> of
  \<open>src/common/ca_roots.rs\<close> and \<open>SUPPORTED_SIG_ALGS\<close> of \<open>src/verify.rs\<close>, with the functions that use them.
\<close>

section \<open>The provider of cryptography\<close>

record ('alg, 'pem, 'sk) CryptoProvider =
  signature_verification_algorithms :: "'alg list"
  load_private_key :: "'pem \<Rightarrow> 'sk outcome"
  cipher_suites :: "CipherSuite list"

text \<open>Where the trust anchors come from is chosen at compile time.\<close>

datatype 'r root_source = WebpkiRoots "'r list" | NativeCerts "bytes list"

record ('r, 'v, 'alg, 'pem, 'sk) statics =
  default_provider :: "('alg, 'pem, 'sk) CryptoProvider option"
  ROOT_STORE :: "'r list lazy"
  SERVER_VERIFIER :: "'v lazy"
  TLS_SERVER_ROOTS :: "'r list lazy"
  SUPPORTED_SIG_ALGS :: "'alg list lazy"

definition initial_statics :: "('r, 'v, 'alg, 'pem, 'sk) statics" where
  "initial_statics =
     \<lparr>default_provider = None, ROOT_STORE = Unused, SERVER_VERIFIER = Unused, TLS_SERVER_ROOTS = Unused, SUPPORTED_SIG_ALGS = Unused\<rparr>"

text \<open>
  \<open>install_default\<close> sets the provider unless there is one, else it hands the new one back.  The
  provider is that of the library chosen at compile time.
\<close>

definition install_default_rustls_provider ::
    "('alg, 'pem, 'sk) CryptoProvider \<Rightarrow> ('r, 'v, 'alg, 'pem, 'sk) statics 
      \<Rightarrow> (('alg, 'pem, 'sk) CryptoProvider + unit) \<times> ('r, 'v, 'alg, 'pem, 'sk) statics"
where
  "install_default_rustls_provider p st =
     (case default_provider st of
        None \<Rightarrow> (Inr (), st\<lparr>default_provider := Some p\<rparr>)
      | Some q \<Rightarrow> (Inl p, st))"

lemma install_first [simp]:
  "install_default_rustls_provider p initial_statics = (Inr (), initial_statics\<lparr>default_provider := Some p\<rparr>)"
  by (simp add: install_default_rustls_provider_def initial_statics_def)

section \<open>Trust anchors\<close>

text \<open>
  The libraries: the anchor of a certificate, when it can be parsed, making a verifier, and what a
  verifier does with signatures; and the check of a certificate with given algorithms and anchors.
\<close>

record ('r, 'v, 'alg, 'pem, 'sk, 't, 'd) pki_lib =
  anchor_of :: "bytes \<Rightarrow> 'r option"
  build_verifier :: "('alg, 'pem, 'sk) CryptoProvider option \<Rightarrow> 'r list \<Rightarrow> 'v outcome"
  tls12_signature :: "'v \<Rightarrow> bytes \<Rightarrow> bytes \<Rightarrow> 'd \<Rightarrow> unit outcome"
  tls13_signature :: "'v \<Rightarrow> bytes \<Rightarrow> bytes \<Rightarrow> 'd \<Rightarrow> unit outcome"
  verify_schemes :: "'v \<Rightarrow> 16 word list"
  parse_ee :: "bytes \<Rightarrow> webpki_error + unit"
  verify_with :: "'alg list \<Rightarrow> 'r list \<Rightarrow> bytes \<Rightarrow> bytes list \<Rightarrow> 't \<Rightarrow> webpki_error + unit"

fun root_store :: "('r, 'v, 'alg, 'pem, 'sk, 't, 'd) pki_lib \<Rightarrow> 'r root_source \<Rightarrow> 'r list" where
  "root_store lib (WebpkiRoots roots) = roots"
| "root_store lib (NativeCerts certs) = List.map_filter (anchor_of lib) certs"

type_synonym ('a, 'r, 'v, 'alg, 'pem, 'sk) use =
  "('r, 'v, 'alg, 'pem, 'sk) statics \<Rightarrow> 'a outcome \<times> ('r, 'v, 'alg, 'pem, 'sk) statics"

definition use_ROOT_STORE ::
    "('r, 'v, 'alg, 'pem, 'sk, 't, 'd) pki_lib \<Rightarrow> 'r root_source \<Rightarrow> ('r list, 'r, 'v, 'alg, 'pem, 'sk) use"
where
  "use_ROOT_STORE lib src = deref ROOT_STORE (\<lambda>c. ROOT_STORE_update (\<lambda>_. c)) (\<lambda>st. (Ok (root_store lib src), st))"

definition use_SERVER_VERIFIER ::
    "('r, 'v, 'alg, 'pem, 'sk, 't, 'd) pki_lib \<Rightarrow> 'r root_source \<Rightarrow> ('v, 'r, 'v, 'alg, 'pem, 'sk) use"
where
  "use_SERVER_VERIFIER lib src = deref SERVER_VERIFIER (\<lambda>c. SERVER_VERIFIER_update (\<lambda>_. c))
     (\<lambda>st. case use_ROOT_STORE lib src st of
             (Ok roots, st) \<Rightarrow> (expect (build_verifier lib (default_provider st) roots), st)
           | (_, st) \<Rightarrow> (Panic, st))"

definition use_TLS_SERVER_ROOTS ::
    "('r, 'v, 'alg, 'pem, 'sk, 't, 'd) pki_lib \<Rightarrow> 'r root_source \<Rightarrow> ('r list, 'r, 'v, 'alg, 'pem, 'sk) use"
where
  "use_TLS_SERVER_ROOTS lib src =
     deref TLS_SERVER_ROOTS (\<lambda>c. TLS_SERVER_ROOTS_update (\<lambda>_. c)) (use_ROOT_STORE lib src)"

definition use_SUPPORTED_SIG_ALGS :: "('alg list, 'r, 'v, 'alg, 'pem, 'sk) use" where
  "use_SUPPORTED_SIG_ALGS = deref SUPPORTED_SIG_ALGS (\<lambda>c. SUPPORTED_SIG_ALGS_update (\<lambda>_. c))
     (\<lambda>st. (case default_provider st of Some p \<Rightarrow> Ok (signature_verification_algorithms p) | None \<Rightarrow> Panic, st))"

section \<open>What uses them\<close>

text \<open>\<open>verify_is_valid_tls_server_cert\<close>, whose arguments are evaluated only for a certificate that can be parsed.\<close>

definition verify_server_cert_now ::
    "('r, 'v, 'alg, 'pem, 'sk, 't, 'd) pki_lib \<Rightarrow> 'r root_source \<Rightarrow> bytes \<Rightarrow> bytes list \<Rightarrow> 't \<Rightarrow> (bytes, 'r, 'v, 'alg, 'pem, 'sk) use"
where
  "verify_server_cert_now lib src end_entity intermediates now st =
     (case map_pki_err (parse_ee lib end_entity) of
        Ok cert \<Rightarrow>
          (case use_SUPPORTED_SIG_ALGS st of
             (Ok algs, st) \<Rightarrow>
               (case use_TLS_SERVER_ROOTS lib src st of
                  (Ok roots, st) \<Rightarrow>
                    (bind_ok (map_pki_err (verify_with lib algs roots end_entity intermediates now)) (\<lambda>u. Ok end_entity), st)
                | (_, st) \<Rightarrow> (Panic, st))
           | (_, st) \<Rightarrow> (Panic, st))
      | Err e \<Rightarrow> (Err e, st)
      | Panic \<Rightarrow> (Panic, st))"

text \<open>The three methods that both verifiers of \<open>src/verify.rs\<close> have in common.\<close>

definition with_verifier ::
    "('r, 'v, 'alg, 'pem, 'sk, 't, 'd) pki_lib \<Rightarrow> 'r root_source \<Rightarrow> ('v \<Rightarrow> 'a outcome) \<Rightarrow> ('a, 'r, 'v, 'alg, 'pem, 'sk) use"
where
  "with_verifier lib src k st =
     (case use_SERVER_VERIFIER lib src st of
        (Ok v, st) \<Rightarrow> (k v, st)
      | (_, st) \<Rightarrow> (Panic, st))"

definition verify_tls12_signature where
  "verify_tls12_signature lib src message cert dss = with_verifier lib src (\<lambda>v. tls12_signature lib v message cert dss)"

definition verify_tls13_signature where
  "verify_tls13_signature lib src message cert dss = with_verifier lib src (\<lambda>v. tls13_signature lib v message cert dss)"

definition supported_verify_schemes where
  "supported_verify_schemes lib src = with_verifier lib src (\<lambda>v. Ok (verify_schemes lib v))"

text \<open>The key and the first cipher suite are found with the installed provider.\<close>

definition read_key_now ::
    "'pem outcome list outcome \<Rightarrow> bytes outcome list outcome \<Rightarrow> ('r, 'v, 'alg, 'pem, 'sk) statics \<Rightarrow> (bytes list \<times> 'sk) outcome"
where
  "read_key_now key_file cert_file st = read_certified_key (map_option load_private_key (default_provider st)) key_file cert_file"

definition initial_suite_now :: "('r, 'v, 'alg, 'pem, 'sk) statics \<Rightarrow> bytes outcome" where
  "initial_suite_now st = initial_suite_from_provider (map_option cipher_suites (default_provider st))"

text \<open>What the threads of the process do with them, one after the other, and what each gets.\<close>

datatype ('alg, 'pem, 'sk, 't, 'd) action =
    Install "('alg, 'pem, 'sk) CryptoProvider"
  | CheckCert bytes "bytes list" 't
  | CheckTls12 bytes bytes 'd
  | CheckTls13 bytes bytes 'd
  | AskSchemes
  | ReadKey "'pem outcome list outcome" "bytes outcome list outcome"
  | AskSuite

datatype ('alg, 'pem, 'sk) answer =
    Installed "('alg, 'pem, 'sk) CryptoProvider + unit"
  | Done "unit outcome"
  | Cert "bytes outcome"
  | Schemes "16 word list outcome"
  | Key "(bytes list \<times> 'sk) outcome"
  | Suite "bytes outcome"

fun act ::
    "('r, 'v, 'alg, 'pem, 'sk, 't, 'd) pki_lib \<Rightarrow> 'r root_source \<Rightarrow> ('alg, 'pem, 'sk, 't, 'd) action
      \<Rightarrow> ('r, 'v, 'alg, 'pem, 'sk) statics \<Rightarrow> ('alg, 'pem, 'sk) answer \<times> ('r, 'v, 'alg, 'pem, 'sk) statics"
where
  "act lib src (Install p) st = apfst Installed (install_default_rustls_provider p st)"
| "act lib src (CheckCert c is now) st = apfst Cert (verify_server_cert_now lib src c is now st)"
| "act lib src (CheckTls12 m c d) st = apfst Done (verify_tls12_signature lib src m c d st)"
| "act lib src (CheckTls13 m c d) st = apfst Done (verify_tls13_signature lib src m c d st)"
| "act lib src AskSchemes st = apfst Schemes (supported_verify_schemes lib src st)"
| "act lib src (ReadKey ks cs) st = (Key (read_key_now ks cs st), st)"
| "act lib src AskSuite st = (Suite (initial_suite_now st), st)"

fun act_all ::
    "('r, 'v, 'alg, 'pem, 'sk, 't, 'd) pki_lib \<Rightarrow> 'r root_source \<Rightarrow> ('alg, 'pem, 'sk, 't, 'd) action list
      \<Rightarrow> ('r, 'v, 'alg, 'pem, 'sk) statics \<Rightarrow> ('alg, 'pem, 'sk) answer list \<times> ('r, 'v, 'alg, 'pem, 'sk) statics"
where
  "act_all lib src [] st = ([], st)"
| "act_all lib src (a # as) st =
     (case act lib src a st of (r, st) \<Rightarrow> case act_all lib src as st of (rs, st) \<Rightarrow> (r # rs, st))"

section \<open>They behave as constants\<close>

text \<open>What a provider and a source of anchors make of the statics.\<close>

definition verifier_of :: "('r, 'v, 'alg, 'pem, 'sk, 't, 'd) pki_lib \<Rightarrow> 'r root_source \<Rightarrow> ('alg, 'pem, 'sk) CryptoProvider \<Rightarrow> 'v outcome" where
  "verifier_of lib src p = expect (build_verifier lib (Some p) (root_store lib src))"

definition webpki_of ::
    "('r, 'v, 'alg, 'pem, 'sk, 't, 'd) pki_lib \<Rightarrow> 'r root_source \<Rightarrow> ('alg, 'pem, 'sk) CryptoProvider
      \<Rightarrow> ('n, 't) webpki \<Rightarrow> ('n, 't) webpki"
where
  "webpki_of lib src p rest = rest\<lparr>ee_try_from := parse_ee lib,
     verify_for_usage := verify_with lib (signature_verification_algorithms p) (root_store lib src)\<rparr>"

definition statics_inv ::
    "('r, 'v, 'alg, 'pem, 'sk, 't, 'd) pki_lib \<Rightarrow> 'r root_source \<Rightarrow> ('alg, 'pem, 'sk) CryptoProvider \<Rightarrow> ('r, 'v, 'alg, 'pem, 'sk) statics \<Rightarrow> bool"
where
  "statics_inv lib src p st \<longleftrightarrow> default_provider st = Some p
     \<and> cell_holds (Ok (root_store lib src)) (ROOT_STORE st) \<and> cell_holds (verifier_of lib src p) (SERVER_VERIFIER st)
     \<and> cell_holds (Ok (root_store lib src)) (TLS_SERVER_ROOTS st)
     \<and> cell_holds (Ok (signature_verification_algorithms p)) (SUPPORTED_SIG_ALGS st)"

interpretation roots: once_cell "statics_inv lib src p" ROOT_STORE "\<lambda>c. ROOT_STORE_update (\<lambda>_. c)"
    "\<lambda>st. (Ok (root_store lib src), st)" "Ok (root_store lib src)" for lib src p
  by unfold_locales (auto simp: statics_inv_def)

lemma use_roots: "statics_inv lib src p st \<Longrightarrow>
    use_ROOT_STORE lib src st = (Ok (root_store lib src), snd (use_ROOT_STORE lib src st)) \<and> statics_inv lib src p (snd (use_ROOT_STORE lib src st))"
  using roots.deref_val [of lib src p st] by (simp add: use_ROOT_STORE_def prod_eq_iff)

interpretation trusted: once_cell "statics_inv lib src p" TLS_SERVER_ROOTS "\<lambda>c. TLS_SERVER_ROOTS_update (\<lambda>_. c)"
    "use_ROOT_STORE lib src" "Ok (root_store lib src)" for lib src p
proof
  show "expect r = expect (Ok (root_store lib src)) \<and> statics_inv lib src p st'"
    if "statics_inv lib src p st" "use_ROOT_STORE lib src st = (r, st')" for st r st'
    using use_roots [OF that(1)] that(2) by simp
qed (auto simp: statics_inv_def)

interpretation checker: once_cell "statics_inv lib src p" SERVER_VERIFIER "\<lambda>c. SERVER_VERIFIER_update (\<lambda>_. c)"
    "\<lambda>st. case use_ROOT_STORE lib src st of
       (Ok roots, st) \<Rightarrow> (expect (build_verifier lib (default_provider st) roots), st)
     | (_, st) \<Rightarrow> (Panic, st)" "verifier_of lib src p" for lib src p
proof
  fix st r st'
  assume h: "statics_inv lib src p st" "(case use_ROOT_STORE lib src st of
       (Ok roots, st) \<Rightarrow> (expect (build_verifier lib (default_provider st) roots), st)
     | (_, st) \<Rightarrow> (Panic, st)) = (r, st')"
  obtain st1 where u: "use_ROOT_STORE lib src st = (Ok (root_store lib src), st1)" and i: "statics_inv lib src p st1"
    using use_roots [OF h(1)] by metis
  from i have "default_provider st1 = Some p" by (simp add: statics_inv_def)
  with h(2) u i show "expect r = expect (verifier_of lib src p) \<and> statics_inv lib src p st'"
    by (auto simp: verifier_of_def)
qed (auto simp: statics_inv_def)

interpretation algs: once_cell "statics_inv lib src p" SUPPORTED_SIG_ALGS "\<lambda>c. SUPPORTED_SIG_ALGS_update (\<lambda>_. c)"
    "\<lambda>st. (case default_provider st of Some p \<Rightarrow> Ok (signature_verification_algorithms p) | None \<Rightarrow> Panic, st)"
    "Ok (signature_verification_algorithms p)" for lib src p
  by unfold_locales (auto simp: statics_inv_def)

lemma use_verifier:
  assumes "statics_inv lib src p st"
  shows "\<exists>st'. use_SERVER_VERIFIER lib src st = (verifier_of lib src p, st') \<and> statics_inv lib src p st'"
  using checker.deref_val [OF assms] unfolding use_SERVER_VERIFIER_def by (auto simp: verifier_of_def prod_eq_iff)

lemma use_trusted:
  assumes "statics_inv lib src p st"
  shows "\<exists>st'. use_TLS_SERVER_ROOTS lib src st = (Ok (root_store lib src), st') \<and> statics_inv lib src p st'"
  using trusted.deref_val [OF assms] unfolding use_TLS_SERVER_ROOTS_def by (auto simp: prod_eq_iff)

lemma use_algs:
  assumes "statics_inv lib src p st"
  shows "\<exists>st'. use_SUPPORTED_SIG_ALGS st = (Ok (signature_verification_algorithms p), st') \<and> statics_inv lib src p st'"
  using algs.deref_val [OF assms] unfolding use_SUPPORTED_SIG_ALGS_def by (auto simp: prod_eq_iff)

text \<open>
  The answers of a process whose provider is \<open>p\<close>, without any state: \<open>verify_is_valid_tls_server_cert\<close>
  is the function on the library that \<open>Verify\<close> is about.
\<close>

fun constant_answer ::
    "('r, 'v, 'alg, 'pem, 'sk, 't, 'd) pki_lib \<Rightarrow> 'r root_source \<Rightarrow> ('n, 't) webpki \<Rightarrow> ('alg, 'pem, 'sk) CryptoProvider
      \<Rightarrow> ('alg, 'pem, 'sk, 't, 'd) action \<Rightarrow> ('alg, 'pem, 'sk) answer"
where
  "constant_answer lib src w p (Install q) = Installed (Inl q)"
| "constant_answer lib src w p (CheckCert c is now) = Cert (verify_is_valid_tls_server_cert (webpki_of lib src p w) c is now)"
| "constant_answer lib src w p (CheckTls12 m c d) = Done (bind_ok (verifier_of lib src p) (\<lambda>v. tls12_signature lib v m c d))"
| "constant_answer lib src w p (CheckTls13 m c d) = Done (bind_ok (verifier_of lib src p) (\<lambda>v. tls13_signature lib v m c d))"
| "constant_answer lib src w p AskSchemes = Schemes (map_outcome (verify_schemes lib) (verifier_of lib src p))"
| "constant_answer lib src w p (ReadKey ks cs) = Key (read_certified_key (Some (load_private_key p)) ks cs)"
| "constant_answer lib src w p AskSuite = Suite (initial_suite_from_provider (Some (cipher_suites p)))"

lemma with_verifier_constant:
  assumes "statics_inv lib src p st"
  shows "\<exists>st'. with_verifier lib src k st = (bind_ok (verifier_of lib src p) k, st') \<and> statics_inv lib src p st'"
proof -
  have "verifier_of lib src p \<noteq> Err e" for e by (cases "build_verifier lib (Some p) (root_store lib src)") (simp_all add: verifier_of_def)
  with use_verifier [OF assms] show ?thesis by (cases "verifier_of lib src p") (auto simp: with_verifier_def)
qed

lemma cert_constant:
  assumes "statics_inv lib src p st"
  shows "\<exists>st'. verify_server_cert_now lib src c is now st = (verify_is_valid_tls_server_cert (webpki_of lib src p w) c is now, st')
    \<and> statics_inv lib src p st'"
proof -
  obtain st1 where a: "use_SUPPORTED_SIG_ALGS st = (Ok (signature_verification_algorithms p), st1)" and i: "statics_inv lib src p st1"
    using use_algs [OF assms] by blast
  with use_trusted [OF i] assms show ?thesis
    by (auto simp: verify_server_cert_now_def verify_is_valid_tls_server_cert_def webpki_of_def split: outcome.split)
qed

lemma act_constant:
  assumes "statics_inv lib src p st"
  shows "\<exists>st'. act lib src a st = (constant_answer lib src w p a, st') \<and> statics_inv lib src p st'"
proof (cases a)
  case (Install q)
  with assms show ?thesis by (auto simp: install_default_rustls_provider_def statics_inv_def)
next
  case (CheckCert c "is" now)
  with cert_constant [OF assms, of c "is" now w] show ?thesis by auto
next
  case (CheckTls12 m c d)
  with with_verifier_constant [OF assms, of "\<lambda>v. tls12_signature lib v m c d"] show ?thesis
    by (auto simp: verify_tls12_signature_def)
next
  case (CheckTls13 m c d)
  with with_verifier_constant [OF assms, of "\<lambda>v. tls13_signature lib v m c d"] show ?thesis
    by (auto simp: verify_tls13_signature_def)
next
  case AskSchemes
  have "bind_ok (verifier_of lib src p) (\<lambda>v. Ok (verify_schemes lib v)) = map_outcome (verify_schemes lib) (verifier_of lib src p)"
    by (cases "verifier_of lib src p") simp_all
  with AskSchemes with_verifier_constant [OF assms, of "\<lambda>v. Ok (verify_schemes lib v)"] show ?thesis
    by (auto simp: supported_verify_schemes_def)
next
  case (ReadKey ks cs)
  with assms show ?thesis by (simp add: read_key_now_def statics_inv_def)
next
  case AskSuite
  with assms show ?thesis by (simp add: initial_suite_now_def statics_inv_def)
qed

lemma act_all_constant:
  "statics_inv lib src p st \<Longrightarrow> fst (act_all lib src as st) = map (constant_answer lib src w p) as"
proof (induction as arbitrary: st)
  case (Cons a as)
  from act_constant [OF Cons.prems, of a w] Cons.IH show ?case by (auto simp: split_beta)
qed simp

section \<open>Properties\<close>

text \<open>C24: once the provider is installed, which it is first of all, the state that is computed on demand
  cannot be told from constants: whatever the threads ask for, in whatever order, a certificate is
  checked with the algorithms of that provider and the anchors of the store, as the verifier that is
  proved correct does, signatures with one verifier made of both, the key and the first cipher suite
  are those of that provider, and installing a second one fails and changes nothing.  Checking a
  certificate never panics, as the comment on \<open>SUPPORTED_SIG_ALGS\<close> says, nor does the search for the
  suite; checking the signature of a handshake panics exactly when no verifier can be made of the
  anchors, and then always, or when that verifier does.\<close>

theorem statics_behave_as_constants:
  shows "fst (act_all lib src (Install p # as) initial_statics) = Installed (Inr ()) # map (constant_answer lib src w p) as
    \<and> (\<forall>c is now. constant_answer lib src w p (CheckCert c is now) \<noteq> Cert Panic)
    \<and> constant_answer lib src w p AskSuite \<noteq> Suite Panic
    \<and> (\<forall>m c d. constant_answer lib src w p (CheckTls12 m c d) = Done Panic
         \<longleftrightarrow> (case build_verifier lib (Some p) (root_store lib src) of Ok v \<Rightarrow> tls12_signature lib v m c d = Panic | _ \<Rightarrow> True))
    \<and> (\<forall>m c d. constant_answer lib src w p (CheckTls13 m c d) = Done Panic
         \<longleftrightarrow> (case build_verifier lib (Some p) (root_store lib src) of Ok v \<Rightarrow> tls13_signature lib v m c d = Panic | _ \<Rightarrow> True))"
proof -
  have i: "statics_inv lib src p (initial_statics\<lparr>default_provider := Some p\<rparr>)"
    by (simp add: statics_inv_def initial_statics_def cell_holds_def)
  have "fst (act_all lib src (Install p # as) initial_statics) = Installed (Inr ()) # map (constant_answer lib src w p) as"
    using act_all_constant [OF i, of as w] by (simp add: split_beta)
  moreover have "bind_ok (verifier_of lib src p) k = Panic
      \<longleftrightarrow> (case build_verifier lib (Some p) (root_store lib src) of Ok v \<Rightarrow> k v = Panic | _ \<Rightarrow> True)" for k :: "_ \<Rightarrow> unit outcome"
    by (cases "build_verifier lib (Some p) (root_store lib src)") (simp_all add: verifier_of_def)
  moreover have "initial_suite_from_provider (Some ss) \<noteq> Panic" for ss
    by (simp add: initial_suite_from_provider_def split: option.split)
  ultimately show ?thesis by (simp add: verify_tls_server_cert_no_panic)
qed

end
