(* ===== verification/Program_Main.thy ===== *)
theory Program_Main
  imports Listeners Process_Statics
begin

text \<open>
  Model of \<open>main\<close> of \<open>src/main.rs\<close> as a whole: the arguments, the files it reads, and then the start of
  the tasks (\<open>Main_Config\<close>); and of what the task for SIGHUP reads again.

  The file system and the parsers of its files are the record \<open>files\<close>, which may be another one at
  each signal.
\<close>

section \<open>Files\<close>

record 'pem files =
  file_contents :: "bytes \<Rightarrow> bytes outcome"
  toml_from_str :: "bytes \<Rightarrow> TomlConfig outcome"
  pem_items :: "bytes \<Rightarrow> 'pem outcome list outcome"
  pem_certs :: "bytes \<Rightarrow> bytes outcome list outcome"

definition parse_config :: "'pem files \<Rightarrow> bytes \<Rightarrow> Config outcome" where
  "parse_config fs cfg_path = Config_parse (toml_from_str fs) (file_contents fs cfg_path)"

definition Config_certs_key :: "('r, 'v, 'alg, 'pem, 'sk) statics \<Rightarrow> 'pem files \<Rightarrow> Config \<Rightarrow> (bytes list \<times> 'sk) outcome" where
  "Config_certs_key st fs c = read_key_now (pem_items fs (tls_key c)) (pem_certs fs (tls_cert c)) st"

text \<open>What one SIGHUP reads.\<close>

definition reload :: "bytes \<Rightarrow> ('r, 'v, 'alg, 'pem, 'sk) statics \<Rightarrow> 'pem files \<Rightarrow> (bytes list \<times> 'sk) outcome" where
  "reload cfg_path st fs = bind_ok (parse_config fs cfg_path) (Config_certs_key st fs)"

section \<open>The log\<close>

text \<open>
  What the logger is set up with: the strings that choose what is logged, in the order in which they
  are parsed, and likewise for the style.
\<close>

record Logger =
  filters :: "bytes list"
  write_styles :: "bytes list"
  target_stdout :: bool

definition env_or :: "(bytes \<Rightarrow> bytes option) \<Rightarrow> bytes \<Rightarrow> bytes \<Rightarrow> bytes" where
  "env_or env key otherwise = (case env key of Some v \<Rightarrow> v | None \<Rightarrow> otherwise)"

definition init_logger :: "(bytes \<Rightarrow> bytes option) \<Rightarrow> Config \<Rightarrow> Logger" where
  "init_logger env c =
     (let builder = \<lparr>filters = [env_or env ''XMPP_PROXY_LOG_LEVEL'' ''info''],
                    write_styles = [env_or env ''XMPP_PROXY_LOG_STYLE'' ''never''], target_stdout = False\<rparr>;
          builder = builder\<lparr>target_stdout := True\<rparr>;
          builder = (case log_level c of Some l \<Rightarrow> builder\<lparr>filters := filters builder @ [l]\<rparr> | None \<Rightarrow> builder)
      in case log_style c of Some s \<Rightarrow> builder\<lparr>write_styles := write_styles builder @ [s]\<rparr> | None \<Rightarrow> builder)"

text \<open>Without the feature \<open>logging\<close> there is no logger, and settings for one end the program.\<close>

definition start_log :: "bool \<Rightarrow> (bytes \<Rightarrow> bytes option) \<Rightarrow> Config \<Rightarrow> Logger option option" where
  "start_log log_feature env c =
     (if log_feature then Some (Some (init_logger env c))
      else if log_level c \<noteq> None \<or> log_style c \<noteq> None then None
      else Some None)"

section \<open>The program\<close>

datatype 'a ending = PrintsVersion bytes | BadProvider | LogSettingsUnused | Exits fatal | Runs "Logger option" 'a

text \<open>The first argument, when there is one, is a path or \<open>-v\<close>.\<close>

definition cfg_path_of :: "bytes list \<Rightarrow> bytes option" where
  "cfg_path_of args = (if 1 < length args then Some (args ! 1) else None)"

definition default_cfg_path :: bytes where
  "default_cfg_path = ''/etc/xmpp-proxy/xmpp-proxy.toml''"

text \<open>The provider is the one of the library that is chosen at compile time.\<close>

definition program_main ::
    "bytes \<Rightarrow> bool \<Rightarrow> (bytes \<Rightarrow> bytes option) \<Rightarrow> ('alg, 'pem, 'sk) CryptoProvider \<Rightarrow> ('h, 'd) opener
      \<Rightarrow> ('d, 'o, 'i, bytes list \<times> 'sk) quic_lib \<Rightarrow> FileDescriptor list outcome \<Rightarrow> 'pem files \<Rightarrow> bytes list
      \<Rightarrow> ('r, 'v, 'alg, 'pem, 'sk) statics
      \<Rightarrow> ('h, 'd, bytes list \<times> 'sk) proxy_task list ending \<times> ('r, 'v, 'alg, 'pem, 'sk) statics"
where
  "program_main version log_feature env crypto op ql received fs args st =
     (let cfg_path = cfg_path_of args in
      if cfg_path = Some ''-v'' then (PrintsVersion version, st)
      else case install_default_rustls_provider crypto st of
             (Inl _, st) \<Rightarrow> (BadProvider, st)
           | (Inr _, st) \<Rightarrow>
               let cfg_path = (case cfg_path of Some p \<Rightarrow> p | None \<Rightarrow> default_cfg_path) in
               (case parse_config fs cfg_path of
                  Ok main_config \<Rightarrow>
                    (case start_log log_feature env main_config of
                       None \<Rightarrow> LogSettingsUnused
                     | Some log \<Rightarrow>
                         (case main_start op (Config_certs_key st fs) ql received (Ok main_config) of
                            Inl e \<Rightarrow> Exits e
                          | Inr tasks \<Rightarrow> Runs log tasks))
                | Err e \<Rightarrow> Exits (ConfigFailed e)
                | Panic \<Rightarrow> Exits StartPanic, st))"

text \<open>
  A new process has no provider yet, so the installation does not fail and the key is read with the
  provider installed.
\<close>

lemma key_of_new_process:
  "Config_certs_key (initial_statics\<lparr>default_provider := Some p\<rparr>) fs =
     (\<lambda>c. read_certified_key (Some (load_private_key p)) (pem_items fs (tls_key c)) (pem_certs fs (tls_cert c)))"
  by (rule ext) (simp add: initial_statics_def Config_certs_key_def read_key_now_def)

lemma program_main_Runs:
  "fst (program_main version log_feature env crypto op ql received fs args initial_statics) = Runs log ts \<longleftrightarrow>
     cfg_path_of args \<noteq> Some ''-v''
     \<and> (\<exists>c. parse_config fs (case cfg_path_of args of Some p \<Rightarrow> p | None \<Rightarrow> default_cfg_path) = Ok c
          \<and> start_log log_feature env c = Some log
          \<and> main_start op
               (\<lambda>c. read_certified_key (Some (load_private_key crypto)) (pem_items fs (tls_key c)) (pem_certs fs (tls_cert c)))
               ql received (Ok c) = Inr ts)"
  by (auto simp: program_main_def Let_def key_of_new_process split: outcome.splits option.splits sum.splits)

lemma new_process_has_provider: "fst (program_main version log_feature env crypto op ql received fs args initial_statics) \<noteq> BadProvider"
  by (simp add: program_main_def Let_def split: outcome.split option.split sum.split)

text \<open>The settings of the configuration are parsed last.\<close>

lemma config_filters_last: "log_level c = Some l \<Longrightarrow> last (filters (init_logger env c)) = l"
  by (simp add: init_logger_def Let_def split: option.split)

text \<open>
  The key that is served after some signals is that of the last files from which one could be read.
\<close>

lemma key_after_reloads:
  assumes "parse_config fs path = Ok c" and "Config_certs_key st fs c = Ok k"
  shows "inner (after_signals (map (reload path st) later) (CertsKey_new (Config_certs_key st fs c)))
    = Ok (last (k # loaded (map (reload path st) later)))"
  using assms refresh_loop_key [of "CertsKey_new (Ok k)" k "map (reload path st) later"]
  by (simp add: after_signals_def refresh_task_spawned_def CertsKey_new_def)

end
