(* ===== verification/Network_Statics.thy ===== *)
theory Network_Statics
  imports Outgoing Lazy_Cell
begin

text \<open>
  The resolver and the HTTPS client of \<open>src/srv.rs\<close>: how they are made, that they are made on first use
  and shared, and how the client finds the addresses of a name with the resolver.  Everything the
  other theories take as functions of the network, the lookups and \<open>get_https\<close> of \<open>net\<close> and its
  \<open>world\<close>, goes through these two statics.

  The libraries are the record \<open>net_lib\<close>.  What the client does for a URL is a tree: it ends with a
  response or asks for the addresses of a name and goes on with the answer.
\<close>

section \<open>How the two are made\<close>

datatype LookupIpStrategy = Ipv4Only | Ipv6Only | Ipv4AndIpv6 | Ipv6thenIpv4 | Ipv4thenIpv6

text \<open>The options of a resolver, of which \<open>'o\<close> are the ones the code leaves alone.\<close>

record 'o ResolverOpts =
  ip_strategy :: LookupIpStrategy
  other_opts :: 'o

record ClientOpts =
  https_only :: bool
  timeout_secs :: "nat option"
  own_dns_resolver :: bool

definition ClientOpts_builder :: ClientOpts where
  "ClientOpts_builder = \<lparr>https_only = False, timeout_secs = None, own_dns_resolver = False\<rparr>"

datatype 'b http_step =
    Finished "'b response outcome"
  | Resolve bytes "SocketAddr list outcome \<Rightarrow> 'b http_step"

record ('o, 'res, 'cl, 'b) net_lib =
  builder_tokio :: "'o ResolverOpts outcome"
  build_resolver :: "'o ResolverOpts \<Rightarrow> 'res outcome"
  build_client :: "ClientOpts \<Rightarrow> 'cl outcome"
  resolver_ip :: "'res \<Rightarrow> bytes \<Rightarrow> IpAddr list outcome"
  resolver_srv :: "'res \<Rightarrow> bytes \<Rightarrow> RData list outcome"
  resolver_txt :: "'res \<Rightarrow> bytes \<Rightarrow> RData list outcome"
  client_get :: "'cl \<Rightarrow> bytes \<Rightarrow> 'b http_step"

definition make_resolver :: "('o, 'res, 'cl, 'b) net_lib \<Rightarrow> 'res outcome" where
  "make_resolver lib =
     bind_ok (expect (builder_tokio lib)) (\<lambda>builder. expect (build_resolver lib (builder\<lparr>ip_strategy := Ipv4AndIpv6\<rparr>)))"

definition make_https_client :: "('o, 'res, 'cl, 'b) net_lib \<Rightarrow> 'cl outcome" where
  "make_https_client lib =
     (let builder = ClientOpts_builder;
          builder = builder\<lparr>https_only := True\<rparr>;
          builder = builder\<lparr>timeout_secs := Some 10\<rparr>;
          builder = builder\<lparr>own_dns_resolver := True\<rparr>
      in expect (build_client lib builder))"

section \<open>Their use\<close>

record ('res, 'cl) net_statics =
  RESOLVER :: "'res lazy"
  HTTPS_CLIENT :: "'cl lazy"

definition initial_net_statics :: "('res, 'cl) net_statics" where
  "initial_net_statics = \<lparr>RESOLVER = Unused, HTTPS_CLIENT = Unused\<rparr>"

definition use_RESOLVER :: "('o, 'res, 'cl, 'b) net_lib \<Rightarrow> ('res, 'cl) net_statics \<Rightarrow> 'res outcome \<times> ('res, 'cl) net_statics" where
  "use_RESOLVER lib = deref RESOLVER (\<lambda>c. RESOLVER_update (\<lambda>_. c)) (\<lambda>st. (make_resolver lib, st))"

definition use_HTTPS_CLIENT :: "('o, 'res, 'cl, 'b) net_lib \<Rightarrow> ('res, 'cl) net_statics \<Rightarrow> 'cl outcome \<times> ('res, 'cl) net_statics" where
  "use_HTTPS_CLIENT lib = deref HTTPS_CLIENT (\<lambda>c. HTTPS_CLIENT_update (\<lambda>_. c)) (\<lambda>st. (make_https_client lib, st))"

text \<open>\<open>RESOLVER.lookup_ip(name)\<close> and its like.\<close>

definition with_resolver ::
    "('o, 'res, 'cl, 'b) net_lib \<Rightarrow> ('res \<Rightarrow> 'a outcome) \<Rightarrow> ('res, 'cl) net_statics \<Rightarrow> 'a outcome \<times> ('res, 'cl) net_statics"
where
  "with_resolver lib look st = apfst (\<lambda>r. bind_ok r look) (use_RESOLVER lib st)"

text \<open>The iterator over the addresses of a lookup, and all it gives.\<close>

fun SocketAddrs_next :: "IpAddr list \<Rightarrow> SocketAddr option \<times> IpAddr list" where
  "SocketAddrs_next [] = (None, [])"
| "SocketAddrs_next (ip_addr # iter) = (Some (socket_addr ip_addr 0), iter)"

lemma SocketAddrs_next_shorter: "SocketAddrs_next iter = (Some a, rest) \<Longrightarrow> length rest < length iter"
  by (cases iter) simp_all

function SocketAddrs_all :: "IpAddr list \<Rightarrow> SocketAddr list" where
  "SocketAddrs_all iter =
     (case SocketAddrs_next iter of
        (Some a, iter) \<Rightarrow> a # SocketAddrs_all iter
      | (None, _) \<Rightarrow> [])"
  by pat_completeness auto
termination
  by (relation "measure length") (auto dest!: SocketAddrs_next_shorter [OF sym])

definition HickoryDnsResolver_resolve ::
    "('o, 'res, 'cl, 'b) net_lib \<Rightarrow> bytes \<Rightarrow> ('res, 'cl) net_statics \<Rightarrow> SocketAddr list outcome \<times> ('res, 'cl) net_statics"
where
  "HickoryDnsResolver_resolve lib name st =
     (case with_resolver lib (\<lambda>r. resolver_ip lib r name) st of
        (lookup, st) \<Rightarrow> (bind_ok lookup (\<lambda>ips. Ok (SocketAddrs_all ips)), st))"

primrec run_http ::
    "('o, 'res, 'cl, 'b) net_lib \<Rightarrow> 'b http_step \<Rightarrow> ('res, 'cl) net_statics \<Rightarrow> 'b response outcome \<times> ('res, 'cl) net_statics"
where
  "run_http lib (Finished r) = (\<lambda>st. (r, st))"
| "run_http lib (Resolve name k) =
     (\<lambda>st. case HickoryDnsResolver_resolve lib name st of (addrs, st) \<Rightarrow> run_http lib (k addrs) st)"

definition https_get ::
    "('o, 'res, 'cl, 'b) net_lib \<Rightarrow> bytes \<Rightarrow> ('res, 'cl) net_statics \<Rightarrow> 'b response outcome \<times> ('res, 'cl) net_statics"
where
  "https_get lib url st =
     (case use_HTTPS_CLIENT lib st of
        (Ok client, st) \<Rightarrow> run_http lib (client_get lib client url) st
      | (_, st) \<Rightarrow> (Panic, st))"

text \<open>What the tasks of the proxy ask the network for, in the order in which they do.\<close>

datatype request = LookupIp bytes | LookupSrv bytes | LookupTxt bytes | Get bytes

datatype 'b reply = Ips "IpAddr list outcome" | Records "RData list outcome" | Fetched "'b response outcome"

fun ask :: "('o, 'res, 'cl, 'b) net_lib \<Rightarrow> request \<Rightarrow> ('res, 'cl) net_statics \<Rightarrow> 'b reply \<times> ('res, 'cl) net_statics" where
  "ask lib (LookupIp n) st = apfst Ips (with_resolver lib (\<lambda>r. resolver_ip lib r n) st)"
| "ask lib (LookupSrv n) st = apfst Records (with_resolver lib (\<lambda>r. resolver_srv lib r n) st)"
| "ask lib (LookupTxt n) st = apfst Records (with_resolver lib (\<lambda>r. resolver_txt lib r n) st)"
| "ask lib (Get url) st = apfst Fetched (https_get lib url st)"

fun ask_all ::
    "('o, 'res, 'cl, 'b) net_lib \<Rightarrow> request list \<Rightarrow> ('res, 'cl) net_statics \<Rightarrow> 'b reply list \<times> ('res, 'cl) net_statics"
where
  "ask_all lib [] st = ([], st)"
| "ask_all lib (q # qs) st = (case ask lib q st of (r, st) \<Rightarrow> case ask_all lib qs st of (rs, st) \<Rightarrow> (r # rs, st))"

section \<open>They behave as constants\<close>

definition net_inv :: "('o, 'res, 'cl, 'b) net_lib \<Rightarrow> ('res, 'cl) net_statics \<Rightarrow> bool" where
  "net_inv lib st \<longleftrightarrow> cell_holds (make_resolver lib) (RESOLVER st) \<and> cell_holds (make_https_client lib) (HTTPS_CLIENT st)"

lemma expect_made [simp]: "expect (make_resolver lib) = make_resolver lib" "expect (make_https_client lib) = make_https_client lib"
  by (cases "builder_tokio lib"; simp add: make_resolver_def; fail) (simp add: make_https_client_def Let_def)

lemma made_not_Err [simp]: "make_resolver lib \<noteq> Err e" "make_https_client lib \<noteq> Err e"
  by (metis expect_made expect_simps(2) outcome.distinct(5)) (metis expect_made expect_simps(2) outcome.distinct(5))

interpretation resolver: once_cell "net_inv lib" RESOLVER "\<lambda>c. RESOLVER_update (\<lambda>_. c)" "\<lambda>st. (make_resolver lib, st)" "make_resolver lib"
  for lib
  by unfold_locales (auto simp: net_inv_def)

interpretation client: once_cell "net_inv lib" HTTPS_CLIENT "\<lambda>c. HTTPS_CLIENT_update (\<lambda>_. c)" "\<lambda>st. (make_https_client lib, st)"
    "make_https_client lib"
  for lib
  by unfold_locales (auto simp: net_inv_def)

lemma use_RESOLVER_made:
  "net_inv lib st \<Longrightarrow> \<exists>st'. use_RESOLVER lib st = (make_resolver lib, st') \<and> net_inv lib st'"
  using resolver.deref_val [of lib st] by (auto simp: use_RESOLVER_def prod_eq_iff)

lemma use_HTTPS_CLIENT_made:
  "net_inv lib st \<Longrightarrow> \<exists>st'. use_HTTPS_CLIENT lib st = (make_https_client lib, st') \<and> net_inv lib st'"
  using client.deref_val [of lib st] by (auto simp: use_HTTPS_CLIENT_def prod_eq_iff)

lemma with_resolver_made:
  assumes "net_inv lib st"
  shows "\<exists>st'. with_resolver lib look st = (bind_ok (make_resolver lib) look, st') \<and> net_inv lib st'"
  using use_RESOLVER_made [OF assms] by (auto simp: with_resolver_def)

declare SocketAddrs_all.simps [simp del]

lemma SocketAddrs_all_map: "SocketAddrs_all is = map (\<lambda>ip. socket_addr ip 0) is"
  by (induction "is") (subst SocketAddrs_all.simps, simp)+

text \<open>The network without state: every lookup of the client is the proxy's own, with port 0.\<close>

definition resolved :: "('o, 'res, 'cl, 'b) net_lib \<Rightarrow> bytes \<Rightarrow> SocketAddr list outcome" where
  "resolved lib name =
     bind_ok (make_resolver lib) (\<lambda>r. bind_ok (resolver_ip lib r name) (\<lambda>ips. Ok (map (\<lambda>ip. socket_addr ip 0) ips)))"

primrec http_result :: "(bytes \<Rightarrow> SocketAddr list outcome) \<Rightarrow> 'b http_step \<Rightarrow> 'b response outcome" where
  "http_result dns (Finished r) = r"
| "http_result dns (Resolve name k) = http_result dns (k (dns name))"

definition world_of :: "('o, 'res, 'cl, 'b) net_lib \<Rightarrow> ('u, 'l, 'b, 'n) world \<Rightarrow> ('u, 'l, 'b, 'n) world" where
  "world_of lib w = w\<lparr>
     get_https := (\<lambda>url. bind_ok (make_https_client lib) (\<lambda>c. http_result (resolved lib) (client_get lib c url))),
     srv_lookup := (\<lambda>n. bind_ok (make_resolver lib) (\<lambda>r. resolver_srv lib r n)),
     txt_lookup := (\<lambda>n. bind_ok (make_resolver lib) (\<lambda>r. resolver_txt lib r n))\<rparr>"

definition net_of :: "('o, 'res, 'cl, 'b) net_lib \<Rightarrow> ('u, 'l, 'b, 'n) net \<Rightarrow> ('u, 'l, 'b, 'n) net" where
  "net_of lib net = net\<lparr>net_world := world_of lib (net_world net),
     lookup_ip := (\<lambda>n. bind_ok (make_resolver lib) (\<lambda>r. resolver_ip lib r n))\<rparr>"

fun constant_reply :: "('u, 'l, 'b, 'n) net \<Rightarrow> request \<Rightarrow> 'b reply" where
  "constant_reply net (LookupIp n) = Ips (lookup_ip net n)"
| "constant_reply net (LookupSrv n) = Records (srv_lookup (net_world net) n)"
| "constant_reply net (LookupTxt n) = Records (txt_lookup (net_world net) n)"
| "constant_reply net (Get url) = Fetched (get_https (net_world net) url)"

lemma resolve_constant:
  assumes "net_inv lib st"
  shows "\<exists>st'. HickoryDnsResolver_resolve lib name st = (resolved lib name, st') \<and> net_inv lib st'"
  using with_resolver_made [OF assms, of "\<lambda>r. resolver_ip lib r name"]
  by (cases "make_resolver lib") (auto simp: HickoryDnsResolver_resolve_def resolved_def SocketAddrs_all_map)

lemma run_http_constant:
  "net_inv lib st \<Longrightarrow> \<exists>st'. run_http lib h st = (http_result (resolved lib) h, st') \<and> net_inv lib st'"
proof (induction h arbitrary: st)
  case (Resolve name k)
  obtain st1 where "HickoryDnsResolver_resolve lib name st = (resolved lib name, st1)" "net_inv lib st1"
    using resolve_constant [OF Resolve.prems] by blast
  with Resolve.IH show ?case by simp
qed simp

lemma https_get_constant:
  assumes "net_inv lib st"
  shows "\<exists>st'. https_get lib url st = (get_https (world_of lib w) url, st') \<and> net_inv lib st'"
proof -
  obtain st1 where u: "use_HTTPS_CLIENT lib st = (make_https_client lib, st1)" and i: "net_inv lib st1"
    using use_HTTPS_CLIENT_made [OF assms] by blast
  from u i run_http_constant [OF i] show ?thesis
    by (cases "make_https_client lib") (auto simp: https_get_def world_of_def)
qed

lemma ask_constant:
  assumes "net_inv lib st"
  shows "\<exists>st'. ask lib q st = (constant_reply (net_of lib net) q, st') \<and> net_inv lib st'"
proof (cases q)
  case (LookupIp n)
  with with_resolver_made [OF assms, of "\<lambda>r. resolver_ip lib r n"] show ?thesis by (auto simp: net_of_def)
next
  case (LookupSrv n)
  with with_resolver_made [OF assms, of "\<lambda>r. resolver_srv lib r n"] show ?thesis by (auto simp: net_of_def world_of_def)
next
  case (LookupTxt n)
  with with_resolver_made [OF assms, of "\<lambda>r. resolver_txt lib r n"] show ?thesis by (auto simp: net_of_def world_of_def)
next
  case (Get url)
  with https_get_constant [OF assms, of url "net_world net"] show ?thesis by (auto simp: net_of_def)
qed

lemma ask_all_constant:
  "net_inv lib st \<Longrightarrow> fst (ask_all lib qs st) = map (constant_reply (net_of lib net)) qs"
proof (induction qs arbitrary: st)
  case (Cons q qs)
  from ask_constant [OF Cons.prems, of q net] Cons.IH show ?case by (auto simp: split_beta)
qed simp

section \<open>Properties\<close>

text \<open>C25: whatever the tasks of the proxy ask the network for, in whatever order, from the start of the
  process, they get the replies of one network without state, made of one resolver and one client:
  this is the network that every other property is about.  When the client asks for the addresses
  of a name, also that of a redirect, it gets those the proxy itself would connect to, with port 0.
  If the resolver cannot be made, every lookup panics, and a request to an HTTPS server panics always
  if the client cannot be made.\<close>

theorem network_statics_behave_as_constants:
  shows "fst (ask_all lib qs initial_net_statics) = map (constant_reply (net_of lib net)) qs
    \<and> (\<forall>name. resolved lib name = bind_ok (lookup_ip (net_of lib net) name) (\<lambda>ips. Ok (map (\<lambda>ip. socket_addr ip 0) ips)))
    \<and> (\<forall>name. lookup_ip (net_of lib net) name = Panic \<longleftrightarrow>
         (case make_resolver lib of Ok r \<Rightarrow> resolver_ip lib r name = Panic | _ \<Rightarrow> True))
    \<and> (\<forall>url. get_https (net_world (net_of lib net)) url =
         (case build_client lib \<lparr>https_only = True, timeout_secs = Some 10, own_dns_resolver = True\<rparr> of
            Ok c \<Rightarrow> http_result (resolved lib) (client_get lib c url)
          | _ \<Rightarrow> Panic))"
proof -
  have "net_inv lib initial_net_statics" by (simp add: net_inv_def initial_net_statics_def cell_holds_def)
  then have "fst (ask_all lib qs initial_net_statics) = map (constant_reply (net_of lib net)) qs" by (rule ask_all_constant)
  moreover have "resolved lib name = bind_ok (lookup_ip (net_of lib net) name) (\<lambda>ips. Ok (map (\<lambda>ip. socket_addr ip 0) ips))" for name
    by (cases "make_resolver lib") (simp_all add: resolved_def net_of_def)
  moreover have "lookup_ip (net_of lib net) name = Panic \<longleftrightarrow>
      (case make_resolver lib of Ok r \<Rightarrow> resolver_ip lib r name = Panic | _ \<Rightarrow> True)" for name
    by (cases "make_resolver lib") (simp_all add: net_of_def)
  moreover have "get_https (net_world (net_of lib net)) url =
      (case build_client lib \<lparr>https_only = True, timeout_secs = Some 10, own_dns_resolver = True\<rparr> of
         Ok c \<Rightarrow> http_result (resolved lib) (client_get lib c url)
       | _ \<Rightarrow> Panic)" for url
    by (simp add: net_of_def world_of_def make_https_client_def ClientOpts_builder_def expect_def split: outcome.split)
  ultimately show ?thesis by blast
qed

end
