(* ===== verification/Build_Version.thy ===== *)
theory Build_Version
  imports Main_Config
begin

text \<open>
  Model of \<open>build.rs\<close>: the statement that prints the version, written at build time from the
  features cargo has put into the environment.  Names of features and packages are bytes; the
  environment is the list of its variables in whatever order the system has them.
\<close>

section \<open>The features\<close>

definition allowed_features :: "bytes list" where
  "allowed_features =
     [''c2s-incoming'', ''c2s-outgoing'', ''s2s-incoming'', ''s2s-outgoing'', ''tls'', ''quic'', ''websocket'',
      ''tls-ca-roots-native'', ''tls-ca-roots-bundled'', ''logging'', ''systemd'']"

definition optional_deps :: "bytes list" where
  "optional_deps =
     [''rustls'', ''tokio-rustls'', ''rustls-pemfile'', ''quinn'', ''tokio-tungstenite'', ''futures-util'',
      ''trust-dns-resolver'', ''reqwest'', ''lazy-static'', ''rustls-native-certs'', ''webpki-roots'', ''env-logger'',
      ''rand'', ''nix'']"

text \<open>The name of a feature in a variable of cargo; the prefix has 14 bytes.\<close>

definition feature_key :: "bytes \<Rightarrow> bytes" where
  "feature_key key = map (ascii_lower \<circ> (\<lambda>c. if c = CHR ''_'' then CHR ''-'' else c)) (drop 14 key)"

fun feature_loop :: "(bytes \<times> bytes) list \<Rightarrow> bytes list \<Rightarrow> bytes list \<Rightarrow> bytes list \<times> bytes list" where
  "feature_loop [] features optional = (features, optional)"
| "feature_loop ((key, val) # vars) features optional =
     (if val = ''1'' \<and> prefix ''CARGO_FEATURE_'' key then
        (let key = feature_key key in
         if key \<in> set allowed_features then feature_loop vars (features @ [key]) optional
         else if key \<in> set optional_deps then feature_loop vars features (optional @ [key])
         else feature_loop vars features optional)
      else feature_loop vars features optional)"

text \<open>
  \<open>iter().position\<close>; \<open>sort_by\<close> unwraps it, which panics when the list lacks the name.
\<close>

fun position :: "bytes \<Rightarrow> bytes list \<Rightarrow> nat option" where
  "position a [] = None"
| "position a (r # rs) = (if r = a then Some 0 else map_option Suc (position a rs))"

definition sort_like :: "bytes list \<Rightarrow> bytes list \<Rightarrow> bytes list outcome" where
  "sort_like order xs =
     (if list_all (\<lambda>x. position x order \<noteq> None) xs
      then Ok (sort_by (\<lambda>a b. cmp_of (the (position a order)) (the (position b order))) xs)
      else Panic)"

text \<open>\<open>TARGET\<close> is unwrapped after the sorting.\<close>

definition version_statement :: "bytes \<Rightarrow> bytes \<Rightarrow> bytes outcome \<Rightarrow> (bytes \<times> bytes) list \<Rightarrow> bytes outcome" where
  "version_statement name version tgt vars =
     (case feature_loop vars [] [] of (features, optional) \<Rightarrow>
        bind_ok (sort_like allowed_features features) (\<lambda>features.
        bind_ok (sort_like optional_deps optional) (\<lambda>optional.
          case tgt of
            Ok t \<Rightarrow> Ok (''{println!('' @ [CHR 0x0A] @ ''\"'' @ name @ '' '' @ version @ '' ('' @ t @ '')'' @ [CHR 0x0A]
                @ ''Features: '' @ join_with '','' features @ [CHR 0x0A]
                @ ''Optional crates: '' @ join_with '','' optional @ ''\");}'' @ [CHR 0x0A])
          | _ \<Rightarrow> Panic)))"

section \<open>What is printed\<close>

lemma position_iff: "position a xs \<noteq> None \<longleftrightarrow> a \<in> set xs"
  by (induction xs) auto

lemma position_nth: "position a xs = Some i \<Longrightarrow> i < length xs \<and> xs ! i = a"
  by (induction xs arbitrary: i) (auto split: if_splits)

lemma position_distinct: "distinct xs \<Longrightarrow> i < length xs \<Longrightarrow> position (xs ! i) xs = Some i"
proof -
  assume d: "distinct xs" "i < length xs"
  then obtain j where "position (xs ! i) xs = Some j" using position_iff [of "xs ! i" xs] nth_mem by blast
  moreover from position_nth [OF this] have "j = i" using nth_eq_iff_index_eq [OF d(1) _ d(2)] by blast
  ultimately show ?thesis by simp
qed

lemma nth_position: "x \<in> set xs \<Longrightarrow> xs ! the (position x xs) = x"
  using position_iff [of x xs] position_nth [of x xs] by auto

lemma positions_sorted:
  assumes "distinct order"
  shows "sorted_wrt (\<lambda>a b. the (position a order) < the (position b order)) order"
  using assms by (simp add: sorted_wrt_iff_nth_less position_distinct)

text \<open>Sorting by the position in a list gives the list restricted to what is sorted.\<close>

lemma sort_like_filter:
  assumes "distinct order" and "distinct xs" and "set xs \<subseteq> set order"
  shows "sort_like order xs = Ok (filter (\<lambda>x. x \<in> set xs) order)"
proof -
  let ?pos = "\<lambda>a. the (position a order)"
  let ?s = "sort_by (\<lambda>a b. cmp_of (?pos a) (?pos b)) xs"
  let ?f = "filter (\<lambda>x. x \<in> set xs) order"
  have "sorted_wrt (\<lambda>a b. cmp_of (?pos a) (?pos b) \<noteq> Greater) ?s"
    by (rule keyed.sort_by_leq) simp_all
  then have s: "sorted (map ?pos ?s)" by (simp add: sorted_wrt_map not_less)
  have "sorted (map ?pos ?f)"
    unfolding sorted_wrt_map by (rule sorted_wrt_filter) (use positions_sorted [OF assms(1)] in \<open>auto elim: sorted_wrt_mono_rel [rotated]\<close>)
  moreover have set: "set ?s = set ?f" "distinct ?s" "distinct ?f"
    using assms mset_eq_imp_distinct_iff [OF sort_by_mset] by (auto simp: sort_by_set)
  moreover have "inj_on ?pos (set ?s \<union> set ?f)"
    by (rule inj_on_inverseI [where g = "nth order"]) (use assms(3) in \<open>auto simp: sort_by_set nth_position\<close>)
  ultimately have "?s = ?f" using s by (intro map_sorted_distinct_set_unique [where f = ?pos]) (simp_all add: distinct_map inj_on_subset)
  moreover have "list_all (\<lambda>x. position x order \<noteq> None) xs"
    using assms(3) position_iff by (auto simp: list_all_iff)
  ultimately show ?thesis by (simp only: sort_like_def if_True)
qed

definition enabled_features :: "(bytes \<times> bytes) list \<Rightarrow> bytes list" where
  "enabled_features vars =
     map (feature_key \<circ> fst) (filter (\<lambda>(key, val). val = ''1'' \<and> prefix ''CARGO_FEATURE_'' key) vars)"

lemma feature_loop_filter:
  "feature_loop vars fs ds
    = (fs @ filter (\<lambda>k. k \<in> set allowed_features) (enabled_features vars),
       ds @ filter (\<lambda>k. k \<notin> set allowed_features \<and> k \<in> set optional_deps) (enabled_features vars))"
  by (induction vars fs ds rule: feature_loop.induct) (simp_all add: enabled_features_def Let_def)

text \<open>
  The statement does not depend on the order of the environment: the features and the crates are
  those of the two lists that are enabled, in the order of the lists, and the build fails only
  when the target is not known.
\<close>

theorem version_lists_features:
  assumes "distinct (enabled_features vars)"
  shows "version_statement name version (Ok t) vars
    = Ok (''{println!('' @ [CHR 0x0A] @ ''\"'' @ name @ '' '' @ version @ '' ('' @ t @ '')'' @ [CHR 0x0A]
        @ ''Features: '' @ join_with '','' (filter (\<lambda>k. k \<in> set (enabled_features vars)) allowed_features) @ [CHR 0x0A]
        @ ''Optional crates: '' @ join_with '','' (filter (\<lambda>k. k \<in> set (enabled_features vars)) optional_deps)
        @ ''\");}'' @ [CHR 0x0A])"
proof -
  let ?e = "enabled_features vars"
  have d: "distinct allowed_features" "distinct optional_deps" and x: "list_all (\<lambda>k. k \<notin> set allowed_features) optional_deps" by code_simp+
  have "sort_like allowed_features (filter (\<lambda>k. k \<in> set allowed_features) ?e)
      = Ok (filter (\<lambda>k. k \<in> set ?e) allowed_features)"
    by (subst sort_like_filter) (use assms d in \<open>auto intro: filter_cong\<close>)
  moreover have "sort_like optional_deps (filter (\<lambda>k. k \<notin> set allowed_features \<and> k \<in> set optional_deps) ?e)
      = Ok (filter (\<lambda>k. k \<in> set ?e) optional_deps)"
    by (subst sort_like_filter) (use assms d x in \<open>auto simp: list_all_iff intro!: filter_cong\<close>)
  ultimately show ?thesis by (simp add: version_statement_def feature_loop_filter)
qed

lemma version_lists_features_witness:
  "version_statement ''x'' ''1'' (Ok ''t'') [(''CARGO_FEATURE_QUIC'', ''1''), (''HOME'', ''1''), (''CARGO_FEATURE_C2S_INCOMING'', ''1'')]
    = Ok (''{println!('' @ [CHR 0x0A] @ ''\"x 1 (t)'' @ [CHR 0x0A] @ ''Features: c2s-incoming,quic'' @ [CHR 0x0A]
        @ ''Optional crates: \");}'' @ [CHR 0x0A])"
proof -
  let ?v = "[(''CARGO_FEATURE_QUIC'', ''1''), (''HOME'', ''1''), (''CARGO_FEATURE_C2S_INCOMING'', ''1'')] :: (bytes \<times> bytes) list"
  have e: "enabled_features ?v = [''quic'', ''c2s-incoming'']" by code_simp
  then have "distinct (enabled_features ?v)" by simp
  from version_lists_features [OF this, of "''x''" "''1''" "''t''"] show ?thesis
    unfolding e by (simp add: allowed_features_def optional_deps_def)
qed

end
