(* ===== verification/Fuzz_Target.thy ===== *)
theory Fuzz_Target
  imports Shuffle
begin

text \<open>
  Model of \<open>fuzz/src/main.rs\<close>: the harness of the fuzzer, which cuts its input with the filter, gives
  every item to an XML parser, keeps the items that parse as test cases, and panics on one that does
  not.

  The parser and the digest are parameters; the directory of test cases is a map from file names to
  contents, and writing to a new file succeeds.
\<close>

section \<open>The target\<close>

text \<open>A file is only created when there is none of its name.\<close>

definition keep_case :: "(bytes \<Rightarrow> bytes) \<Rightarrow> bytes \<Rightarrow> (bytes \<rightharpoonup> bytes) \<Rightarrow> (bytes \<rightharpoonup> bytes)" where
  "keep_case digest stanza dir =
     (let fname = digest stanza in
      case dir fname of None \<Rightarrow> dir(fname \<mapsto> stanza) | Some old \<Rightarrow> dir)"

function fuzz_loop ::
    "(bytes \<Rightarrow> unit outcome) \<Rightarrow> (bytes \<Rightarrow> bytes) \<Rightarrow> reader \<Rightarrow> StanzaFilter \<Rightarrow> (bytes \<rightharpoonup> bytes)
      \<Rightarrow> unit outcome \<times> (bytes \<rightharpoonup> bytes)"
where
  "fuzz_loop parse_all digest rd f dir =
     (case reader_next rd f of
        (Ok (Some stanza), rd', f') \<Rightarrow>
          (case parse_all stanza of
             Ok u \<Rightarrow> fuzz_loop parse_all digest rd' f' (keep_case digest stanza dir)
           | Err e \<Rightarrow> (Panic, dir)
           | Panic \<Rightarrow> (Panic, dir))
      | (Ok None, rd', f') \<Rightarrow> (Ok (), dir)
      | (Err e, rd', f') \<Rightarrow> (Ok (), dir)
      | (Panic, rd', f') \<Rightarrow> (Panic, dir))"
  by pat_completeness auto
termination
  by (relation "measure (\<lambda>(p, d, rd, f, dir). length rd)") (auto dest: reader_next_consumes [OF sym])

declare fuzz_loop.simps [simp del]

definition fuzz_target ::
    "(bytes \<Rightarrow> unit outcome) \<Rightarrow> (bytes \<Rightarrow> bytes) \<Rightarrow> (bytes \<rightharpoonup> bytes) \<Rightarrow> bytes
      \<Rightarrow> unit outcome \<times> (bytes \<rightharpoonup> bytes)"
where
  "fuzz_target parse_all digest dir data = fuzz_loop parse_all digest (map RByte data) (StanzaFilter_new 262144) dir"

section \<open>What it finds\<close>

lemma fuzz_loop_item:
  assumes "reader_next rd f = (Ok (Some s), rd', f')"
  shows "fuzz_loop p d rd f dir = (if is_ok (p s) then fuzz_loop p d rd' f' (keep_case d s dir) else (Panic, dir))"
  using assms by (subst fuzz_loop.simps) (simp split: outcome.split)

lemma fuzz_loop_stream:
  assumes "idle n e f" and "fits n xs" and "CHR ''<'' \<notin> set tail"
  shows "fuzz_loop p d (map RByte (show_stream xs @ tail)) f dir
    = (if list_all (\<lambda>(ws, x). is_ok (p (show_item x))) xs then Ok () else Panic,
       fold (\<lambda>(ws, x). keep_case d (show_item x)) (takeWhile (\<lambda>(ws, x). is_ok (p (show_item x))) xs) dir)"
  using assms
proof (induction xs arbitrary: e f dir)
  case Nil
  from next_junk [OF Nil.prems(1,3)] show ?case
    by (subst fuzz_loop.simps) (auto simp: show_stream_def)
next
  case (Cons q xs)
  obtain ws x where q: "q = (ws, x)" by (cases q)
  from Cons.prems(2) have x: "ok_item x" "length (show_item x) \<le> n" "CHR ''<'' \<notin> set ws" and xs: "fits n xs"
    by (auto simp: fits_def q)
  from next_item [OF Cons.prems(1) x, of "show_stream xs @ tail"] obtain e' f' where
    n: "reader_next (map RByte (ws @ show_item x @ show_stream xs @ tail)) f
      = (Ok (Some (show_item x)), map RByte (show_stream xs @ tail), f')" and f': "idle n e' f'" by blast
  have "show_stream (q # xs) = ws @ show_item x @ show_stream xs" by (simp add: q show_stream_def)
  with fuzz_loop_item [OF n, of p d dir] Cons.IH [OF f' xs Cons.prems(3), of "keep_case d (show_item x) dir"] show ?case
    by (simp add: q)
qed

lemma fuzz_loop_no_panic:
  assumes "filter_inv f" and "fst (fuzz_loop p d rd f dir) = Panic"
  shows "\<exists>s. \<not> is_ok (p s)"
  using assms
proof (induction p d rd f dir rule: fuzz_loop.induct)
  case (1 p d rd f dir)
  obtain r rd' f' where n: "reader_next rd f = (r, rd', f')" by (cases "reader_next rd f") auto
  from reader_next_settled [OF "1.prems"(1) n] have st: "settled (buf_size f) (r, f')" .
  show ?case
  proof (cases "\<exists>s. r = Ok (Some s) \<and> is_ok (p s)")
    case True
    then obtain s u where s: "r = Ok (Some s)" "p s = Ok u" by (auto simp: is_ok_iff)
    from st s(1) have "filter_inv f'" by (simp add: settled_def)
    with 1 n s fuzz_loop_item [of rd f s rd' f' p d dir] show ?thesis by auto
  next
    case False
    then have "\<forall>s. r = Ok (Some s) \<longrightarrow> (\<exists>s. \<not> is_ok (p s))" by blast
    with "1.prems"(2) n st show ?thesis
      by (subst (asm) fuzz_loop.simps) (auto simp: settled_def split: outcome.splits option.splits)
  qed
qed

section \<open>Properties\<close>

text \<open>On a stream of well-formed items the target panics exactly when the parser does not accept
  one of them as a document, and has kept those before it as test cases; in particular it panics on
  every stream whose opening or closing tag is not one, although the filter cuts it as it should.  On
  other input it does not panic as long as the parser accepts what it is given.\<close>

theorem fuzz_target_panics_iff:
  assumes "fits 262144 xs" and "CHR ''<'' \<notin> set tail"
  shows "(fst (fuzz_target parse_all digest dir (show_stream xs @ tail)) = Panic
        \<longleftrightarrow> (\<exists>x\<in>snd ` set xs. \<not> is_ok (parse_all (show_item x))))
    \<and> snd (fuzz_target parse_all digest dir (show_stream xs @ tail))
      = fold (\<lambda>(ws, x). keep_case digest (show_item x)) (takeWhile (\<lambda>(ws, x). is_ok (parse_all (show_item x))) xs) dir
    \<and> (fst (fuzz_target parse_all digest dir data) = Panic \<longrightarrow> (\<exists>s. \<not> is_ok (parse_all s)))"
proof -
  have i: "idle 262144 0 (StanzaFilter_new 262144)" and v: "filter_inv (StanzaFilter_new 262144)"
    by (simp_all add: idle_new filter_inv_new)
  from fuzz_loop_stream [OF i assms, of parse_all digest dir] fuzz_loop_no_panic [OF v, of parse_all digest "map RByte data" dir]
  show ?thesis unfolding fuzz_target_def by (auto simp: list_all_iff split: if_splits) (metis snd_conv)+
qed

text \<open>A parser that takes what ends in an empty-element tag, and a stream that opens.\<close>

definition example_parse :: "bytes \<Rightarrow> unit outcome" where
  "example_parse s = (if suffix ''/>'' s then Ok () else Err IoError)"

lemma fuzz_target_panics_iff_witness:
  "fst (fuzz_target example_parse id Map.empty (show_stream
      [([], Stanza (EmptyElem (CHR ''a'', []))), ([], Header (CHR ''s'', map Plain ''tream:stream ''))] @ [])) = Panic"
  (is "fst (fuzz_target _ _ _ (show_stream ?xs @ [])) = _")
proof -
  have "fits 262144 ?xs" unfolding fits_def by (simp add: show_tag_def ok_tag_def ok_open_tag_def stanza_node_def stream_stream_def)
  from fuzz_target_panics_iff [OF this, of "[]" example_parse id Map.empty "[]"] show ?thesis
    by (simp add: example_parse_def show_tag_def suffix_def)
qed

end
