(* ===== verification/Source_Tests.thy ===== *)
theory Source_Tests
  imports Srv_Collect Shuffle
begin

text \<open>
  The tests that the repository has for its pure functions, as theorems about the model: those of
  \<open>src/slicesubsequence.rs\<close>, \<open>src/stanzafilter.rs\<close>, \<open>src/websocket/mod.rs\<close> and, of \<open>src/srv.rs\<close>, the
  ones for host-meta in XML (of those for \<open>extract_between\<close> the first, and not the one that reads a
  file).  The inputs and the expected results are those of the tests.  A text that is read by a filter
  is given as the items it consists of; that they make up the text is the first part of each of these
  theorems.
\<close>

lemma stays_within: "(\<forall>(ws, x)\<in>set xs. CHR ''<'' \<notin> set ws \<and> ok_item x \<and> length (show_item x) \<le> 512) \<Longrightarrow> fits 262144 xs"
  unfolding fits_def by fastforce

section \<open>Slices\<close>

lemma test_trim_start:
  "trim_start ''    bla'' [CHR '' '', CHR 0x09, CHR 0x0A, CHR 0x0D] = ''bla''"
  "trim_start ([CHR 0x0A, CHR 0x09, CHR 0x0D, CHR 0x0D] @ ''   '' @ [CHR 0x0D] @ ''bla'') [CHR '' '', CHR 0x09, CHR 0x0A, CHR 0x0D] = ''bla''"
  by code_simp+

lemma test_replace_first:
  "replace_first ''bla to='tsnhaou' bla2'' '' to='' '' from='' = ''bla from='tsnhaou' bla2''"
  "replace_first ''bla from='tsnhaou' bla2'' '' from='' '' to='' = ''bla to='tsnhaou' bla2''"
  "replace_first ''bla to='tsnhaou' bla2'' ''bla'' ''boo'' = ''boo to='tsnhaou' bla2''"
  "replace_first ''boo to='tsnhaou' bla2'' ''boo'' ''bla'' = ''bla to='tsnhaou' bla2''"
  "replace_first ''bla to='tsnhaou' bla2'' '' bla2'' [] = ''bla to='tsnhaou'' @ [CHR 0x27]"
  by code_simp+

lemma test_extract_between:
  "extract_between ''bla to='tsnhaou' bla2'' ('' to='' @ [CHR 0x27]) [CHR 0x27] = Ok ''tsnhaou''"
  by code_simp

section \<open>The stanza filter\<close>

definition filter_test :: "(bytes \<times> item) list" where
  "filter_test =
    [(([CHR 0x0A] @ ''            ''), XmlDecl ''version='1.0'?''),
     (([CHR 0x0A] @ ''            ''), Header (CHR ''s'', (map Plain ''tream:stream xmlns='' @ [Quoted False ''jabber:server''] @ map Plain '' xmlns:stream='' @ [Quoted False ''http://etherx.jabber.org/streams''] @ map Plain '' xmlns:db='' @ [Quoted False ''jabber:server:dialback''] @ map Plain '' version='' @ [Quoted False ''1.0''] @ map Plain '' to='' @ [Quoted False ''example.org''] @ map Plain '' from='' @ [Quoted False ''example.com''] @ map Plain '' xml:lang='' @ [Quoted False ''en'']))),
     (([CHR 0x0A] @ ''            ''), Stanza (EmptyElem (CHR ''a'', []))),
     ([], Stanza (Elem (CHR ''b'', []) [Text ''inside b before c'', Elem (CHR ''c'', []) [Text ''inside c''] (CHR ''c'', [])] (CHR ''b'', []))),
     ([], StreamEnd),
     (([CHR 0x0A] @ ''            ''), Stanza (Elem (CHR ''q'', []) [Text ''bla'', CData ''<this>is</not><xml/>'', Text ''bloo''] (CHR ''q'', []))),
     (([CHR 0x0A] @ ''            ''), Stanza (Elem (CHR ''x'', []) [CData '' lol</x> ''] (CHR ''x'', []))),
     (([CHR 0x0A] @ ''            ''), Stanza (Elem (CHR ''z'', []) [Elem (CHR ''x'', []) [CData '' lol</x> ''] (CHR ''x'', [])] (CHR ''z'', []))),
     (([CHR 0x0A] @ ''            ''), Stanza (EmptyElem (CHR ''a'', (map Plain '' a='' @ [Quoted False ''![CDATA[''])))),
     (([CHR 0x0A] @ ''            ''), Stanza (Elem (CHR ''x'', (map Plain '' a='' @ [Quoted False ''/>''])) [Text ''This is going to be fun.''] (CHR ''x'', []))),
     (([CHR 0x0A] @ ''            ''), Stanza (Elem (CHR ''z'', []) [Elem (CHR ''x'', (map Plain '' a='' @ [Quoted False ''/>''])) [Text ''This is going to be fun.''] (CHR ''x'', [])] (CHR ''y'', []))),
     (([CHR 0x0A] @ ''            ''), Stanza (Elem (CHR ''d'', []) [] (CHR ''d'', []))),
     ([], Stanza (Elem (CHR ''e'', []) [CData ''what]>]]''] (CHR ''e'', []))),
     ([], StreamEnd)]"

lemma test_process_next_byte:
  "show_stream filter_test @ ([CHR 0x0A] @ ''            '') =
     [CHR 0x0A] @ ''            <?xml version='1.0'?>'' @ [CHR 0x0A] @ ''            <stream:stream xmlns='jabber:server' xmlns:stream='http://etherx.jabber.org/streams' xmlns:db='jabber:server:dialback' version='1.0' to='example.org' from='example.com' xml:lang='en'>'' @ [CHR 0x0A] @ ''            <a/><b>inside b before c<c>inside c</c></b></stream:stream>'' @ [CHR 0x0A] @ ''            <q>bla<![CDATA[<this>is</not><xml/>]]>bloo</q>'' @ [CHR 0x0A] @ ''            <x><![CDATA[ lol</x> ]]></x>'' @ [CHR 0x0A] @ ''            <z><x><![CDATA[ lol</x> ]]></x></z>'' @ [CHR 0x0A] @ ''            <a a='![CDATA['/>'' @ [CHR 0x0A] @ ''            <x a='/>'>This is going to be fun.</x>'' @ [CHR 0x0A] @ ''            <z><x a='/>'>This is going to be fun.</x></y>'' @ [CHR 0x0A] @ ''            <d></d><e><![CDATA[what]>]]]]></e></stream:stream>'' @ [CHR 0x0A] @ ''            ''"
  "fst (read_all (map RByte (show_stream filter_test @ ([CHR 0x0A] @ ''            ''))) (StanzaFilter_new 262144) []) =
     Ok [''<?xml version='1.0'?>'',
       ''<stream:stream xmlns='jabber:server' xmlns:stream='http://etherx.jabber.org/streams' xmlns:db='jabber:server:dialback' version='1.0' to='example.org' from='example.com' xml:lang='en'>'',
       ''<a/>'',
       ''<b>inside b before c<c>inside c</c></b>'',
       ''</stream:stream>'',
       ''<q>bla<![CDATA[<this>is</not><xml/>]]>bloo</q>'',
       ''<x><![CDATA[ lol</x> ]]></x>'',
       ''<z><x><![CDATA[ lol</x> ]]></x></z>'',
       ''<a a='![CDATA['/>'',
       ''<x a='/>'>This is going to be fun.</x>'',
       ''<z><x a='/>'>This is going to be fun.</x></y>'',
       ''<d></d>'',
       ''<e><![CDATA[what]>]]]]></e>'',
       ''</stream:stream>'']"
proof -
  show "show_stream filter_test @ ([CHR 0x0A] @ ''            '') =
     [CHR 0x0A] @ ''            <?xml version='1.0'?>'' @ [CHR 0x0A] @ ''            <stream:stream xmlns='jabber:server' xmlns:stream='http://etherx.jabber.org/streams' xmlns:db='jabber:server:dialback' version='1.0' to='example.org' from='example.com' xml:lang='en'>'' @ [CHR 0x0A] @ ''            <a/><b>inside b before c<c>inside c</c></b></stream:stream>'' @ [CHR 0x0A] @ ''            <q>bla<![CDATA[<this>is</not><xml/>]]>bloo</q>'' @ [CHR 0x0A] @ ''            <x><![CDATA[ lol</x> ]]></x>'' @ [CHR 0x0A] @ ''            <z><x><![CDATA[ lol</x> ]]></x></z>'' @ [CHR 0x0A] @ ''            <a a='![CDATA['/>'' @ [CHR 0x0A] @ ''            <x a='/>'>This is going to be fun.</x>'' @ [CHR 0x0A] @ ''            <z><x a='/>'>This is going to be fun.</x></y>'' @ [CHR 0x0A] @ ''            <d></d><e><![CDATA[what]>]]]]></e></stream:stream>'' @ [CHR 0x0A] @ ''            ''" by code_simp
  have "\<forall>(ws, x)\<in>set filter_test. CHR ''<'' \<notin> set ws \<and> ok_item x \<and> length (show_item x) \<le> 512" by code_simp
  from stays_within [OF this] have f: "\<forall>(ws, x)\<in>set filter_test. CHR ''<'' \<notin> set ws \<and> ok_item x \<and> length (show_item x) \<le> 262144"
    by (simp add: fits_def)
  have i: "idle 262144 0 (StanzaFilter_new 262144)" by (rule idle_new) simp
  have t: "CHR ''<'' \<notin> set ([CHR 0x0A] @ ''            '')" by code_simp
  have m: "map (show_item \<circ> snd) filter_test =
     [''<?xml version='1.0'?>'',
       ''<stream:stream xmlns='jabber:server' xmlns:stream='http://etherx.jabber.org/streams' xmlns:db='jabber:server:dialback' version='1.0' to='example.org' from='example.com' xml:lang='en'>'',
       ''<a/>'',
       ''<b>inside b before c<c>inside c</c></b>'',
       ''</stream:stream>'',
       ''<q>bla<![CDATA[<this>is</not><xml/>]]>bloo</q>'',
       ''<x><![CDATA[ lol</x> ]]></x>'',
       ''<z><x><![CDATA[ lol</x> ]]></x></z>'',
       ''<a a='![CDATA['/>'',
       ''<x a='/>'>This is going to be fun.</x>'',
       ''<z><x a='/>'>This is going to be fun.</x></y>'',
       ''<d></d>'',
       ''<e><![CDATA[what]>]]]]></e>'',
       ''</stream:stream>'']" by code_simp
  show "fst (read_all (map RByte (show_stream filter_test @ ([CHR 0x0A] @ ''            ''))) (StanzaFilter_new 262144) []) =
     Ok [''<?xml version='1.0'?>'',
       ''<stream:stream xmlns='jabber:server' xmlns:stream='http://etherx.jabber.org/streams' xmlns:db='jabber:server:dialback' version='1.0' to='example.org' from='example.com' xml:lang='en'>'',
       ''<a/>'',
       ''<b>inside b before c<c>inside c</c></b>'',
       ''</stream:stream>'',
       ''<q>bla<![CDATA[<this>is</not><xml/>]]>bloo</q>'',
       ''<x><![CDATA[ lol</x> ]]></x>'',
       ''<z><x><![CDATA[ lol</x> ]]></x></z>'',
       ''<a a='![CDATA['/>'',
       ''<x a='/>'>This is going to be fun.</x>'',
       ''<z><x a='/>'>This is going to be fun.</x></y>'',
       ''<d></d>'',
       ''<e><![CDATA[what]>]]]]></e>'',
       ''</stream:stream>'']"
    unfolding read_all_stream [OF i f t] m by simp
qed

section \<open>WebSocket framing\<close>

lemma test_from_ws:
  "from_ws ''<open xmlns=\"urn:ietf:params:xml:ns:xmpp-framing\" version=\"1.0\" to=\"test.moparisthe.best\" xml:lang=\"en\" />'' =
     ''<stream:stream xmlns=\"jabber:client\" version=\"1.0\" to=\"test.moparisthe.best\" xml:lang=\"en\"  xmlns:stream=\"http://etherx.jabber.org/streams\">''"
  "from_ws ''<close xmlns=\"urn:ietf:params:xml:ns:xmpp-framing\" />'' =
     ''</stream:stream>''"
  "from_ws ''<open to='one.example.org' xmlns='urn:ietf:params:xml:ns:xmpp-framing' xmlns:stream='http://etherx.jabber.org/streams' version='1.0'/>'' =
     ''<stream:stream to='one.example.org' xmlns='jabber:client' xmlns:stream='http://etherx.jabber.org/streams' version='1.0'>''"
  by code_simp+

definition to_ws_test :: "(bytes \<times> item) list" where
  "to_ws_test =
    [(([CHR 0x0A] @ ''            ''), Header (CHR ''s'', (map Plain ''tream:stream id='' @ [Quoted False ''719668c2-f5ba-4243-8042-ce6b2cece11b''] @ map Plain '' xmlns='' @ [Quoted False ''jabber:client''] @ map Plain '' version='' @ [Quoted False ''1.0''] @ map Plain '' xml:lang='' @ [Quoted False ''en''] @ map Plain '' from='' @ [Quoted False ''test.moparisthe.best''] @ map Plain '' xmlns:stream='' @ [Quoted False ''http://etherx.jabber.org/streams'']))),
     (([CHR 0x0A] @ ''            ''), Header (CHR ''s'', (map Plain ''tream:stream xmlns='' @ [Quoted True ''jabber:client''] @ map Plain '' version='' @ [Quoted True ''1.0''] @ map Plain '' to='' @ [Quoted True ''test.moparisthe.best''] @ map Plain '' xml:lang='' @ [Quoted True ''en'']))),
     (([CHR 0x0A] @ ''            ''), StreamEnd),
     (([CHR 0x0A] @ ''            ''), Stanza (EmptyElem (CHR ''i'', (map Plain ''q type='' @ [Quoted False ''result''] @ map Plain '' id='' @ [Quoted False ''6ef4a4b7-7f2b-462b-9176-83ec706c625e''] @ map Plain '' to='' @ [Quoted False ''test1@test.moparisthe.best/gajim.12S9XM42''])))),
     (([CHR 0x0A] @ ''            ''), Stanza (Elem (CHR ''s'', (map Plain ''tream:features'')) [Elem (CHR ''m'', (map Plain ''echanisms xmlns='' @ [Quoted False ''urn:ietf:params:xml:ns:xmpp-sasl''])) [Elem (CHR ''m'', (map Plain ''echanism'')) [Text ''PLAIN''] (CHR ''m'', (map Plain ''echanism'')), Elem (CHR ''m'', (map Plain ''echanism'')) [Text ''SCRAM-SHA-1''] (CHR ''m'', (map Plain ''echanism''))] (CHR ''m'', (map Plain ''echanisms''))] (CHR ''s'', (map Plain ''tream:features'')))),
     (([CHR 0x0A] @ ''            ''), Stanza (Elem (CHR ''i'', (map Plain ''q type='' @ [Quoted False ''result''] @ map Plain '' id='' @ [Quoted False ''7b0d57bb-6446-4701-92e5-8b9354bbfabe''])) [Elem (CHR ''b'', (map Plain ''ind xmlns='' @ [Quoted False ''urn:ietf:params:xml:ns:xmpp-bind''])) [Elem (CHR ''j'', (map Plain ''id'')) [Text ''test1@test.moparisthe.best/gajim.12S9XM42''] (CHR ''j'', (map Plain ''id''))] (CHR ''b'', (map Plain ''ind''))] (CHR ''i'', (map Plain ''q'')))),
     (([CHR 0x0A] @ ''            ''), Stanza (Elem (CHR ''i'', (map Plain ''q type='' @ [Quoted False ''result''] @ map Plain '' id='' @ [Quoted False ''7b0d57bb-6446-4701-92e5-8b9354bb>fabe''])) [Elem (CHR ''b'', (map Plain ''ind xmlns='' @ [Quoted False ''urn:ietf:params:xml:ns:xmpp-bind''])) [Elem (CHR ''j'', (map Plain ''id'')) [Text ''test1@test.moparisthe.best/gajim.12S9XM42''] (CHR ''j'', (map Plain ''id''))] (CHR ''b'', (map Plain ''ind''))] (CHR ''i'', (map Plain ''q''))))]"

text \<open>What \<open>next_eoft\<close> cuts out of the text, converted.\<close>

lemma test_to_ws:
  "show_stream to_ws_test @ ([CHR 0x0A] @ ''            '') =
     [CHR 0x0A] @ ''            <stream:stream id='719668c2-f5ba-4243-8042-ce6b2cece11b' xmlns='jabber:client' version='1.0' xml:lang='en' from='test.moparisthe.best' xmlns:stream='http://etherx.jabber.org/streams'>'' @ [CHR 0x0A] @ ''            <stream:stream xmlns=\"jabber:client\" version=\"1.0\" to=\"test.moparisthe.best\" xml:lang=\"en\">'' @ [CHR 0x0A] @ ''            </stream:stream>'' @ [CHR 0x0A] @ ''            <iq type='result' id='6ef4a4b7-7f2b-462b-9176-83ec706c625e' to='test1@test.moparisthe.best/gajim.12S9XM42'/>'' @ [CHR 0x0A] @ ''            <stream:features><mechanisms xmlns='urn:ietf:params:xml:ns:xmpp-sasl'><mechanism>PLAIN</mechanism><mechanism>SCRAM-SHA-1</mechanism></mechanisms></stream:features>'' @ [CHR 0x0A] @ ''            <iq type='result' id='7b0d57bb-6446-4701-92e5-8b9354bbfabe'><bind xmlns='urn:ietf:params:xml:ns:xmpp-bind'><jid>test1@test.moparisthe.best/gajim.12S9XM42</jid></bind></iq>'' @ [CHR 0x0A] @ ''            <iq type='result' id='7b0d57bb-6446-4701-92e5-8b9354bb>fabe'><bind xmlns='urn:ietf:params:xml:ns:xmpp-bind'><jid>test1@test.moparisthe.best/gajim.12S9XM42</jid></bind></iq>'' @ [CHR 0x0A] @ ''            ''"
  "map (\<lambda>(buf, end_of_first_tag). to_ws_new buf end_of_first_tag True)
       (cut (StanzaFilter_new 262144) (map RByte (show_stream to_ws_test @ ([CHR 0x0A] @ ''            '')))) =
     map Ok [''<open id='719668c2-f5ba-4243-8042-ce6b2cece11b' xmlns='urn:ietf:params:xml:ns:xmpp-framing' version='1.0' xml:lang='en' from='test.moparisthe.best' xmlns:stream='http://etherx.jabber.org/streams'/>'',
       ''<open xmlns=\"urn:ietf:params:xml:ns:xmpp-framing\" version=\"1.0\" to=\"test.moparisthe.best\" xml:lang=\"en\"/>'',
       ''<close xmlns=\"urn:ietf:params:xml:ns:xmpp-framing\" />'',
       ''<iq type='result' id='6ef4a4b7-7f2b-462b-9176-83ec706c625e' to='test1@test.moparisthe.best/gajim.12S9XM42' xmlns='jabber:client'/>'',
       ''<stream:features xmlns='jabber:client' xmlns:stream='http://etherx.jabber.org/streams'><mechanisms xmlns='urn:ietf:params:xml:ns:xmpp-sasl'><mechanism>PLAIN</mechanism><mechanism>SCRAM-SHA-1</mechanism></mechanisms></stream:features>'',
       ''<iq type='result' id='7b0d57bb-6446-4701-92e5-8b9354bbfabe' xmlns='jabber:client'><bind xmlns='urn:ietf:params:xml:ns:xmpp-bind'><jid>test1@test.moparisthe.best/gajim.12S9XM42</jid></bind></iq>'',
       ''<iq type='result' id='7b0d57bb-6446-4701-92e5-8b9354bb>fabe' xmlns='jabber:client'><bind xmlns='urn:ietf:params:xml:ns:xmpp-bind'><jid>test1@test.moparisthe.best/gajim.12S9XM42</jid></bind></iq>'']"
proof -
  show "show_stream to_ws_test @ ([CHR 0x0A] @ ''            '') =
     [CHR 0x0A] @ ''            <stream:stream id='719668c2-f5ba-4243-8042-ce6b2cece11b' xmlns='jabber:client' version='1.0' xml:lang='en' from='test.moparisthe.best' xmlns:stream='http://etherx.jabber.org/streams'>'' @ [CHR 0x0A] @ ''            <stream:stream xmlns=\"jabber:client\" version=\"1.0\" to=\"test.moparisthe.best\" xml:lang=\"en\">'' @ [CHR 0x0A] @ ''            </stream:stream>'' @ [CHR 0x0A] @ ''            <iq type='result' id='6ef4a4b7-7f2b-462b-9176-83ec706c625e' to='test1@test.moparisthe.best/gajim.12S9XM42'/>'' @ [CHR 0x0A] @ ''            <stream:features><mechanisms xmlns='urn:ietf:params:xml:ns:xmpp-sasl'><mechanism>PLAIN</mechanism><mechanism>SCRAM-SHA-1</mechanism></mechanisms></stream:features>'' @ [CHR 0x0A] @ ''            <iq type='result' id='7b0d57bb-6446-4701-92e5-8b9354bbfabe'><bind xmlns='urn:ietf:params:xml:ns:xmpp-bind'><jid>test1@test.moparisthe.best/gajim.12S9XM42</jid></bind></iq>'' @ [CHR 0x0A] @ ''            <iq type='result' id='7b0d57bb-6446-4701-92e5-8b9354bb>fabe'><bind xmlns='urn:ietf:params:xml:ns:xmpp-bind'><jid>test1@test.moparisthe.best/gajim.12S9XM42</jid></bind></iq>'' @ [CHR 0x0A] @ ''            ''" by code_simp
  have f: "fits 262144 to_ws_test" by (rule stays_within) code_simp
  have i: "idle 262144 0 (StanzaFilter_new 262144)" by (rule idle_new) simp
  have t: "CHR ''<'' \<notin> set ([CHR 0x0A] @ ''            '')" by code_simp
  have m: "map (\<lambda>(buf, end_of_first_tag). to_ws_new buf end_of_first_tag True) (delivered to_ws_test) =
     map Ok [''<open id='719668c2-f5ba-4243-8042-ce6b2cece11b' xmlns='urn:ietf:params:xml:ns:xmpp-framing' version='1.0' xml:lang='en' from='test.moparisthe.best' xmlns:stream='http://etherx.jabber.org/streams'/>'',
       ''<open xmlns=\"urn:ietf:params:xml:ns:xmpp-framing\" version=\"1.0\" to=\"test.moparisthe.best\" xml:lang=\"en\"/>'',
       ''<close xmlns=\"urn:ietf:params:xml:ns:xmpp-framing\" />'',
       ''<iq type='result' id='6ef4a4b7-7f2b-462b-9176-83ec706c625e' to='test1@test.moparisthe.best/gajim.12S9XM42' xmlns='jabber:client'/>'',
       ''<stream:features xmlns='jabber:client' xmlns:stream='http://etherx.jabber.org/streams'><mechanisms xmlns='urn:ietf:params:xml:ns:xmpp-sasl'><mechanism>PLAIN</mechanism><mechanism>SCRAM-SHA-1</mechanism></mechanisms></stream:features>'',
       ''<iq type='result' id='7b0d57bb-6446-4701-92e5-8b9354bbfabe' xmlns='jabber:client'><bind xmlns='urn:ietf:params:xml:ns:xmpp-bind'><jid>test1@test.moparisthe.best/gajim.12S9XM42</jid></bind></iq>'',
       ''<iq type='result' id='7b0d57bb-6446-4701-92e5-8b9354bb>fabe' xmlns='jabber:client'><bind xmlns='urn:ietf:params:xml:ns:xmpp-bind'><jid>test1@test.moparisthe.best/gajim.12S9XM42</jid></bind></iq>'']" by code_simp
  show "map (\<lambda>(buf, end_of_first_tag). to_ws_new buf end_of_first_tag True)
       (cut (StanzaFilter_new 262144) (map RByte (show_stream to_ws_test @ ([CHR 0x0A] @ ''            '')))) =
     map Ok [''<open id='719668c2-f5ba-4243-8042-ce6b2cece11b' xmlns='urn:ietf:params:xml:ns:xmpp-framing' version='1.0' xml:lang='en' from='test.moparisthe.best' xmlns:stream='http://etherx.jabber.org/streams'/>'',
       ''<open xmlns=\"urn:ietf:params:xml:ns:xmpp-framing\" version=\"1.0\" to=\"test.moparisthe.best\" xml:lang=\"en\"/>'',
       ''<close xmlns=\"urn:ietf:params:xml:ns:xmpp-framing\" />'',
       ''<iq type='result' id='6ef4a4b7-7f2b-462b-9176-83ec706c625e' to='test1@test.moparisthe.best/gajim.12S9XM42' xmlns='jabber:client'/>'',
       ''<stream:features xmlns='jabber:client' xmlns:stream='http://etherx.jabber.org/streams'><mechanisms xmlns='urn:ietf:params:xml:ns:xmpp-sasl'><mechanism>PLAIN</mechanism><mechanism>SCRAM-SHA-1</mechanism></mechanisms></stream:features>'',
       ''<iq type='result' id='7b0d57bb-6446-4701-92e5-8b9354bbfabe' xmlns='jabber:client'><bind xmlns='urn:ietf:params:xml:ns:xmpp-bind'><jid>test1@test.moparisthe.best/gajim.12S9XM42</jid></bind></iq>'',
       ''<iq type='result' id='7b0d57bb-6446-4701-92e5-8b9354bb>fabe' xmlns='jabber:client'><bind xmlns='urn:ietf:params:xml:ns:xmpp-bind'><jid>test1@test.moparisthe.best/gajim.12S9XM42</jid></bind></iq>'']"
    unfolding conjunct1 [OF cut_stream [OF i f t]] by (rule m)
qed

section \<open>host-meta in XML\<close>

lemma parse_document:
  assumes "stanza_node (Elem t ks u)" and "length (show_node (Elem t ks u)) \<le> 512"
    and "prefix ''<XRD'' (show_node (Elem t ks u)) \<or> prefix ''<xrd'' (show_node (Elem t ks u))"
    and "list_all (readable_link rel) ks"
    and "CHR ''<'' \<notin> set (show_tag u)" and "CHR ''>'' \<notin> set (show_tag u)"
    and "show_tag u \<noteq> ''stream:stream''" and "length (show_tag u) \<le> 512"
    and "hrefs_of rel ks = hs"
  shows "parse_host_meta_xml rel (show_node (Elem t ks u)) = Ok hs"
proof -
  have "idle 8192 0 (StanzaFilter_new 8192)" by (rule idle_new) simp
  from read_host_meta_document [OF this assms(1) _ _ _ assms(3,4,5,6,7), of "[]" "[]"] assms(2,8,9)
  show ?thesis by (simp add: parse_host_meta_xml_def)
qed

lemma test_parse_host_meta_1:
  "parse_host_meta_xml ''urn:xmpp:alt-connections:websocket''
     (''<XRD xmlns='http://docs.oasis-open.org/ns/xri/xrd-1.0'><Link rel='urn:xmpp:alt-connections:xbosh' href='https://burtrum.org/http-bind'/><Link rel='urn:xmpp:alt-connections:websocket' href='wss://burtrum.org/xmpp-websocket'/></XRD>'') =
   Ok [''wss://burtrum.org/xmpp-websocket'']"
proof -
  have "show_node (Elem (CHR ''X'', (map Plain ''RD xmlns='' @ [Quoted False ''http://docs.oasis-open.org/ns/xri/xrd-1.0''])) [EmptyElem (CHR ''L'', (map Plain ''ink rel='' @ [Quoted False ''urn:xmpp:alt-connections:xbosh''] @ map Plain '' href='' @ [Quoted False ''https://burtrum.org/http-bind''])), EmptyElem (CHR ''L'', (map Plain ''ink rel='' @ [Quoted False ''urn:xmpp:alt-connections:websocket''] @ map Plain '' href='' @ [Quoted False ''wss://burtrum.org/xmpp-websocket'']))] (CHR ''X'', (map Plain ''RD''))) =
     ''<XRD xmlns='http://docs.oasis-open.org/ns/xri/xrd-1.0'><Link rel='urn:xmpp:alt-connections:xbosh' href='https://burtrum.org/http-bind'/><Link rel='urn:xmpp:alt-connections:websocket' href='wss://burtrum.org/xmpp-websocket'/></XRD>''" by code_simp
  moreover have "parse_host_meta_xml ''urn:xmpp:alt-connections:websocket'' (show_node (Elem (CHR ''X'', (map Plain ''RD xmlns='' @ [Quoted False ''http://docs.oasis-open.org/ns/xri/xrd-1.0''])) [EmptyElem (CHR ''L'', (map Plain ''ink rel='' @ [Quoted False ''urn:xmpp:alt-connections:xbosh''] @ map Plain '' href='' @ [Quoted False ''https://burtrum.org/http-bind''])), EmptyElem (CHR ''L'', (map Plain ''ink rel='' @ [Quoted False ''urn:xmpp:alt-connections:websocket''] @ map Plain '' href='' @ [Quoted False ''wss://burtrum.org/xmpp-websocket'']))] (CHR ''X'', (map Plain ''RD'')))) =
     Ok [''wss://burtrum.org/xmpp-websocket'']" by (rule parse_document; code_simp)
  ultimately show ?thesis by (simp only:)
qed

lemma test_parse_host_meta_2:
  "parse_host_meta_xml ''urn:xmpp:alt-connections:websocket''
     (''<XRD xmlns=\"http://docs.oasis-open.org/ns/xri/xrd-1.0\"><Link rel=\"urn:xmpp:alt-connections:xbosh\" href=\"https://burtrum.org/http-bind\"/><Link rel=\"urn:xmpp:alt-connections:websocket\" href=\"wss://burtrum.org/xmpp-websocket\"/></XRD>'') =
   Ok [''wss://burtrum.org/xmpp-websocket'']"
proof -
  have "show_node (Elem (CHR ''X'', (map Plain ''RD xmlns='' @ [Quoted True ''http://docs.oasis-open.org/ns/xri/xrd-1.0''])) [EmptyElem (CHR ''L'', (map Plain ''ink rel='' @ [Quoted True ''urn:xmpp:alt-connections:xbosh''] @ map Plain '' href='' @ [Quoted True ''https://burtrum.org/http-bind''])), EmptyElem (CHR ''L'', (map Plain ''ink rel='' @ [Quoted True ''urn:xmpp:alt-connections:websocket''] @ map Plain '' href='' @ [Quoted True ''wss://burtrum.org/xmpp-websocket'']))] (CHR ''X'', (map Plain ''RD''))) =
     ''<XRD xmlns=\"http://docs.oasis-open.org/ns/xri/xrd-1.0\"><Link rel=\"urn:xmpp:alt-connections:xbosh\" href=\"https://burtrum.org/http-bind\"/><Link rel=\"urn:xmpp:alt-connections:websocket\" href=\"wss://burtrum.org/xmpp-websocket\"/></XRD>''" by code_simp
  moreover have "parse_host_meta_xml ''urn:xmpp:alt-connections:websocket'' (show_node (Elem (CHR ''X'', (map Plain ''RD xmlns='' @ [Quoted True ''http://docs.oasis-open.org/ns/xri/xrd-1.0''])) [EmptyElem (CHR ''L'', (map Plain ''ink rel='' @ [Quoted True ''urn:xmpp:alt-connections:xbosh''] @ map Plain '' href='' @ [Quoted True ''https://burtrum.org/http-bind''])), EmptyElem (CHR ''L'', (map Plain ''ink rel='' @ [Quoted True ''urn:xmpp:alt-connections:websocket''] @ map Plain '' href='' @ [Quoted True ''wss://burtrum.org/xmpp-websocket'']))] (CHR ''X'', (map Plain ''RD'')))) =
     Ok [''wss://burtrum.org/xmpp-websocket'']" by (rule parse_document; code_simp)
  ultimately show ?thesis by (simp only:)
qed

lemma test_parse_host_meta_3:
  "parse_host_meta_xml ''urn:xmpp:alt-connections:websocket''
     (''<xrd xmlns='http://docs.oasis-open.org/ns/xri/xrd-1.0'><link rel='urn:xmpp:alt-connections:xbosh' href='https://burtrum.org/http-bind'/><link rel='urn:xmpp:alt-connections:websocket' href='wss://burtrum.org/xmpp-websocket'/></xrd>'') =
   Ok [''wss://burtrum.org/xmpp-websocket'']"
proof -
  have "show_node (Elem (CHR ''x'', (map Plain ''rd xmlns='' @ [Quoted False ''http://docs.oasis-open.org/ns/xri/xrd-1.0''])) [EmptyElem (CHR ''l'', (map Plain ''ink rel='' @ [Quoted False ''urn:xmpp:alt-connections:xbosh''] @ map Plain '' href='' @ [Quoted False ''https://burtrum.org/http-bind''])), EmptyElem (CHR ''l'', (map Plain ''ink rel='' @ [Quoted False ''urn:xmpp:alt-connections:websocket''] @ map Plain '' href='' @ [Quoted False ''wss://burtrum.org/xmpp-websocket'']))] (CHR ''x'', (map Plain ''rd''))) =
     ''<xrd xmlns='http://docs.oasis-open.org/ns/xri/xrd-1.0'><link rel='urn:xmpp:alt-connections:xbosh' href='https://burtrum.org/http-bind'/><link rel='urn:xmpp:alt-connections:websocket' href='wss://burtrum.org/xmpp-websocket'/></xrd>''" by code_simp
  moreover have "parse_host_meta_xml ''urn:xmpp:alt-connections:websocket'' (show_node (Elem (CHR ''x'', (map Plain ''rd xmlns='' @ [Quoted False ''http://docs.oasis-open.org/ns/xri/xrd-1.0''])) [EmptyElem (CHR ''l'', (map Plain ''ink rel='' @ [Quoted False ''urn:xmpp:alt-connections:xbosh''] @ map Plain '' href='' @ [Quoted False ''https://burtrum.org/http-bind''])), EmptyElem (CHR ''l'', (map Plain ''ink rel='' @ [Quoted False ''urn:xmpp:alt-connections:websocket''] @ map Plain '' href='' @ [Quoted False ''wss://burtrum.org/xmpp-websocket'']))] (CHR ''x'', (map Plain ''rd'')))) =
     Ok [''wss://burtrum.org/xmpp-websocket'']" by (rule parse_document; code_simp)
  ultimately show ?thesis by (simp only:)
qed

lemma test_parse_host_meta_4:
  "parse_host_meta_xml ''urn:xmpp:alt-connections:websocket''
     (''<xrd xmlns=\"http://docs.oasis-open.org/ns/xri/xrd-1.0\"><link rel=\"urn:xmpp:alt-connections:xbosh\" href=\"https://burtrum.org/http-bind\"/><link rel=\"urn:xmpp:alt-connections:websocket\" href=\"wss://burtrum.org/xmpp-websocket\"/></xrd>'') =
   Ok [''wss://burtrum.org/xmpp-websocket'']"
proof -
  have "show_node (Elem (CHR ''x'', (map Plain ''rd xmlns='' @ [Quoted True ''http://docs.oasis-open.org/ns/xri/xrd-1.0''])) [EmptyElem (CHR ''l'', (map Plain ''ink rel='' @ [Quoted True ''urn:xmpp:alt-connections:xbosh''] @ map Plain '' href='' @ [Quoted True ''https://burtrum.org/http-bind''])), EmptyElem (CHR ''l'', (map Plain ''ink rel='' @ [Quoted True ''urn:xmpp:alt-connections:websocket''] @ map Plain '' href='' @ [Quoted True ''wss://burtrum.org/xmpp-websocket'']))] (CHR ''x'', (map Plain ''rd''))) =
     ''<xrd xmlns=\"http://docs.oasis-open.org/ns/xri/xrd-1.0\"><link rel=\"urn:xmpp:alt-connections:xbosh\" href=\"https://burtrum.org/http-bind\"/><link rel=\"urn:xmpp:alt-connections:websocket\" href=\"wss://burtrum.org/xmpp-websocket\"/></xrd>''" by code_simp
  moreover have "parse_host_meta_xml ''urn:xmpp:alt-connections:websocket'' (show_node (Elem (CHR ''x'', (map Plain ''rd xmlns='' @ [Quoted True ''http://docs.oasis-open.org/ns/xri/xrd-1.0''])) [EmptyElem (CHR ''l'', (map Plain ''ink rel='' @ [Quoted True ''urn:xmpp:alt-connections:xbosh''] @ map Plain '' href='' @ [Quoted True ''https://burtrum.org/http-bind''])), EmptyElem (CHR ''l'', (map Plain ''ink rel='' @ [Quoted True ''urn:xmpp:alt-connections:websocket''] @ map Plain '' href='' @ [Quoted True ''wss://burtrum.org/xmpp-websocket'']))] (CHR ''x'', (map Plain ''rd'')))) =
     Ok [''wss://burtrum.org/xmpp-websocket'']" by (rule parse_document; code_simp)
  ultimately show ?thesis by (simp only:)
qed

lemma test_parse_host_meta_5:
  "parse_host_meta_xml ''urn:xmpp:alt-connections:s2s-websocket''
     (''<xrd xmlns=\"http://docs.oasis-open.org/ns/xri/xrd-1.0\"><link rel=\"urn:xmpp:alt-connections:xbosh\" href=\"https://burtrum.org/http-bind\"/><link rel=\"urn:xmpp:alt-connections:websocket\" href=\"wss://burtrum.org/xmpp-websocket\"/><link rel=\"urn:xmpp:alt-connections:s2s-websocket\" href=\"wss://burtrum.org/xmpp-websocket-s2s\"/></xrd>'') =
   Ok [''wss://burtrum.org/xmpp-websocket-s2s'']"
proof -
  have "show_node (Elem (CHR ''x'', (map Plain ''rd xmlns='' @ [Quoted True ''http://docs.oasis-open.org/ns/xri/xrd-1.0''])) [EmptyElem (CHR ''l'', (map Plain ''ink rel='' @ [Quoted True ''urn:xmpp:alt-connections:xbosh''] @ map Plain '' href='' @ [Quoted True ''https://burtrum.org/http-bind''])), EmptyElem (CHR ''l'', (map Plain ''ink rel='' @ [Quoted True ''urn:xmpp:alt-connections:websocket''] @ map Plain '' href='' @ [Quoted True ''wss://burtrum.org/xmpp-websocket''])), EmptyElem (CHR ''l'', (map Plain ''ink rel='' @ [Quoted True ''urn:xmpp:alt-connections:s2s-websocket''] @ map Plain '' href='' @ [Quoted True ''wss://burtrum.org/xmpp-websocket-s2s'']))] (CHR ''x'', (map Plain ''rd''))) =
     ''<xrd xmlns=\"http://docs.oasis-open.org/ns/xri/xrd-1.0\"><link rel=\"urn:xmpp:alt-connections:xbosh\" href=\"https://burtrum.org/http-bind\"/><link rel=\"urn:xmpp:alt-connections:websocket\" href=\"wss://burtrum.org/xmpp-websocket\"/><link rel=\"urn:xmpp:alt-connections:s2s-websocket\" href=\"wss://burtrum.org/xmpp-websocket-s2s\"/></xrd>''" by code_simp
  moreover have "parse_host_meta_xml ''urn:xmpp:alt-connections:s2s-websocket'' (show_node (Elem (CHR ''x'', (map Plain ''rd xmlns='' @ [Quoted True ''http://docs.oasis-open.org/ns/xri/xrd-1.0''])) [EmptyElem (CHR ''l'', (map Plain ''ink rel='' @ [Quoted True ''urn:xmpp:alt-connections:xbosh''] @ map Plain '' href='' @ [Quoted True ''https://burtrum.org/http-bind''])), EmptyElem (CHR ''l'', (map Plain ''ink rel='' @ [Quoted True ''urn:xmpp:alt-connections:websocket''] @ map Plain '' href='' @ [Quoted True ''wss://burtrum.org/xmpp-websocket''])), EmptyElem (CHR ''l'', (map Plain ''ink rel='' @ [Quoted True ''urn:xmpp:alt-connections:s2s-websocket''] @ map Plain '' href='' @ [Quoted True ''wss://burtrum.org/xmpp-websocket-s2s'']))] (CHR ''x'', (map Plain ''rd'')))) =
     Ok [''wss://burtrum.org/xmpp-websocket-s2s'']" by (rule parse_document; code_simp)
  ultimately show ?thesis by (simp only:)
qed

lemma test_parse_host_meta_6:
  "parse_host_meta_xml ''urn:xmpp:alt-connections:websocket''
     (''<xrd xmlns=\"http://docs.oasis-open.org/ns/xri/xrd-1.0\"><link rel=\"urn:xmpp:alt-connections:xbosh\" href=\"https://burtrum.org/http-bind\"/><link rel=\"urn:xmpp:alt-connections:websocket\" href=\"wss://burtrum.org/xmpp-websocket\"/><link rel=\"urn:xmpp:alt-connections:s2s-websocket\" href=\"wss://burtrum.org/xmpp-websocket-s2s\"/></xrd>'') =
   Ok [''wss://burtrum.org/xmpp-websocket'']"
proof -
  have "show_node (Elem (CHR ''x'', (map Plain ''rd xmlns='' @ [Quoted True ''http://docs.oasis-open.org/ns/xri/xrd-1.0''])) [EmptyElem (CHR ''l'', (map Plain ''ink rel='' @ [Quoted True ''urn:xmpp:alt-connections:xbosh''] @ map Plain '' href='' @ [Quoted True ''https://burtrum.org/http-bind''])), EmptyElem (CHR ''l'', (map Plain ''ink rel='' @ [Quoted True ''urn:xmpp:alt-connections:websocket''] @ map Plain '' href='' @ [Quoted True ''wss://burtrum.org/xmpp-websocket''])), EmptyElem (CHR ''l'', (map Plain ''ink rel='' @ [Quoted True ''urn:xmpp:alt-connections:s2s-websocket''] @ map Plain '' href='' @ [Quoted True ''wss://burtrum.org/xmpp-websocket-s2s'']))] (CHR ''x'', (map Plain ''rd''))) =
     ''<xrd xmlns=\"http://docs.oasis-open.org/ns/xri/xrd-1.0\"><link rel=\"urn:xmpp:alt-connections:xbosh\" href=\"https://burtrum.org/http-bind\"/><link rel=\"urn:xmpp:alt-connections:websocket\" href=\"wss://burtrum.org/xmpp-websocket\"/><link rel=\"urn:xmpp:alt-connections:s2s-websocket\" href=\"wss://burtrum.org/xmpp-websocket-s2s\"/></xrd>''" by code_simp
  moreover have "parse_host_meta_xml ''urn:xmpp:alt-connections:websocket'' (show_node (Elem (CHR ''x'', (map Plain ''rd xmlns='' @ [Quoted True ''http://docs.oasis-open.org/ns/xri/xrd-1.0''])) [EmptyElem (CHR ''l'', (map Plain ''ink rel='' @ [Quoted True ''urn:xmpp:alt-connections:xbosh''] @ map Plain '' href='' @ [Quoted True ''https://burtrum.org/http-bind''])), EmptyElem (CHR ''l'', (map Plain ''ink rel='' @ [Quoted True ''urn:xmpp:alt-connections:websocket''] @ map Plain '' href='' @ [Quoted True ''wss://burtrum.org/xmpp-websocket''])), EmptyElem (CHR ''l'', (map Plain ''ink rel='' @ [Quoted True ''urn:xmpp:alt-connections:s2s-websocket''] @ map Plain '' href='' @ [Quoted True ''wss://burtrum.org/xmpp-websocket-s2s'']))] (CHR ''x'', (map Plain ''rd'')))) =
     Ok [''wss://burtrum.org/xmpp-websocket'']" by (rule parse_document; code_simp)
  ultimately show ?thesis by (simp only:)
qed

end
