(* ===== verification/Spec2Isabelle.thy ===== *)
theory Spec2Isabelle
  imports End_To_End Outgoing_Relay Program_Main Network_Statics Build_Version Fuzz_Target Source_Tests
begin

text \<open>
  \<^bold>\<open>A verification development of xmpp-proxy.\<close>

  xmpp-proxy stands between the clients and servers of XMPP and a local XMPP server.  It takes
  connections over TLS, STARTTLS, WebSocket, QUIC and WebTransport and relays them to the local
  server (the incoming side), and takes cleartext connections of local clients and servers and
  relays them to the server of the domain they name, over the best transport that server
  publishes (the outgoing side).  All of it is Rust, under \<open>src/src/\<close>; the paths below are
  relative to that directory.

  \<^bold>\<open>How the program is put together, and which theory models what.\<close>  The order is that
  of the imports.

  \<^item> \<open>Prelude\<close>: bytes, the result \<open>outcome\<close> of a fallible computation (\<open>Ok\<close>, \<open>Err\<close>, and \<open>Panic\<close> for
    an index out of range, an overflow or an \<open>unwrap\<close> of nothing), the datatype of errors with a
    constructor for each place that raises one, and the collections of simplification rules.
  \<^item> \<open>Slices\<close>: \<open>slicesubsequence.rs\<close>, the search for subsequences.  Its locale of first occurrences is
    interpreted on the model's own search.
  \<^item> \<open>Stanza_Filter\<close>: \<open>stanzafilter.rs\<close>.  \<open>StanzaFilter\<close> is the record of the struct's fields, with the
    buffer as a list of fixed length; \<open>process_next_byte_idx\<close> is one step of the state machine, and
    \<open>reader_next\<close>, \<open>reader_next_eoft\<close> are the readers over a list of bytes and I/O errors.
    \<open>Stanza_Framing\<close> is the abstract machine, without a buffer, that it refines.  \<open>Stanza_Xml\<close> is the
    grammar of what should be recognised, with its printer, and the properties of the filter.
  \<^item> \<open>Rust_Str\<close>, \<open>Rust_Net\<close>: what the program uses of the standard library's strings and of its
    printing of numbers and addresses.
  \<^item> \<open>Websocket\<close>: \<open>websocket/mod.rs\<close>, the two conversions between the framing of TCP and that of RFC 7395.
  \<^item> \<open>In_Out\<close>: \<open>in_out.rs\<close>.  A \<open>sink\<close> is the list of what has been written and flushed, with the list of
    the faults to come; a reader of WebSocket messages is a list of messages and errors.
  \<^item> \<open>Stream_Common\<close>: \<open>common/mod.rs\<close> up to \<open>stream_preamble\<close>: peeking at the first bytes of a
    connection, with its timeouts, and reading its declarations and header.
  \<^item> \<open>Shuffle\<close>: \<open>shuffle_rd_wr_filter_only\<close> of \<open>common/mod.rs\<close>, as the inductive relation \<open>shuffle_step\<close>: a
    step is one event of one of the two readers, so a run is one interleaving of the two sides.
    \<open>Relay_Spec\<close> is what it promises, a relay of two queues of stanzas, as a transition system of its
    own; the two are related by a locale of refinement up to stuttering.
    \<open>Peers\<close> is the contract of an end of the loop, be it a byte stream or a WebSocket, as a locale (what
    reaches it when it is written to, what it delivers when it is read, what its end does), and the
    relay proved once for any two ends.
  \<^item> \<open>Conn_Order\<close>, \<open>Posh_Fingerprints\<close>, \<open>Verify\<close>, \<open>Srv_Collect\<close>: \<open>srv.rs\<close> and \<open>verify.rs\<close>.  How the
    connections of a domain are found (DNS, host-meta in both formats, POSH, defaults), sorted, and
    which certificates are accepted for them.
    \<open>Conn_Types\<close> is the typing of the connections that are found: which transport, security, addresses
    and names can go together.
  \<^item> \<open>Starttls\<close>: both STARTTLS dialogues (\<open>tls/incoming.rs\<close>, \<open>tls/outgoing.rs\<close>).
  \<^item> \<open>Context\<close>: \<open>context.rs\<close>.
  \<^item> \<open>Incoming\<close>: \<open>common/incoming.rs\<close> and the handlers of the transports (\<open>tls/incoming.rs\<close>,
    \<open>websocket/incoming.rs\<close>, \<open>quic/incoming.rs\<close>, \<open>webtransport/incoming.rs\<close>), from the first byte of a
    connection to the start state of the shuffle loop.
  \<^item> \<open>Outgoing\<close>: \<open>outgoing.rs\<close>, \<open>common/outgoing.rs\<close>, the connectors of the transports, and
    \<open>XmppConnection::connect\<close> and \<open>srv_connect\<close> of \<open>srv.rs\<close>.  \<open>Quic_Suite\<close> is the search for the
    initial cipher suite of QUIC in \<open>quic/mod.rs\<close>.
  \<^item> \<open>Quic_Sockets\<close>: \<open>quic/unix_datagram.rs\<close>.  A future is a state with a poll function over the state of
    the world; the locale of futures of one use is the contract between the poller and the futures
    it makes.  \<open>Stream_Halves\<close>: the trait \<open>Split\<close>, \<open>QuicStream\<close> of \<open>quic/mod.rs\<close> and \<open>AllStream\<close> of
    \<open>common/stream_listener.rs\<close>, over poll functions that are parameters.
  \<^item> \<open>Systemd\<close>: \<open>systemd.rs\<close>.  \<open>Certs_Key\<close>: \<open>common/certs_key.rs\<close>, \<open>read_certified_key\<close> and the task that
    reloads the key.  \<open>Main_Config\<close>: \<open>main.rs\<close>, from the configuration to the tasks, with the endpoints
    of QUIC; \<open>Program_Main\<close>: its arguments, the files it reads, and what a signal reads again.
  \<^item> \<open>Listeners\<close>: \<open>common/stream_listener.rs\<close> and the accept loops, and the composition of all of the
    incoming side; \<open>End_To_End\<close>: that of a connection that starts with STARTTLS, and of the outgoing side;
    \<open>Ws_Relay\<close>: that of a client over a WebSocket; \<open>Outgoing_Relay\<close>: that of the outgoing side for a local
    client and a server over any two transports, which the contract of \<open>Peers\<close> gives.
  \<^item> \<open>Lazy_Cell\<close>: statics of type \<open>LazyLock\<close>, with a locale for their contract.  \<open>Process_Statics\<close>:
    the provider of cryptography that \<open>lib.rs\<close> installs, \<open>common/ca_roots.rs\<close>, and their uses in
    \<open>verify.rs\<close>, \<open>quic/mod.rs\<close> and \<open>read_certified_key\<close>.  \<open>Network_Statics\<close>: the resolver and the HTTPS
    client of \<open>srv.rs\<close>.  The state of the process is a record of cells that is passed on explicitly;
    each cell is an interpretation of the locale.
  \<^item> \<open>Build_Version\<close>: \<open>../build.rs\<close>, the statement that prints the version.  \<open>Fuzz_Target\<close>:
    \<open>../fuzz/src/main.rs\<close>, the target of the fuzzer.  \<open>Source_Tests\<close>: the tests of the pure functions, of
    which the model gives the expected results.

  \<^bold>\<open>What is proved.\<close>
  \<^item> The filter cuts exactly the items of the grammar out of a stream, never panics from a
    consistent state, enforces the limit, and refines its abstract machine.
  \<^item> The loop relays what is cut, unaltered and in order, in every interleaving; it terminates; a
    stanza over the limit leads to a panic of the task instead of an error.
  \<^item> A backend is contacted only after a TLS handshake, and for a server only with a certificate that
    was verified for the domain its header names; an outgoing connection is one of those found for the
    domain, made by a handshake that was given the verifier of that domain and, as the name, the domain
    or a securely found target.
  \<^item> The order in which connections are tried, what duplicates are reduced to, where names,
    fingerprints and links come from.
  \<^item> The states the loop can reach are, seen without bytes, exactly those of the abstract relay.
  \<^item> The dialogues of STARTTLS, the opening of a session on both sides, and its whole course from
    \<open>accept\<close> to the last stanza, for a client over TLS, one over STARTTLS (\<open>Listeners\<close>,
    \<open>End_To_End\<close>), a client over a WebSocket, whose close does not end it (\<open>Ws_Relay\<close>), and a local client
    over TCP or a WebSocket whose server is searched, may first be unreachable, and is reached over
    TLS, STARTTLS, a WebSocket, QUIC or WebTransport (\<open>Outgoing_Relay\<close>); a STARTTLS attempt that fails in
    the handshake spoils the first stanza of a session over a WebSocket.
  \<^item> Every connection that is found is well formed, so that STARTTLS is only ever made under the name
    of the domain and a secure record needs no lookup of a name.
  \<^item> The poller of a QUIC socket never polls a future that has returned, and a QUIC stream is its two
    halves, in whatever order they are used.
  \<^item> The start of the program: one task for every listener that was configured or passed by systemd,
    and a key that survives failed reloads.
  \<^item> The statics of the process, which are computed on first use, by whichever task comes first, cannot be
    told from constants, and so the other theories take what they hold as functions: the verifier of
    certificates, the signature checks, the key and the cipher suite are those of the one provider
    that is installed, and lookups and HTTPS requests those of one resolver and one client.
  \<^item> The error properties state where the code does something else than it means to.

  \<^bold>\<open>Bounds.\<close>  All functions are total: the loops are structural over what is left to read (a
  connection delivers finitely many bytes, messages and errors before a property looks at it), the
  shuffle loop is a relation, and there is no fuel; polls are counted by the length of a list of calls
  or by a number that the properties leave open.  A list of peeks or of accepted connections that
  has been used up is a call that is still waiting, with \<open>None\<close> as the result.  Ports, priorities,
  weights and descriptors are words of their width; the index of a descriptor is cast to 32 bits
  as in the code, and the reference for socket activation says which error a larger count gives.
  Lengths are natural numbers, bounded by the length of a vector.  The header of the PROXY protocol has
  at most 104 bytes, so a limit of 104 for stanzas is enough for it.

  \<^bold>\<open>Parameters.\<close>  The libraries are parameters: the TLS, QUIC and WebSocket handshakes, webpki
  and the digests, DNS and HTTPS, the parsers of JSON, TOML, PEM and URIs, and the system calls.  A
  parameter answers the same question the same way; the few hypotheses on them (equal URIs print
  alike) are premises of the properties that need them.  Concurrent lookups are put together in
  the order in which the code does so.

  \<^bold>\<open>Not modelled.\<close>  The libraries below the parameters; sending a datagram and the output of \<open>Debug\<close>,
  which only call them; the system calls that read the options of a descriptor; what is written to the
  log (apart from the lines \<open>Context\<close> computes and the settings of \<open>main\<close>); module declarations; and the
  tests but for those of \<open>Source_Tests\<close>.  Configurations with some features disabled at compile time are not modelled, except where
  a theory says so (the source of the trust anchors, logging): all are enabled, on Unix.
\<close>

end
